(* ===== verification/Prelude.thy ===== *)
theory Prelude
  imports Main "HOL-Library.Word"
begin

text \<open>
  Shared vocabulary of the development.

  The kernel is built with the \<^verbatim>\<open>dev\<close> profile (\<^verbatim>\<open>Makefile\<close>: \<^verbatim>\<open>TYPE=debug\<close>), so the
  integer operations of the Rust source are checked: an overflowing addition, subtraction,
  multiplication or shift is a panic.  A computation that may panic returns a
  value of the sum type \<open>panic + 'a\<close>; \<open>and_then\<close> runs one computation after
  another and stops at the first panic.  State is passed explicitly.

  The theory holds: the machine integers (\<open>usize\<close> is a 64-bit word on riscv64), the panics,
  the checked operations, bounds-checked access to vectors, \<open>for\<close> loops over a list
  of values, and the facts on words every component uses.
\<close>

unbundle bit_operations_syntax

named_theorems result_simps \<open>equations of the result combinators\<close>
named_theorems checked_simps \<open>when a checked operation returns, and what\<close>

section \<open>Machine integers\<close>

type_synonym u8 = "8 word"
type_synonym u16 = "16 word"
type_synonym u32 = "32 word"
type_synonym u64 = "64 word"
type_synonym i32 = "32 word"
type_synonym usize = "64 word"

section \<open>Panics and results\<close>

datatype panic =
    ArithOverflow                \<comment> \<open>overflow of a checked integer operation\<close>
  | DivByZero
  | IndexOutOfBounds             \<comment> \<open>slice or \<open>Vec\<close> index\<close>
  | UnwrapNone                   \<comment> \<open>\<open>Option::unwrap\<close> on \<open>None\<close>\<close>
  | Expect string                \<comment> \<open>\<open>Option::expect\<close> on \<open>None\<close>\<close>
  | AssertFailed string          \<comment> \<open>\<open>assert!\<close> and \<open>assert_eq!\<close>\<close>
  | ExplicitPanic string         \<comment> \<open>\<open>panic!\<close>\<close>

type_synonym 'a result = "panic + 'a"

abbreviation Ok :: "'a \<Rightarrow> 'a result" where "Ok x \<equiv> Inr x"
abbreviation Panic :: "panic \<Rightarrow> 'a result" where "Panic p \<equiv> Inl p"

definition and_then :: "'a result \<Rightarrow> ('a \<Rightarrow> 'b result) \<Rightarrow> 'b result" where
  "and_then r f = (case r of Inl p \<Rightarrow> Inl p | Inr x \<Rightarrow> f x)"

definition rust_assert :: "string \<Rightarrow> bool \<Rightarrow> unit result" where
  "rust_assert msg b = (if b then Ok () else Panic (AssertFailed msg))"

definition expect :: "string \<Rightarrow> 'a option \<Rightarrow> 'a result" where
  "expect msg v = (case v of None \<Rightarrow> Panic (Expect msg) | Some x \<Rightarrow> Ok x)"

definition unwrap :: "'a option \<Rightarrow> 'a result" where
  "unwrap v = (case v of None \<Rightarrow> Panic UnwrapNone | Some x \<Rightarrow> Ok x)"

lemma and_then_Ok [simp, result_simps]: "and_then (Inr x) f = f x"
  by (simp add: and_then_def)

lemma and_then_Panic [simp, result_simps]: "and_then (Inl p) f = Inl p"
  by (simp add: and_then_def)

lemma and_then_eq_Ok:
  "and_then r f = Inr y \<longleftrightarrow> (\<exists>x. r = Inr x \<and> f x = Inr y)"
  by (cases r) auto

lemma and_then_OkE:
  assumes "and_then r f = Inr y"
  obtains x where "r = Inr x" and "f x = Inr y"
  using assms by (auto simp: and_then_eq_Ok)

lemma and_then_assoc: "and_then (and_then r f) g = and_then r (\<lambda>x. and_then (f x) g)"
  by (cases r) auto

lemma and_then_cong [fundef_cong]:
  assumes "r = r'" and "\<And>x. r' = Inr x \<Longrightarrow> f x = g x"
  shows "and_then r f = and_then r' g"
  using assms by (cases r') auto

lemma rust_assert_True [simp, result_simps]: "rust_assert msg True = Inr ()"
  by (simp add: rust_assert_def)

lemma rust_assert_Ok [simp]: "rust_assert msg b = Inr u \<longleftrightarrow> b"
  by (simp add: rust_assert_def)

lemma rust_assert_False [simp, result_simps]: "rust_assert msg False = Inl (AssertFailed msg)"
  by (simp add: rust_assert_def)

lemma expect_simps [simp, result_simps]:
  "expect msg None = Inl (Expect msg)" "expect msg (Some x) = Inr x"
  by (simp_all add: expect_def)

lemma unwrap_simps [simp, result_simps]:
  "unwrap None = Inl UnwrapNone" "unwrap (Some x) = Inr x"
  by (simp_all add: unwrap_def)

lemma unwrap_Ok: "unwrap v = Inr x \<longleftrightarrow> v = Some x"
  by (cases v) auto

lemma expect_Ok: "expect msg v = Inr x \<longleftrightarrow> v = Some x"
  by (cases v) auto

section \<open>Checked integer operations\<close>

definition checked_add :: "'a::len word \<Rightarrow> 'a word \<Rightarrow> 'a word result" where
  "checked_add a b =
     (if unat a + unat b < 2 ^ LENGTH('a) then Ok (a + b) else Panic ArithOverflow)"

definition checked_sub :: "'a::len word \<Rightarrow> 'a word \<Rightarrow> 'a word result" where
  "checked_sub a b = (if b \<le> a then Ok (a - b) else Panic ArithOverflow)"

definition checked_mul :: "'a::len word \<Rightarrow> 'a word \<Rightarrow> 'a word result" where
  "checked_mul a b =
     (if unat a * unat b < 2 ^ LENGTH('a) then Ok (a * b) else Panic ArithOverflow)"

definition checked_div :: "'a::len word \<Rightarrow> 'a word \<Rightarrow> 'a word result" where
  "checked_div a b = (if b = 0 then Panic DivByZero else Ok (a div b))"

text \<open>Only the shift amount is checked; bits shifted out are lost.\<close>

definition checked_shl :: "'a::len word \<Rightarrow> 'b::len word \<Rightarrow> 'a word result" where
  "checked_shl a n =
     (if unat n < LENGTH('a) then Ok (push_bit (unat n) a) else Panic ArithOverflow)"

definition checked_shr :: "'a::len word \<Rightarrow> 'b::len word \<Rightarrow> 'a word result" where
  "checked_shr a n =
     (if unat n < LENGTH('a) then Ok (drop_bit (unat n) a) else Panic ArithOverflow)"

lemma checked_add_Ok [checked_simps]:
  fixes a b :: "'a::len word"
  shows "checked_add a b = Inr c \<longleftrightarrow> unat a + unat b < 2 ^ LENGTH('a) \<and> c = a + b"
  by (auto simp: checked_add_def)

lemma checked_sub_Ok [checked_simps]:
  "checked_sub a b = Inr c \<longleftrightarrow> b \<le> a \<and> c = a - b"
  by (auto simp: checked_sub_def)

lemma checked_mul_Ok [checked_simps]:
  fixes a b :: "'a::len word"
  shows "checked_mul a b = Inr c \<longleftrightarrow> unat a * unat b < 2 ^ LENGTH('a) \<and> c = a * b"
  by (auto simp: checked_mul_def)

lemma checked_addI [simp]:
  fixes a b :: "'a::len word"
  shows "unat a + unat b < 2 ^ LENGTH('a) \<Longrightarrow> checked_add a b = Inr (a + b)"
  by (simp add: checked_add_def)

lemma checked_mulI [simp]:
  fixes a b :: "'a::len word"
  shows "unat a * unat b < 2 ^ LENGTH('a) \<Longrightarrow> checked_mul a b = Inr (a * b)"
  by (simp add: checked_mul_def)

lemma checked_subI [simp]: "b \<le> a \<Longrightarrow> checked_sub a b = Inr (a - b)"
  by (simp add: checked_sub_def)

lemma checked_shlI [simp]:
  fixes a :: "'a::len word"
  shows "unat n < LENGTH('a) \<Longrightarrow> checked_shl a n = Inr (push_bit (unat n) a)"
  by (simp add: checked_shl_def)

lemma checked_shrI [simp]:
  fixes a :: "'a::len word"
  shows "unat n < LENGTH('a) \<Longrightarrow> checked_shr a n = Inr (drop_bit (unat n) a)"
  by (simp add: checked_shr_def)

lemma unat_checked_add:
  fixes a b :: "'a::len word"
  shows "unat a + unat b < 2 ^ LENGTH('a) \<Longrightarrow> unat (a + b) = unat a + unat b"
  by (simp add: unat_word_ariths)

lemma unat_checked_mul:
  fixes a b :: "'a::len word"
  shows "unat a * unat b < 2 ^ LENGTH('a) \<Longrightarrow> unat (a * b) = unat a * unat b"
  by (simp add: unat_word_ariths)

lemma unat_usize_less: "unat (a :: usize) < 2 ^ 64"
  using unsigned_less [of a] by simp

lemma unat_of_nat_small: "k < 2 ^ 64 \<Longrightarrow> unat (of_nat k :: usize) = k"
  by (simp add: unat_of_nat)

section \<open>Vectors\<close>

text \<open>
  \<open>v[i]\<close> and \<open>v[i] = x\<close> panic out of range; \<open>v.get(i)\<close> returns \<open>None\<close> there.
\<close>

definition vec_index :: "'a list \<Rightarrow> nat \<Rightarrow> 'a result" where
  "vec_index v i = (if i < length v then Ok (v ! i) else Panic IndexOutOfBounds)"

definition vec_store :: "'a list \<Rightarrow> nat \<Rightarrow> 'a \<Rightarrow> 'a list result" where
  "vec_store v i x = (if i < length v then Ok (v[i := x]) else Panic IndexOutOfBounds)"

definition vec_get :: "'a list \<Rightarrow> nat \<Rightarrow> 'a option" where
  "vec_get v i = (if i < length v then Some (v ! i) else None)"

lemma vec_index_in [simp]: "i < length v \<Longrightarrow> vec_index v i = Inr (v ! i)"
  by (simp add: vec_index_def)

lemma vec_store_in [simp]: "i < length v \<Longrightarrow> vec_store v i x = Inr (v[i := x])"
  by (simp add: vec_store_def)

lemma vec_index_out [simp]: "length v \<le> i \<Longrightarrow> vec_index v i = Inl IndexOutOfBounds"
  by (simp add: vec_index_def)

lemma vec_store_out [simp]: "length v \<le> i \<Longrightarrow> vec_store v i x = Inl IndexOutOfBounds"
  by (simp add: vec_store_def)

section \<open>Loops over a list of values\<close>

fun for_each :: "'a list \<Rightarrow> ('a \<Rightarrow> 's \<Rightarrow> 's result) \<Rightarrow> 's \<Rightarrow> 's result" where
  "for_each [] body s = Ok s"
| "for_each (x # xs) body s = and_then (body x s) (\<lambda>s'. for_each xs body s')"

lemma for_each_append:
  "for_each (xs @ ys) body s = and_then (for_each xs body s) (for_each ys body)"
  by (induction xs arbitrary: s) (simp_all add: and_then_assoc fun_eq_iff cong: and_then_cong)

text \<open>A loop whose body always returns, and keeps an invariant, returns and keeps it.\<close>

lemma for_each_inv:
  assumes "\<And>x s. x \<in> set xs \<Longrightarrow> I s \<Longrightarrow> \<exists>s'. body x s = Inr s' \<and> I s'" and "I s"
  shows "\<exists>s'. for_each xs body s = Inr s' \<and> I s'"
  using assms
proof (induction xs arbitrary: s)
  case Nil
  then show ?case by simp
next
  case (Cons x xs)
  from Cons.prems(1) [of x s] Cons.prems(2) obtain s1 where s1: "body x s = Inr s1" "I s1"
    by auto
  have "\<exists>s'. for_each xs body s1 = Inr s' \<and> I s'"
    by (rule Cons.IH) (use Cons.prems(1) s1(2) in auto)
  with s1 show ?case by simp
qed

lemma for_each_cong:
  assumes "\<And>x s. x \<in> set xs \<Longrightarrow> f x s = g x s"
  shows "for_each xs f s = for_each xs g s"
  using assms by (induction xs arbitrary: s) (auto intro: and_then_cong)

text \<open>A loop that only checks.\<close>

lemma for_each_checks:
  "for_each xs (\<lambda>x _. g x) () = Inr () \<longleftrightarrow> (\<forall>x \<in> set xs. g x = Inr ())"
  by (induction xs) (auto simp: and_then_eq_Ok)

lemma for_each_map: "for_each (map h xs) body s = for_each xs (\<lambda>x. body (h x)) s"
  by (induction xs arbitrary: s) (auto intro: and_then_cong)

section \<open>Lists\<close>

lemma list_update_eq_self: "xs ! i = x \<Longrightarrow> xs[i := x] = xs"
  by (metis list_update_id)

section \<open>Ordered maps\<close>

text \<open>
  \<open>BTreeMap\<close>: the entries in key order, one per key.  \<open>insert\<close> also returns the value it
  replaces; iteration is in key order.
\<close>

type_synonym ('k, 'v) btree_map = "('k \<times> 'v) list"

fun btree_insert :: "'k::linorder \<Rightarrow> 'v \<Rightarrow> ('k, 'v) btree_map \<Rightarrow> 'v option \<times> ('k, 'v) btree_map" where
  "btree_insert k v [] = (None, [(k, v)])"
| "btree_insert k v ((k', v') # m) =
     (if k < k' then (None, (k, v) # (k', v') # m)
      else if k = k' then (Some v', (k, v) # m)
      else let (old, m') = btree_insert k v m in (old, (k', v') # m'))"

lemma btree_insert_old: "sorted (map fst m) \<Longrightarrow> distinct (map fst m) \<Longrightarrow>
    fst (btree_insert k v m) = map_of m k"
proof (induction k v m rule: btree_insert.induct)
  case (2 k v k' v' m)
  then have "k < k' \<Longrightarrow> map_of m k = None"
    by (force simp: map_of_eq_None_iff)
  with 2 show ?case by (auto simp: split_def Let_def)
qed simp

lemma btree_insert_keys: "set (map fst (snd (btree_insert k v m))) = insert k (set (map fst m))"
  by (induction k v m rule: btree_insert.induct) (auto simp: split_def Let_def)

lemma btree_insert_map_of:
  "sorted (map fst m) \<Longrightarrow> distinct (map fst m) \<Longrightarrow>
    map_of (snd (btree_insert k v m)) = (map_of m)(k \<mapsto> v)"
  by (induction k v m rule: btree_insert.induct) (auto simp: split_def Let_def fun_eq_iff)

lemma btree_insert_sorted:
  assumes "sorted (map fst m)" and "distinct (map fst m)"
  shows "sorted (map fst (snd (btree_insert k v m))) \<and> distinct (map fst (snd (btree_insert k v m)))"
  using assms
proof (induction k v m rule: btree_insert.induct)
  case (2 k v k' v' m)
  then show ?case
    using btree_insert_keys [of k v m] by (fastforce simp: split_def Let_def)
qed simp

end
