(* ===== verification/Layout.thy ===== *)
theory Layout
  imports Prelude
begin

text \<open>
  The constants of \<^verbatim>\<open>kernel/src/mm/layout.rs\<close> and the linker symbols of
  \<^verbatim>\<open>kernel/src/kernel.ld\<close>.  The values of the symbols are fixed at link time, so they are
  a record \<open>linker_symbols\<close> that the definitions take as an argument; \<open>linker_ok\<close> states
  what the linker script guarantees about them.
\<close>

section \<open>Constants\<close>

definition PAGE_ORDER :: usize where "PAGE_ORDER = 12"
definition PAGE_SIZE :: usize where "PAGE_SIZE = 4096"
definition MAX_VA :: usize where "MAX_VA = push_bit (9 + 9 + 9 + 12 - 1) 1"
definition TRAMPOLINE_BASE_VA :: usize where "TRAMPOLINE_BASE_VA = MAX_VA - PAGE_SIZE"
definition KERNEL_BASE :: usize where "KERNEL_BASE = 0x80000000"
definition PHYS_TOP :: usize where "PHYS_TOP = KERNEL_BASE + 128 * 1024 * 1024"
definition KERNEL_HEAP_SIZE :: usize where "KERNEL_HEAP_SIZE = 1 * 1024 * 1024"
definition KERNEL_STACK_SIZE :: usize where "KERNEL_STACK_SIZE = PAGE_SIZE * 2"
definition USER_STACK_SIZE :: usize where "USER_STACK_SIZE = PAGE_SIZE * 2"
definition UART_BASE :: usize where "UART_BASE = 0x10000000"
definition UART_SIZE :: usize where "UART_SIZE = PAGE_SIZE"
definition VIRTIO_BASE :: usize where "VIRTIO_BASE = 0x10001000"
definition VIRTIO_SIZE :: usize where "VIRTIO_SIZE = PAGE_SIZE"
definition CLINT_BASE :: usize where "CLINT_BASE = 0x2000000"
definition CLINT_MTIMECMP_BASE :: usize where "CLINT_MTIMECMP_BASE = CLINT_BASE + 0x4000"
definition CLINT_MTIME_BASE :: usize where "CLINT_MTIME_BASE = CLINT_BASE + 0xbff8"
definition CLINT_SIZE :: usize where "CLINT_SIZE = 0x10000"
definition PLIC_BASE :: usize where "PLIC_BASE = 0x0c000000"
definition PLIC_PRIORITY :: usize where "PLIC_PRIORITY = PLIC_BASE + 0x0"
definition PLIC_PENDING :: usize where "PLIC_PENDING = PLIC_BASE + 0x1000"
definition PLIC_SIZE :: usize where "PLIC_SIZE = 0x400000"
definition TRAPFRAME_BASE_USER_VA :: usize where
  "TRAPFRAME_BASE_USER_VA = TRAMPOLINE_BASE_VA - 2 * PAGE_SIZE"
definition TRAPFRAME_SIZE :: usize where "TRAPFRAME_SIZE = PAGE_SIZE"
definition TEXT_BASE_USER_VA :: usize where "TEXT_BASE_USER_VA = 0x10000"

lemmas layout_defs =
  PAGE_ORDER_def PAGE_SIZE_def MAX_VA_def TRAMPOLINE_BASE_VA_def KERNEL_BASE_def PHYS_TOP_def
  KERNEL_HEAP_SIZE_def KERNEL_STACK_SIZE_def USER_STACK_SIZE_def UART_BASE_def UART_SIZE_def
  VIRTIO_BASE_def VIRTIO_SIZE_def CLINT_BASE_def CLINT_MTIMECMP_BASE_def CLINT_MTIME_BASE_def
  CLINT_SIZE_def PLIC_BASE_def PLIC_PRIORITY_def PLIC_PENDING_def PLIC_SIZE_def
  TRAPFRAME_BASE_USER_VA_def TRAPFRAME_SIZE_def TEXT_BASE_USER_VA_def

lemma unat_PAGE_SIZE [simp]: "unat PAGE_SIZE = 4096"
  by (simp add: PAGE_SIZE_def)

lemma unat_PAGE_ORDER [simp]: "unat PAGE_ORDER = 12"
  by (simp add: PAGE_ORDER_def)

lemma PAGE_SIZE_neq_0 [simp]: "PAGE_SIZE \<noteq> 0"
  by (simp add: PAGE_SIZE_def)

lemma MAX_VA_value: "MAX_VA = 0x4000000000"
  by (simp add: MAX_VA_def push_bit_eq_mult)

lemma TRAMPOLINE_BASE_VA_value: "TRAMPOLINE_BASE_VA = 0x3FFFFFF000"
  by (simp add: TRAMPOLINE_BASE_VA_def MAX_VA_value PAGE_SIZE_def)

lemma TRAPFRAME_BASE_USER_VA_value: "TRAPFRAME_BASE_USER_VA = 0x3FFFFFD000"
  by (simp add: TRAPFRAME_BASE_USER_VA_def TRAMPOLINE_BASE_VA_value PAGE_SIZE_def)

section \<open>Linker symbols\<close>

record linker_symbols =
  ld_heap_size :: usize
  ld_heap_end :: usize
  ld_heap_start :: usize
  ld_kernel_stack_end :: usize
  ld_kernel_stack_start :: usize
  ld_kernel_binary_end :: usize
  ld_bss_end :: usize
  ld_bss_start :: usize
  ld_data_end :: usize
  ld_data_start :: usize
  ld_rodata_end :: usize
  ld_rodata_start :: usize
  ld_text_end :: usize
  ld_trampoline_end :: usize
  ld_trampoline_start :: usize
  ld_text_start :: usize
  ld_kernel_binary_start :: usize
  ld_kernel_heap_space :: usize

text \<open>
  What \<^verbatim>\<open>kernel.ld\<close> lays out: the sections follow one another from \<open>KERNEL_BASE\<close> and end on
  page boundaries, the boot stacks (0x80000 bytes) follow \<^verbatim>\<open>.bss\<close>, and the frame heap is the
  rest of the 128 MB of RAM.  The array \<^verbatim>\<open>KERNEL_HEAP_SPACE\<close> lies in \<^verbatim>\<open>.bss\<close>, on a page boundary.
\<close>

definition page_aligned :: "usize \<Rightarrow> bool" where
  "page_aligned a \<longleftrightarrow> 4096 dvd unat a"

definition linker_ok :: "linker_symbols \<Rightarrow> bool" where
  "linker_ok L \<longleftrightarrow>
     ld_kernel_binary_start L = KERNEL_BASE \<and> ld_text_start L = KERNEL_BASE \<and>
     page_aligned (ld_trampoline_start L) \<and> page_aligned (ld_trampoline_end L) \<and>
     ld_text_start L \<le> ld_trampoline_start L \<and>
     ld_trampoline_start L \<le> ld_trampoline_end L \<and> ld_trampoline_end L \<le> ld_text_end L \<and>
     page_aligned (ld_text_end L) \<and>
     ld_rodata_start L = ld_text_end L \<and> ld_rodata_start L \<le> ld_rodata_end L \<and>
     page_aligned (ld_rodata_end L) \<and>
     ld_data_start L = ld_rodata_end L \<and> ld_data_start L \<le> ld_data_end L \<and>
     page_aligned (ld_data_end L) \<and>
     ld_bss_start L = ld_data_end L \<and> ld_bss_start L \<le> ld_bss_end L \<and>
     page_aligned (ld_bss_end L) \<and> ld_kernel_binary_end L = ld_bss_end L \<and>
     ld_kernel_stack_start L = ld_bss_end L \<and>
     ld_bss_end L \<le> PHYS_TOP - 0x80000 \<and>
     ld_kernel_stack_end L = ld_kernel_stack_start L + 0x80000 \<and>
     ld_heap_start L = ld_kernel_stack_end L \<and> ld_heap_end L = PHYS_TOP \<and>
     ld_heap_size L = ld_heap_end L - ld_heap_start L \<and>
     page_aligned (ld_kernel_heap_space L) \<and> ld_bss_start L \<le> ld_kernel_heap_space L \<and>
     unat (ld_kernel_heap_space L) + unat KERNEL_HEAP_SIZE \<le> unat (ld_bss_end L)"

text \<open>A layout of this kind.\<close>

definition sample_linker :: linker_symbols where
  "sample_linker =
     \<lparr>ld_heap_size = 0x7E79000, ld_heap_end = 0x88000000, ld_heap_start = 0x80187000,
      ld_kernel_stack_end = 0x80187000, ld_kernel_stack_start = 0x80107000,
      ld_kernel_binary_end = 0x80107000, ld_bss_end = 0x80107000, ld_bss_start = 0x80006000,
      ld_data_end = 0x80006000, ld_data_start = 0x80005000, ld_rodata_end = 0x80005000,
      ld_rodata_start = 0x80004000, ld_text_end = 0x80004000, ld_trampoline_end = 0x80002000,
      ld_trampoline_start = 0x80001000, ld_text_start = 0x80000000,
      ld_kernel_binary_start = 0x80000000, ld_kernel_heap_space = 0x80006000\<rparr>"

lemma sample_linker_ok: "linker_ok sample_linker"
  by (simp add: linker_ok_def sample_linker_def KERNEL_BASE_def PHYS_TOP_def page_aligned_def KERNEL_HEAP_SIZE_def)

end
