(* ===== verification/Arithmetics.thy ===== *)
theory Arithmetics
  imports Layout
begin

text \<open>
  The alignment arithmetic and the range iterator of
  \<^verbatim>\<open>kernel/src/mm/arithmetics.rs\<close>: rounding to a power of two, the conversions between
  physical addresses and page table entries, and \<open>SimpleRange\<close> with its iterator, whose
  \<open>next\<close> compares the cursor with the end for equality.
\<close>

section \<open>Alignment\<close>

definition ALIGN_UP :: "usize \<Rightarrow> usize \<Rightarrow> usize result" where
  "ALIGN_UP val order =
     and_then (checked_shl 1 order) (\<lambda>p.
     and_then (checked_sub p 1) (\<lambda>o'.
     and_then (checked_add val o') (\<lambda>v. Ok (v AND NOT o'))))"

definition ALIGN_DOWN :: "usize \<Rightarrow> usize \<Rightarrow> usize result" where
  "ALIGN_DOWN val order =
     and_then (checked_shl 1 order) (\<lambda>p.
     and_then (checked_sub p 1) (\<lambda>o'. Ok (val AND NOT o')))"

definition PG_ROUND_DOWN :: "usize \<Rightarrow> usize result" where
  "PG_ROUND_DOWN val = ALIGN_DOWN val PAGE_ORDER"

definition PG_ROUND_UP :: "usize \<Rightarrow> usize result" where
  "PG_ROUND_UP val = ALIGN_UP val PAGE_ORDER"

definition PA2PPN :: "usize \<Rightarrow> usize" where
  "PA2PPN pa = push_bit 10 (drop_bit 12 pa)"

definition PTE2PA :: "usize \<Rightarrow> usize" where
  "PTE2PA pte = push_bit 12 (drop_bit 10 pte)"

section \<open>Ranges\<close>

text \<open>
  \<open>SimpleRange<T>\<close> and \<open>SimpleRangeIterator<T>\<close>; the trait method \<open>StepByOne::step_one\<close> of
  \<open>T\<close> is the argument \<open>step_one\<close> of \<open>iter_next\<close>.
\<close>

record 'a simple_range =
  range_begin :: 'a
  range_end :: 'a

record 'a simple_range_iterator =
  iter_current :: 'a
  iter_end :: 'a

definition simple_range_new :: "'a \<Rightarrow> 'a \<Rightarrow> 'a simple_range" where
  "simple_range_new b e = \<lparr>range_begin = b, range_end = e\<rparr>"

definition into_iter :: "'a simple_range \<Rightarrow> 'a simple_range_iterator" where
  "into_iter r = \<lparr>iter_current = range_begin r, iter_end = range_end r\<rparr>"

definition iter_next ::
  "('a \<Rightarrow> 'a result) \<Rightarrow> 'a simple_range_iterator \<Rightarrow> ('a option \<times> 'a simple_range_iterator) result"
  where
  "iter_next step_one it =
     (if iter_current it = iter_end it then Ok (None, it)
      else and_then (step_one (iter_current it)) (\<lambda>c.
             Ok (Some (iter_current it), it\<lparr>iter_current := c\<rparr>)))"

section \<open>Facts on masks\<close>

lemma push_bit_1_word: "push_bit n (1 :: 'a::len word) = 2 ^ n"
  by (simp add: push_bit_eq_mult)

lemma unat_2_power:
  assumes "n < LENGTH('a)"
  shows "unat (2 ^ n :: 'a::len word) = 2 ^ n"
proof -
  have "unat (of_nat (2 ^ n) :: 'a word) = 2 ^ n mod 2 ^ LENGTH('a)"
    by (rule unat_of_nat)
  also have "\<dots> = 2 ^ n"
    using assms by (intro mod_less power_strict_increasing) auto
  finally show ?thesis by simp
qed

lemma one_le_power_word: "n < LENGTH('a) \<Longrightarrow> (1 :: 'a::len word) \<le> 2 ^ n"
  by (simp add: word_le_nat_alt unat_2_power)

lemma unat_and_mask: "unat ((w :: 'a::len word) AND mask n) = unat w mod 2 ^ n"
  by (simp only: take_bit_eq_mask [symmetric] unsigned_take_bit_eq) (simp add: take_bit_eq_mod)

lemma unat_mask_word:
  assumes "n < LENGTH('a)"
  shows "unat (mask n :: 'a::len word) = 2 ^ n - 1"
  using assms by (simp add: mask_eq_decr_exp unat_sub one_le_power_word unat_2_power)

lemma and_not_mask_eq_diff:
  fixes w :: "'a::len word"
  shows "w AND NOT (mask n) = w - (w AND mask n)"
proof -
  have "(w AND mask n) + (w AND NOT (mask n)) = (w AND mask n) OR (w AND NOT (mask n))"
    by (rule disjunctive_add_eq_or) (simp add: bit_eq_iff bit_simps)
  also have "\<dots> = w"
    by (rule bit_word_eqI) (auto simp: bit_simps)
  finally show ?thesis by (simp add: algebra_simps)
qed

lemma unat_and_not_mask:
  fixes w :: "'a::len word"
  shows "unat (w AND NOT (mask n)) = unat w div 2 ^ n * 2 ^ n"
proof -
  have "unat (w AND NOT (mask n)) = unat w - unat (w AND mask n)"
    by (simp add: and_not_mask_eq_diff unat_sub word_and_le2)
  then show ?thesis
    by (simp add: unat_and_mask minus_mod_eq_div_mult)
qed

lemma ALIGN_DOWN_Ok:
  assumes "unat order < 64"
  shows "ALIGN_DOWN v order = Inr (v AND NOT (mask (unat order)))"
  using assms
  by (simp add: ALIGN_DOWN_def push_bit_1_word one_le_power_word mask_eq_decr_exp)

lemma ALIGN_UP_Ok:
  assumes "unat order < 64" and "unat v + (2 ^ unat order - 1) < 2 ^ 64"
  shows "ALIGN_UP v order = Inr ((v + mask (unat order)) AND NOT (mask (unat order)))"
proof -
  have "checked_add v (mask (unat order)) = Inr (v + mask (unat order))"
    using assms by (intro checked_addI) (simp add: unat_mask_word)
  then show ?thesis
    using assms(1)
    by (simp add: ALIGN_UP_def push_bit_1_word one_le_power_word flip: mask_eq_decr_exp)
qed

lemma PG_ROUND_DOWN_Ok [simp]: "PG_ROUND_DOWN v = Inr (v AND NOT (mask 12))"
  by (simp add: PG_ROUND_DOWN_def ALIGN_DOWN_Ok)

lemma PG_ROUND_UP_Ok [simp]:
  "unat v + 4095 < 2 ^ 64 \<Longrightarrow> PG_ROUND_UP v = Inr ((v + mask 12) AND NOT (mask 12))"
  using ALIGN_UP_Ok [of PAGE_ORDER v] by (simp add: PG_ROUND_UP_def)

lemma page_aligned_round [simp]: "page_aligned (v AND NOT (mask 12))"
  by (simp add: page_aligned_def unat_and_not_mask)

lemma page_aligned_round_id:
  assumes "page_aligned v"
  shows "v AND NOT (mask 12) = v"
proof (rule word_unat_eq_iff [THEN iffD2])
  show "unat (v AND NOT (mask 12)) = unat v"
    using assms by (simp add: unat_and_not_mask page_aligned_def)
qed

section \<open>Properties\<close>

text \<open>
  \<open>ALIGN_UP\<close> with an order below 64 returns the least multiple of \<open>2^order\<close> that is not below
  its argument, and panics with an overflow exactly when the sum passes the largest \<open>usize\<close>;
  \<open>ALIGN_DOWN\<close> always returns the greatest multiple that is not above its argument.
\<close>

lemma align_up_down:
  assumes "unat order < 64"
  shows "(case ALIGN_UP v order of
      Inr w \<Rightarrow> 2 ^ unat order dvd unat w \<and> unat v \<le> unat w \<and> unat w < unat v + 2 ^ unat order
    | Inl p \<Rightarrow> p = ArithOverflow \<and> 2 ^ 64 \<le> unat v + (2 ^ unat order - 1)) \<and>
    (\<exists>w. ALIGN_DOWN v order = Inr w \<and> 2 ^ unat order dvd unat w \<and> unat w \<le> unat v \<and>
      unat v < unat w + 2 ^ unat order)"
proof -
  let ?n = "2 ^ unat order :: nat"
  have pos: "0 < ?n" by simp
  have down: "?n dvd x div ?n * ?n" "x div ?n * ?n \<le> x" "x < x div ?n * ?n + ?n" for x
    using div_mult_mod_eq [of x ?n] mod_less_divisor [OF pos, of x] by (auto, linarith)
  have "\<exists>w. ALIGN_DOWN v order = Inr w \<and> ?n dvd unat w \<and> unat w \<le> unat v \<and> unat v < unat w + ?n"
    using assms down [of "unat v"] by (simp add: ALIGN_DOWN_Ok unat_and_not_mask)
  moreover have "case ALIGN_UP v order of
      Inr w \<Rightarrow> ?n dvd unat w \<and> unat v \<le> unat w \<and> unat w < unat v + ?n
    | Inl p \<Rightarrow> p = ArithOverflow \<and> 2 ^ 64 \<le> unat v + (?n - 1)"
  proof (cases "unat v + (?n - 1) < 2 ^ 64")
    case True
    let ?q = "(unat v + (?n - 1)) div ?n * ?n"
    have "unat (v + mask (unat order)) = unat v + (?n - 1)"
      using True assms by (simp add: unat_word_ariths unat_mask_word)
    then have "unat ((v + mask (unat order)) AND NOT (mask (unat order))) = ?q"
      by (simp only: unat_and_not_mask)
    moreover have "unat v \<le> ?q" "?q < unat v + ?n"
      using down(2,3) [of "unat v + (?n - 1)"] pos by linarith+
    ultimately show ?thesis
      using down(1) by (simp only: ALIGN_UP_Ok [OF assms True] sum.case)
  next
    case False
    then show ?thesis
      using assms
      by (simp add: ALIGN_UP_def push_bit_1_word one_le_power_word checked_add_def unat_mask_word
          flip: mask_eq_decr_exp)
  qed
  ultimately show ?thesis by blast
qed

end
