(* ===== verification/Phys_Mem.thy ===== *)
theory Phys_Mem
  imports Arithmetics
begin

text \<open>
  Physical memory, byte addressed.  The kernel maps physical memory identically and reaches it
  through raw pointers (\<^verbatim>\<open>PhysAddr::as_mut_ptr\<close>, \<^verbatim>\<open>slice::from_raw_parts_mut\<close>), so page table
  nodes, trap contexts and frame contents all live in one shared store and may alias.
  \<open>load_usize\<close> and \<open>store_usize\<close> are the little-endian accesses of riscv64 through a
  \<open>*mut usize\<close>; \<open>store_u8\<close> is an access through a \<open>*mut u8\<close>.

  The laws of the accesses are the locale \<open>cell_store\<close>, interpreted for the 512 entries of
  page-aligned tables: a store changes the entry written and no other.
\<close>

type_synonym pmem = "usize \<Rightarrow> u8"

definition store_u8 :: "pmem \<Rightarrow> usize \<Rightarrow> u8 \<Rightarrow> pmem" where
  "store_u8 m a b = m(a := b)"

definition load_usize :: "pmem \<Rightarrow> usize \<Rightarrow> usize" where
  "load_usize m a =
     foldr (\<lambda>k acc. push_bit (8 * k) (ucast (m (a + of_nat k))) OR acc) [0, 1, 2, 3, 4, 5, 6, 7] 0"

definition store_usize :: "pmem \<Rightarrow> usize \<Rightarrow> usize \<Rightarrow> pmem" where
  "store_usize m a v =
     (\<lambda>x. if unat (x - a) < 8 then ucast (drop_bit (8 * unat (x - a)) v) else m x)"

section \<open>Reading back a word\<close>

lemma bit_load_usize:
  "bit (load_usize m a) n \<longleftrightarrow> n < 64 \<and> bit (m (a + of_nat (n div 8))) (n mod 8)"
proof (cases "n < 64")
  case False
  then show ?thesis
    using bit_imp_le_length [of "load_usize m a" n] by auto
next
  case True
  have byte: "bit (push_bit (8 * k) (ucast (m (a + of_nat k)) :: usize)) n \<longleftrightarrow>
      k = n div 8 \<and> bit (m (a + of_nat (n div 8))) (n mod 8)" if "k < 8" for k
  proof (cases "k = n div 8")
    case True
    then have "n - 8 * k = n mod 8" and "8 * k \<le> n"
      by (simp_all add: minus_mult_div_eq_mod)
    moreover have "n mod 8 < 64"
      by (rule less_trans [of _ 8]) simp_all
    ultimately show ?thesis
      using True \<open>n < 64\<close> by (simp add: bit_simps)
  next
    case False
    have "\<not> bit (m (a + of_nat k)) (n - 8 * k)" if "8 * k \<le> n"
    proof
      assume "bit (m (a + of_nat k)) (n - 8 * k)"
      then have "n - 8 * k < 8"
        using bit_imp_le_length by fastforce
      with that False show False by linarith
    qed
    with False show ?thesis
      by (auto simp: bit_simps)
  qed
  have "n div 8 \<in> {0, 1, 2, 3, 4, 5, 6, 7}"
    using True by auto
  with True byte [of 0] byte [of 1] byte [of 2] byte [of 3] byte [of 4] byte [of 5] byte [of 6]
    byte [of 7]
  show ?thesis
    by (auto simp: load_usize_def bit_or_iff)
qed

lemma load_store_same [simp]: "load_usize (store_usize m a v) a = v"
proof (rule bit_word_eqI)
  fix n assume "n < LENGTH(64)"
  moreover define k r where "k = n div 8" and "r = n mod 8"
  ultimately have n: "n = 8 * k + r" and "k < 8" and "r < 8"
    by auto
  then have "store_usize m a v (a + of_nat k) = ucast (drop_bit (8 * k) v)"
    by (simp add: store_usize_def unat_of_nat)
  with \<open>n < LENGTH(64)\<close> show "bit (load_usize (store_usize m a v) a) n = bit v n"
    unfolding bit_load_usize k_def [symmetric] r_def [symmetric]
    using n \<open>r < 8\<close> by (simp add: bit_simps)
qed

lemma load_usize_cong:
  assumes "\<And>k. k < 8 \<Longrightarrow> m (a + of_nat k) = m' (a + of_nat k)"
  shows "load_usize m a = load_usize m' a"
proof (rule bit_word_eqI)
  fix n assume "n < LENGTH(64)"
  then have "n div 8 < 8" by auto
  from assms [OF this] show "bit (load_usize m a) n = bit (load_usize m' a) n"
    by (simp add: bit_load_usize)
qed

lemma load_usize_zero:
  assumes "\<And>k. k < 8 \<Longrightarrow> m (a + of_nat k) = 0"
  shows "load_usize m a = 0"
proof (rule bit_word_eqI)
  fix n assume "n < LENGTH(64)"
  then have "n div 8 < 8" by auto
  from assms [OF this] show "bit (load_usize m a) n = bit (0 :: usize) n"
    by (simp add: bit_load_usize)
qed

text \<open>Words that do not overlap, at any addresses.\<close>

definition words_apart :: "usize \<Rightarrow> usize \<Rightarrow> bool" where
  "words_apart a b \<longleftrightarrow> 8 \<le> unat (a - b) \<and> 8 \<le> unat (b - a)"

lemma words_apart_sym: "words_apart a b \<Longrightarrow> words_apart b a"
  by (auto simp: words_apart_def)

lemma words_apartI:
  assumes "unat a + 8 \<le> unat b" and "unat b + 8 \<le> 2 ^ 64"
  shows "words_apart a b" and "words_apart b a"
  using assms by (auto simp: words_apart_def unat_sub_if' word_le_nat_alt)

lemma store_usize_apart:
  assumes "words_apart a b" and "k < 8"
  shows "store_usize m a v (b + of_nat k) = m (b + of_nat k)"
proof -
  have "unat (b - a) + 8 \<le> 2 ^ 64"
    using assms(1) unat_usize_less [of "b - a"]
    by (auto simp: words_apart_def unat_sub_if' split: if_splits)
  moreover have "unat (of_nat k :: usize) = k"
    using assms(2) by (simp add: unat_of_nat)
  ultimately have "unat (b - a + of_nat k) = unat (b - a) + k"
    using assms(2) by (simp add: unat_word_ariths(1))
  then have "\<not> unat (b + of_nat k - a) < 8"
    using assms(1) by (simp add: words_apart_def algebra_simps)
  then show ?thesis by (simp add: store_usize_def)
qed

lemma load_store_apart: "words_apart a b \<Longrightarrow> load_usize (store_usize m a v) b = load_usize m b"
  by (intro load_usize_cong store_usize_apart)

section \<open>Pages and their cells\<close>

definition page_of :: "usize \<Rightarrow> usize" where
  "page_of x = x AND NOT (mask 12)"

lemma unat_page_of: "unat (page_of x) = unat x div 4096 * 4096"
  using unat_and_not_mask [of x 12] by (simp add: page_of_def)

lemma page_of_aligned [simp]: "page_aligned (page_of x)"
  by (simp add: page_of_def)

lemma page_end_le:
  assumes "page_aligned b"
  shows "unat b + 4096 \<le> 2 ^ 64"
proof -
  obtain k where k: "unat b = 4096 * k"
    using assms by (auto simp: page_aligned_def)
  have "4096 * k < 2 ^ 64"
    unfolding k [symmetric] by (rule unat_usize_less)
  then have "k < 2 ^ 52" by simp
  with k show ?thesis by simp
qed

lemma unat_page_add:
  assumes "page_aligned b" and "n < 4096"
  shows "unat (b + of_nat n) = unat b + n"
proof -
  have "unat b + n < 2 ^ 64"
    using page_end_le [OF assms(1)] assms(2) by linarith
  moreover have "unat (of_nat n :: usize) = n"
    using assms(2) by (simp add: unat_of_nat)
  ultimately show ?thesis
    by (simp add: unat_word_ariths)
qed

lemma page_of_add:
  assumes "page_aligned b" and "n < 4096"
  shows "page_of (b + of_nat n) = b"
proof (rule word_unat_eq_iff [THEN iffD2])
  obtain k where "unat b = 4096 * k"
    using assms by (auto simp: page_aligned_def)
  then show "unat (page_of (b + of_nat n)) = unat b"
    using assms by (simp add: unat_page_of unat_page_add)
qed

definition cell :: "usize \<Rightarrow> usize \<Rightarrow> usize" where
  "cell b i = b + 8 * i"

lemma cell_byte:
  assumes "page_aligned b" and "unat i < 512" and "k < 8"
  shows "cell b i + of_nat k = b + of_nat (8 * unat i + k)" and "8 * unat i + k < 4096"
  using assms by (simp_all add: cell_def)

lemma page_of_cell_byte:
  assumes "page_aligned b" and "unat i < 512" and "k < 8"
  shows "page_of (cell b i + of_nat k) = b"
  using page_of_add [OF assms(1) cell_byte(2) [OF assms]] by (simp only: cell_byte(1) [OF assms])

lemma unat_cell_byte:
  assumes "page_aligned b" and "unat i < 512" and "k < 8"
  shows "unat (cell b i + of_nat k) = unat b + 8 * unat i + k"
  using unat_page_add [OF assms(1) cell_byte(2) [OF assms]] by (simp add: cell_byte(1) [OF assms])

lemma unat_cell:
  assumes "page_aligned b" and "unat i < 512"
  shows "unat (cell b i) = unat b + 8 * unat i"
  using unat_cell_byte [OF assms, of 0] by simp

text \<open>Bytes that a store to a cell changes lie in the page of the cell.\<close>

lemma store_usize_byte:
  assumes "page_aligned b" and "unat i < 512"
    and "\<not> (unat (cell b i) \<le> unat x \<and> unat x < unat (cell b i) + 8)"
  shows "store_usize m (cell b i) v x = m x"
proof -
  have "unat (cell b i) + 8 \<le> 2 ^ 64"
    using unat_cell [OF assms(1,2)] page_end_le [OF assms(1)] assms(2) by linarith
  with assms(3) have "\<not> unat (x - cell b i) < 8"
    by (auto simp: unat_sub_if')
  then show ?thesis by (simp add: store_usize_def)
qed

lemma store_usize_other_page:
  assumes "page_aligned b" and "unat i < 512" and "page_of x \<noteq> b"
  shows "store_usize m (cell b i) v x = m x"
proof -
  have "\<not> unat (x - cell b i) < 8"
  proof
    assume "unat (x - cell b i) < 8"
    then have "page_of (cell b i + of_nat (unat (x - cell b i))) = b"
      by (rule page_of_cell_byte [OF assms(1,2)])
    with assms(3) show False by simp
  qed
  then show ?thesis by (simp add: store_usize_def)
qed

lemma load_store_cell:
  assumes "page_aligned b" "unat i < 512" and "page_aligned c" "unat j < 512"
    and "(b, i) \<noteq> (c, j)"
  shows "load_usize (store_usize m (cell b i) v) (cell c j) = load_usize m (cell c j)"
proof (rule load_usize_cong)
  fix k :: nat assume "k < 8"
  show "store_usize m (cell b i) v (cell c j + of_nat k) = m (cell c j + of_nat k)"
  proof (cases "b = c")
    case False
    with page_of_cell_byte [OF assms(3,4) \<open>k < 8\<close>] show ?thesis
      by (intro store_usize_other_page assms) auto
  next
    case True
    with assms(5) have "unat i \<noteq> unat j"
      by (auto simp: word_unat_eq_iff)
    then have "\<not> (8 * unat i \<le> 8 * unat j + k \<and> 8 * unat j + k < 8 * unat i + 8)"
      using \<open>k < 8\<close> by linarith
    with True unat_cell_byte [OF assms(3,4) \<open>k < 8\<close>] unat_cell [OF assms(1,2)] show ?thesis
      by (intro store_usize_byte assms) auto
  qed
qed

section \<open>The contract of a store of cells\<close>

locale cell_store =
  fixes load :: "'m \<Rightarrow> 'k \<Rightarrow> 'v"
    and store :: "'m \<Rightarrow> 'k \<Rightarrow> 'v \<Rightarrow> 'm"
    and valid :: "'k \<Rightarrow> bool"
  assumes load_store: "valid k \<Longrightarrow> load (store m k v) k = v"
    and load_store_frame: "valid k \<Longrightarrow> valid l \<Longrightarrow> k \<noteq> l \<Longrightarrow> load (store m k v) l = load m l"
begin

text \<open>Storing a list of cells one after another: the last store of a cell is the one read.\<close>

lemma load_fold_store_notin:
  assumes "\<And>k v. (k, v) \<in> set kvs \<Longrightarrow> valid k" and "valid l" and "l \<notin> fst ` set kvs"
  shows "load (fold (\<lambda>(k, v) m. store m k v) kvs m) l = load m l"
  using assms
proof (induction kvs arbitrary: m)
  case Nil
  then show ?case by simp
next
  case (Cons kv kvs)
  obtain k v where kv: "kv = (k, v)" by (cases kv)
  have "load (fold (\<lambda>(k, v) m. store m k v) kvs (store m k v)) l = load (store m k v) l"
    using Cons.prems by (intro Cons.IH) auto
  also have "\<dots> = load m l"
    using Cons.prems kv by (intro load_store_frame) auto
  finally show ?case by (simp add: kv)
qed

lemma load_fold_store:
  assumes "\<And>k v. (k, v) \<in> set kvs \<Longrightarrow> valid k" and "distinct (map fst kvs)" and "(l, w) \<in> set kvs"
  shows "load (fold (\<lambda>(k, v) m. store m k v) kvs m) l = w"
  using assms
proof (induction kvs arbitrary: m)
  case Nil
  then show ?case by simp
next
  case (Cons kv kvs)
  obtain k v where kv: "kv = (k, v)" by (cases kv)
  show ?case
  proof (cases "l = k")
    case True
    with Cons.prems kv have "w = v" and "l \<notin> fst ` set kvs" and "valid l"
      by (force simp: image_iff)+
    then show ?thesis
      using True kv Cons.prems(1) load_fold_store_notin [of kvs k "store m k v"]
      by (auto simp: load_store)
  next
    case False
    with Cons.prems kv show ?thesis
      using Cons.IH [of "store m k v"] by auto
  qed
qed

end

definition table_cell :: "usize \<times> usize \<Rightarrow> bool" where
  "table_cell bi \<longleftrightarrow> page_aligned (fst bi) \<and> unat (snd bi) < 512"

interpretation pte_cells: cell_store
  "\<lambda>m bi. load_usize m (cell (fst bi) (snd bi))"
  "\<lambda>m bi v. store_usize m (cell (fst bi) (snd bi)) v"
  table_cell
  by unfold_locales (auto simp: table_cell_def intro!: load_store_cell)

section \<open>Runs of bytes\<close>

text \<open>\<open>for i in 0..n { bytes[i] = f(i) }\<close> on the bytes from address \<open>a\<close>.\<close>

definition store_bytes :: "nat \<Rightarrow> (nat \<Rightarrow> u8) \<Rightarrow> usize \<Rightarrow> pmem \<Rightarrow> pmem" where
  "store_bytes n f a m = fold (\<lambda>i m. store_u8 m (a + of_nat i) (f i)) [0..<n] m"

lemma store_bytes_eq:
  assumes "n \<le> 2 ^ 64"
  shows "store_bytes n f a m x = (if unat (x - a) < n then f (unat (x - a)) else m x)"
  using assms
proof (induction n)
  case 0
  then show ?case by (simp add: store_bytes_def)
next
  case (Suc n)
  have "store_bytes (Suc n) f a m = store_u8 (store_bytes n f a m) (a + of_nat n) (f n)"
    by (simp add: store_bytes_def)
  moreover have "x = a + of_nat n \<longleftrightarrow> unat (x - a) = n"
  proof
    assume "x = a + of_nat n"
    with Suc.prems show "unat (x - a) = n" by (simp add: unat_of_nat)
  next
    assume "unat (x - a) = n"
    then have "of_nat n = x - a" by auto
    then show "x = a + of_nat n" by simp
  qed
  ultimately show ?case
    using Suc by (auto simp: store_u8_def less_Suc_eq)
qed

lemma store_bytes_page:
  assumes "page_aligned b" and "n \<le> 4096" and "page_of x \<noteq> b"
  shows "store_bytes n f b m x = m x"
proof -
  have "\<not> unat (x - b) < n"
  proof
    assume "unat (x - b) < n"
    with assms(2) have "page_of (b + of_nat (unat (x - b))) = b"
      by (intro page_of_add assms(1)) auto
    with assms(3) show False by simp
  qed
  with assms(2) show ?thesis by (simp add: store_bytes_eq)
qed

end
