(* ===== verification/Memory.thy ===== *)
theory Memory
  imports Phys_Mem
begin

text \<open>
  The address types of \<^verbatim>\<open>kernel/src/mm/memory.rs\<close>: physical and virtual addresses, physical
  frames and virtual pages, their ranges, and the loop over a range of virtual pages.  Each
  is a newtype over \<open>usize\<close>, so each is a one-constructor datatype, ordered by its content
  as \<open>derive(PartialOrd, Ord)\<close> orders it.  The arithmetic of the macro
  \<^verbatim>\<open>impl_address_arithmetics!\<close> is written out for both address types.
\<close>

section \<open>Addresses and frames\<close>

datatype phys_addr = PhysAddr (pa_as_usize: usize)
datatype virt_addr = VirtAddr (va_as_usize: usize)
datatype frame = Frame (frame_number: usize)
datatype virt_frame = VirtFrame (virt_frame_number: usize)

instantiation phys_addr :: linorder
begin
definition less_eq_phys_addr where "a \<le> b \<longleftrightarrow> pa_as_usize a \<le> pa_as_usize b"
definition less_phys_addr where "a < b \<longleftrightarrow> pa_as_usize a < pa_as_usize b"
instance
  by standard (auto simp: less_eq_phys_addr_def less_phys_addr_def intro: phys_addr.expand)
end

instantiation virt_addr :: linorder
begin
definition less_eq_virt_addr where "a \<le> b \<longleftrightarrow> va_as_usize a \<le> va_as_usize b"
definition less_virt_addr where "a < b \<longleftrightarrow> va_as_usize a < va_as_usize b"
instance
  by standard (auto simp: less_eq_virt_addr_def less_virt_addr_def intro: virt_addr.expand)
end

instantiation frame :: linorder
begin
definition less_eq_frame where "a \<le> b \<longleftrightarrow> frame_number a \<le> frame_number b"
definition less_frame where "a < b \<longleftrightarrow> frame_number a < frame_number b"
instance
  by standard (auto simp: less_eq_frame_def less_frame_def intro: frame.expand)
end

instantiation virt_frame :: linorder
begin
definition less_eq_virt_frame where "a \<le> b \<longleftrightarrow> virt_frame_number a \<le> virt_frame_number b"
definition less_virt_frame where "a < b \<longleftrightarrow> virt_frame_number a < virt_frame_number b"
instance
  by standard (auto simp: less_eq_virt_frame_def less_virt_frame_def intro: virt_frame.expand)
end

subsection \<open>Address arithmetic\<close>

definition pa_is_page_aligned :: "phys_addr \<Rightarrow> bool" where
  "pa_is_page_aligned pa \<longleftrightarrow> pa_as_usize pa mod PAGE_SIZE = 0"

definition pa_align_down :: "phys_addr \<Rightarrow> phys_addr result" where
  "pa_align_down pa = and_then (PG_ROUND_DOWN (pa_as_usize pa)) (\<lambda>a. Ok (PhysAddr a))"

definition pa_align_up :: "phys_addr \<Rightarrow> phys_addr result" where
  "pa_align_up pa = and_then (PG_ROUND_UP (pa_as_usize pa)) (\<lambda>a. Ok (PhysAddr a))"

definition pa_get_number :: "phys_addr \<Rightarrow> usize \<Rightarrow> usize result" where
  "pa_get_number pa page_size = checked_div (pa_as_usize pa) page_size"

definition pa_add :: "phys_addr \<Rightarrow> usize \<Rightarrow> phys_addr result" where
  "pa_add pa n = and_then (checked_add (pa_as_usize pa) n) (\<lambda>a. Ok (PhysAddr a))"

definition pa_add_addr :: "phys_addr \<Rightarrow> phys_addr \<Rightarrow> phys_addr result" where
  "pa_add_addr pa rhs = and_then (checked_add (pa_as_usize pa) (pa_as_usize rhs)) (\<lambda>a. Ok (PhysAddr a))"

definition pa_sub_usize :: "phys_addr \<Rightarrow> usize \<Rightarrow> usize result" where
  "pa_sub_usize pa rhs = checked_sub (pa_as_usize pa) rhs"

definition pa_sub :: "phys_addr \<Rightarrow> phys_addr \<Rightarrow> usize result" where
  "pa_sub pa rhs = checked_sub (pa_as_usize pa) (pa_as_usize rhs)"

definition va_is_page_aligned :: "virt_addr \<Rightarrow> bool" where
  "va_is_page_aligned va \<longleftrightarrow> va_as_usize va mod PAGE_SIZE = 0"

definition va_align_down :: "virt_addr \<Rightarrow> virt_addr result" where
  "va_align_down va = and_then (PG_ROUND_DOWN (va_as_usize va)) (\<lambda>a. Ok (VirtAddr a))"

definition va_align_up :: "virt_addr \<Rightarrow> virt_addr result" where
  "va_align_up va = and_then (PG_ROUND_UP (va_as_usize va)) (\<lambda>a. Ok (VirtAddr a))"

definition va_get_number :: "virt_addr \<Rightarrow> usize \<Rightarrow> usize result" where
  "va_get_number va page_size = checked_div (va_as_usize va) page_size"

definition va_add :: "virt_addr \<Rightarrow> usize \<Rightarrow> virt_addr result" where
  "va_add va n = and_then (checked_add (va_as_usize va) n) (\<lambda>a. Ok (VirtAddr a))"

definition va_add_addr :: "virt_addr \<Rightarrow> virt_addr \<Rightarrow> virt_addr result" where
  "va_add_addr va rhs = and_then (checked_add (va_as_usize va) (va_as_usize rhs)) (\<lambda>a. Ok (VirtAddr a))"

definition va_sub_usize :: "virt_addr \<Rightarrow> usize \<Rightarrow> usize result" where
  "va_sub_usize va rhs = checked_sub (va_as_usize va) rhs"

definition va_sub :: "virt_addr \<Rightarrow> virt_addr \<Rightarrow> usize result" where
  "va_sub va rhs = checked_sub (va_as_usize va) (va_as_usize rhs)"

subsection \<open>Frames\<close>

definition frame_from_phys_addr :: "phys_addr \<Rightarrow> frame result" where
  "frame_from_phys_addr pa = and_then (pa_get_number pa PAGE_SIZE) (\<lambda>n. Ok (Frame n))"

definition frame_get_base_phys_addr :: "frame \<Rightarrow> phys_addr result" where
  "frame_get_base_phys_addr f =
     and_then (checked_mul (frame_number f) PAGE_SIZE) (\<lambda>a. Ok (PhysAddr a))"

text \<open>\<open>impl From<PhysAddr> for Frame\<close>\<close>

definition frame_from :: "phys_addr \<Rightarrow> frame result" where
  "frame_from pa = and_then (pa_align_down pa) frame_from_phys_addr"

definition frame_zero :: "frame \<Rightarrow> pmem \<Rightarrow> pmem result" where
  "frame_zero f m =
     and_then (frame_get_base_phys_addr f) (\<lambda>pa.
       Ok (store_bytes (unat PAGE_SIZE) (\<lambda>_. 0) (pa_as_usize pa) m))"

text \<open>
  \<open>data.get(i).unwrap()\<close> and \<open>bytes.get_mut(i).unwrap()\<close> stay in range, as
  \<open>i < total = min(PAGE_SIZE, data.len())\<close>.
\<close>

definition frame_write :: "frame \<Rightarrow> u8 list \<Rightarrow> pmem \<Rightarrow> (nat \<times> pmem) result" where
  "frame_write f data m =
     (let total = min (unat PAGE_SIZE) (length data)
      in and_then (frame_get_base_phys_addr f) (\<lambda>pa.
         and_then (for_each [0..<total]
             (\<lambda>i m. if i < unat PAGE_SIZE
                    then and_then (unwrap (vec_get data i)) (\<lambda>b.
                           Ok (store_u8 m (pa_as_usize pa + of_nat i) b))
                    else Panic UnwrapNone) m) (\<lambda>m'.
           Ok (total, m'))))"

definition frame_step_one :: "frame \<Rightarrow> frame result" where
  "frame_step_one f = and_then (checked_add (frame_number f) 1) (\<lambda>n. Ok (Frame n))"

subsection \<open>Physical address with an offset\<close>

definition VA_OFFSET_WIDTH :: usize where "VA_OFFSET_WIDTH = 12"
definition VA_INDEX_WIDTH :: usize where "VA_INDEX_WIDTH = 9"

definition pa_with_offset :: "phys_addr \<Rightarrow> usize \<Rightarrow> phys_addr" where
  "pa_with_offset pa offset =
     (let offset_mask = push_bit (unat VA_OFFSET_WIDTH) 1 - 1
      in PhysAddr ((pa_as_usize pa AND NOT offset_mask) OR (offset AND offset_mask)))"

subsection \<open>Virtual pages\<close>

definition virt_frame_from_identical :: "frame \<Rightarrow> virt_frame" where
  "virt_frame_from_identical f = VirtFrame (frame_number f)"

definition virt_frame_from_virt_addr :: "virt_addr \<Rightarrow> virt_frame result" where
  "virt_frame_from_virt_addr va =
     and_then (va_align_down va) (\<lambda>b.
     and_then (checked_div (va_as_usize b) PAGE_SIZE) (\<lambda>vpn. Ok (VirtFrame vpn)))"

definition get_base_virt_addr :: "virt_frame \<Rightarrow> virt_addr result" where
  "get_base_virt_addr v =
     and_then (checked_mul (virt_frame_number v) PAGE_SIZE) (\<lambda>a. Ok (VirtAddr a))"

text \<open>\<open>impl From<VirtAddr> for VirtFrame\<close>\<close>

definition virt_frame_from :: "virt_addr \<Rightarrow> virt_frame result" where
  "virt_frame_from va =
     and_then (rust_assert ''VirtFrame::from<VirtAddr>: address not page aligned!''
                 (va_is_page_aligned va)) (\<lambda>_.
     and_then (va_get_number va PAGE_SIZE) (\<lambda>n. Ok (VirtFrame n)))"

definition virt_frame_step_one :: "virt_frame \<Rightarrow> virt_frame result" where
  "virt_frame_step_one v = and_then (checked_add (virt_frame_number v) 1) (\<lambda>n. Ok (VirtFrame n))"

definition va_from_identical :: "phys_addr \<Rightarrow> virt_addr" where
  "va_from_identical pa = VirtAddr (pa_as_usize pa)"

definition pte_index :: "virt_addr \<Rightarrow> usize \<Rightarrow> usize result" where
  "pte_index va level =
     (if level > 2 then Panic (ExplicitPanic ''VirtualAddress::index'')
      else and_then (virt_frame_from_virt_addr va) (\<lambda>vpn.
           and_then (checked_mul level VA_INDEX_WIDTH) (\<lambda>shift.
           and_then (checked_shr (virt_frame_number vpn) shift) (\<lambda>v.
             let index_mask = push_bit (unat VA_INDEX_WIDTH) 1 - 1 in Ok (v AND index_mask)))))"

definition va_offset :: "virt_addr \<Rightarrow> usize" where
  "va_offset va = va_as_usize va AND VA_OFFSET_WIDTH"

subsection \<open>Ranges of frames and of virtual pages\<close>

type_synonym frame_range = "frame simple_range"
type_synonym virt_frame_range = "virt_frame simple_range"

definition frame_range_n_pages :: "frame_range \<Rightarrow> usize result" where
  "frame_range_n_pages r = checked_sub (frame_number (range_end r)) (frame_number (range_begin r))"

definition virt_range_empty :: virt_frame_range where
  "virt_range_empty = simple_range_new (VirtFrame 0) (VirtFrame 0)"

definition virt_range_from_identical :: "frame_range \<Rightarrow> virt_frame_range" where
  "virt_range_from_identical r =
     simple_range_new (virt_frame_from_identical (range_begin r))
                      (virt_frame_from_identical (range_end r))"

definition virt_range_n_pages :: "virt_frame_range \<Rightarrow> usize result" where
  "virt_range_n_pages r =
     checked_sub (virt_frame_number (range_end r)) (virt_frame_number (range_begin r))"

text \<open>
  \<open>for v_frame in rng.into_iter() { body }\<close>: each round first advances the iterator, whose
  step panics once the page number overflows, so the loop terminates on every range.
\<close>

lemma virt_iter_next_measure:
  assumes "iter_next virt_frame_step_one it = Inr (Some x, it')"
  shows "2 ^ 64 - unat (virt_frame_number (iter_current it'))
         < 2 ^ 64 - unat (virt_frame_number (iter_current it))"
proof -
  from assms have "unat (virt_frame_number (iter_current it)) + 1 < 2 ^ 64"
    and "virt_frame_number (iter_current it') = virt_frame_number (iter_current it) + 1"
    by (auto simp: iter_next_def virt_frame_step_one_def and_then_eq_Ok checked_add_Ok
        split: if_splits)
  then show ?thesis by (simp add: unat_word_ariths)
qed

function for_virt_range ::
  "(virt_frame \<Rightarrow> 's \<Rightarrow> 's result) \<Rightarrow> virt_frame simple_range_iterator \<Rightarrow> 's \<Rightarrow> 's result"
  where
  "for_virt_range body it s =
     and_then (iter_next virt_frame_step_one it) (\<lambda>(x, it').
       case x of None \<Rightarrow> Ok s
       | Some v \<Rightarrow> and_then (body v s) (\<lambda>s'. for_virt_range body it' s'))"
  by pat_completeness auto
termination
  by (relation "measure (\<lambda>(body, it, s). 2 ^ 64 - unat (virt_frame_number (iter_current it)))")
     (auto dest: virt_iter_next_measure)

declare for_virt_range.simps [simp del]

section \<open>Closed forms\<close>

lemma usize_div_page: "(a :: usize) div PAGE_SIZE = drop_bit 12 a"
  by (simp add: PAGE_SIZE_def drop_bit_eq_div)

lemma drop_bit_page_of: "drop_bit 12 (page_of a) = drop_bit 12 a"
  by (rule bit_word_eqI) (auto simp: page_of_def bit_simps dest: bit_imp_le_length)

lemma push_bit_drop_bit_page: "push_bit 12 (drop_bit 12 (a :: usize)) = page_of a"
  by (rule bit_word_eqI) (auto simp: page_of_def bit_simps)

lemma page_aligned_page_of: "page_aligned a \<Longrightarrow> page_of a = a"
  by (simp add: page_of_def page_aligned_round_id)

lemma unat_drop_bit_page: "unat (drop_bit 12 (a :: usize)) = unat a div 4096"
  by (simp add: drop_bit_eq_div unat_div)

lemma page_aligned_iff_mod: "page_aligned a \<longleftrightarrow> a mod PAGE_SIZE = 0"
proof -
  have "unat (a mod PAGE_SIZE) = unat a mod 4096"
    by (simp add: unat_mod)
  then show ?thesis
    by (metis page_aligned_def dvd_eq_mod_eq_0 unat_eq_zero)
qed

lemma pa_is_page_aligned_iff [simp]: "pa_is_page_aligned (PhysAddr a) \<longleftrightarrow> page_aligned a"
  by (simp add: pa_is_page_aligned_def page_aligned_iff_mod)

lemma va_is_page_aligned_iff [simp]: "va_is_page_aligned (VirtAddr a) \<longleftrightarrow> page_aligned a"
  by (simp add: va_is_page_aligned_def page_aligned_iff_mod)

lemma pa_align_down_Ok [simp]: "pa_align_down (PhysAddr a) = Inr (PhysAddr (page_of a))"
  by (simp add: pa_align_down_def page_of_def)

lemma va_align_down_Ok [simp]: "va_align_down (VirtAddr a) = Inr (VirtAddr (page_of a))"
  by (simp add: va_align_down_def page_of_def)

lemma frame_from_phys_addr_Ok [simp]:
  "frame_from_phys_addr (PhysAddr a) = Inr (Frame (drop_bit 12 a))"
  by (simp add: frame_from_phys_addr_def pa_get_number_def checked_div_def usize_div_page)

lemma frame_from_Ok [simp]: "frame_from (PhysAddr a) = Inr (Frame (drop_bit 12 a))"
  by (simp add: frame_from_def drop_bit_page_of)

lemma checked_mul_page:
  "checked_mul (drop_bit 12 a) PAGE_SIZE = Inr (page_of a)"
proof -
  have "unat (drop_bit 12 a) * unat PAGE_SIZE < 2 ^ LENGTH(64)"
    using unat_usize_less [of a] by (simp add: unat_drop_bit_page)
  moreover have "drop_bit 12 a * PAGE_SIZE = page_of a"
    by (simp add: PAGE_SIZE_def push_bit_eq_mult flip: push_bit_drop_bit_page)
  ultimately show ?thesis
    by (simp only: checked_mulI)
qed

lemma frame_base_Ok [simp]:
  "frame_get_base_phys_addr (Frame (drop_bit 12 a)) = Inr (PhysAddr (page_of a))"
  by (simp add: frame_get_base_phys_addr_def checked_mul_page)

lemma virt_frame_from_virt_addr_Ok [simp]:
  "virt_frame_from_virt_addr (VirtAddr a) = Inr (VirtFrame (drop_bit 12 a))"
  by (simp add: virt_frame_from_virt_addr_def checked_div_def usize_div_page drop_bit_page_of)

lemma virt_frame_from_Ok [simp]:
  "page_aligned a \<Longrightarrow> virt_frame_from (VirtAddr a) = Inr (VirtFrame (drop_bit 12 a))"
  by (simp add: virt_frame_from_def va_get_number_def checked_div_def usize_div_page)

lemma get_base_virt_addr_Ok [simp]:
  "get_base_virt_addr (VirtFrame (drop_bit 12 a)) = Inr (VirtAddr (page_of a))"
  by (simp add: get_base_virt_addr_def checked_mul_page)

definition vpn_index :: "usize \<Rightarrow> nat \<Rightarrow> usize" where
  "vpn_index a level = drop_bit (12 + 9 * level) a AND mask 9"

lemma level_cases:
  fixes level :: usize
  assumes "level \<le> 2"
  obtains "level = 0" | "level = 1" | "level = 2"
proof -
  have "unat level = 0 \<or> unat level = 1 \<or> unat level = 2"
    using assms unfolding word_le_nat_alt by auto
  then have "level = 0 \<or> level = 1 \<or> level = 2"
    unfolding word_unat_eq_iff by simp
  with that show ?thesis by blast
qed

lemma pte_index_Ok:
  assumes "level \<le> 2"
  shows "pte_index (VirtAddr a) level = Inr (vpn_index a (unat level))"
proof -
  have "push_bit (unat VA_INDEX_WIDTH) 1 - 1 = (mask 9 :: usize)"
    by (simp add: VA_INDEX_WIDTH_def mask_eq_decr_exp)
  with assms show ?thesis
    by (cases rule: level_cases)
       (simp_all add: pte_index_def vpn_index_def VA_INDEX_WIDTH_def)
qed

lemma unat_vpn_index: "unat (vpn_index a l) < 512"
  by (simp add: vpn_index_def unat_and_mask)

lemma unat_vpn_index_eq: "unat (vpn_index a l) = unat a div 2 ^ (12 + 9 * l) mod 512"
  by (simp only: vpn_index_def unat_and_mask unat_drop_bit_eq) (simp add: drop_bit_eq_div)

lemma vpn_split:
  "(n :: nat) mod 2 ^ 39 div 4096 =
     (n div 2 ^ 12 mod 512) + 512 * ((n div 2 ^ 21 mod 512) + 512 * (n div 2 ^ 30 mod 512))"
proof -
  have "n mod 2 ^ 39 = 4096 * (n div 4096 mod (512 * (512 * 512))) + n mod 4096"
    using mod_mult2_eq [of n 4096 "512 * (512 * 512)"] by simp
  then have "n mod 2 ^ 39 div 4096 = n div 4096 mod (512 * (512 * 512))"
    by simp
  also have "\<dots> = (n div 4096) mod 512 + 512 * ((n div 4096 div 512) mod 512 +
      512 * (n div 4096 div 512 div 512 mod 512))"
    by (simp only: mod_mult2_eq) simp
  finally show ?thesis
    by (simp add: div_mult2_eq [symmetric])
qed

lemma pa_with_offset_eq:
  "pa_with_offset (PhysAddr a) off = PhysAddr (page_of a OR (off AND mask 12))"
  by (simp add: pa_with_offset_def VA_OFFSET_WIDTH_def page_of_def mask_eq_decr_exp)

lemma frame_zero_Ok:
  "frame_zero (Frame (drop_bit 12 a)) m = Inr (store_bytes 4096 (\<lambda>_. 0) (page_of a) m)"
  by (simp add: frame_zero_def)

lemma for_each_store_u8:
  assumes "n \<le> length data" and "n \<le> 4096"
  shows "for_each [0..<n]
     (\<lambda>i m. if i < 4096
            then and_then (unwrap (vec_get data i)) (\<lambda>b. Inr (store_u8 m (a + of_nat i) b))
            else Inl UnwrapNone) m
   = Inr (store_bytes n (\<lambda>i. data ! i) a m)"
  using assms
proof (induction n)
  case 0
  then show ?case by (simp add: store_bytes_def)
next
  case (Suc n)
  then show ?case
    by (simp add: for_each_append vec_get_def) (simp add: store_bytes_def)
qed

lemma frame_write_Ok:
  "frame_write (Frame (drop_bit 12 a)) data m =
     Inr (min 4096 (length data),
          store_bytes (min 4096 (length data)) (\<lambda>i. data ! i) (page_of a) m)"
  by (simp add: frame_write_def Let_def for_each_store_u8)

section \<open>The loop over a range\<close>

definition virt_frames_upto :: "nat \<Rightarrow> nat \<Rightarrow> virt_frame list" where
  "virt_frames_upto b e = map (\<lambda>n. VirtFrame (of_nat n)) [b..<e]"

lemma for_virt_range_eq:
  assumes "unat b \<le> unat e"
  shows "for_virt_range body \<lparr>iter_current = VirtFrame b, iter_end = VirtFrame e\<rparr> s
       = for_each (virt_frames_upto (unat b) (unat e)) body s"
  using assms
proof (induction "unat e - unat b" arbitrary: b s)
  case 0
  then have "b = e" by (simp add: word_unat_eq_iff)
  then show ?case
    by (simp add: for_virt_range.simps iter_next_def virt_frames_upto_def)
next
  case (Suc n)
  then have lt: "unat b < unat e" by simp
  have "unat e < 2 ^ 64"
    by (rule unat_usize_less)
  with lt have b1: "unat b + 1 < 2 ^ 64" by linarith
  then have u: "unat (b + 1) = Suc (unat b)"
    by (simp add: unat_word_ariths)
  have neq: "b \<noteq> e" using lt by auto
  have cons: "virt_frames_upto (unat b) (unat e) = VirtFrame b # virt_frames_upto (unat (b + 1)) (unat e)"
    using lt u by (simp add: virt_frames_upto_def upt_conv_Cons)
  have IH: "for_virt_range body \<lparr>iter_current = VirtFrame (b + 1), iter_end = VirtFrame e\<rparr>
      = for_each (virt_frames_upto (unat (b + 1)) (unat e)) body"
    using Suc.hyps(2) lt u by (intro ext Suc.hyps(1)) auto
  show ?case
    using neq b1
    by (subst for_virt_range.simps)
       (simp add: iter_next_def virt_frame_step_one_def cons IH)
qed

lemma for_virt_range_backwards:
  assumes "unat e < unat b"
  shows "\<exists>p. for_virt_range body \<lparr>iter_current = VirtFrame b, iter_end = VirtFrame e\<rparr> s = Inl p"
  using assms
proof (induction "2 ^ 64 - unat b" arbitrary: b s rule: less_induct)
  case less
  have neq: "b \<noteq> e" using less.prems by auto
  show ?case
  proof (cases "unat b + 1 < 2 ^ 64")
    case False
    then show ?thesis
      using neq
      by (subst for_virt_range.simps)
         (simp add: iter_next_def virt_frame_step_one_def checked_add_def)
  next
    case True
    then have u: "unat (b + 1) = Suc (unat b)"
      by (simp add: unat_word_ariths)
    have "\<exists>p. for_virt_range body \<lparr>iter_current = VirtFrame (b + 1), iter_end = VirtFrame e\<rparr> s' = Inl p"
      for s'
      using less.prems True u by (intro less.hyps) auto
    then show ?thesis
      using neq True
      by (subst for_virt_range.simps)
         (cases "body (VirtFrame b) s"; simp add: iter_next_def virt_frame_step_one_def)
  qed
qed

section \<open>Properties\<close>

text \<open>
  \<open>VirtAddr::pte_index\<close> returns the three 9-bit digits of the page number, most significant at
  level 2: with the offset in the page they give back the low 39 bits of the address.  A level
  above 2 panics.
\<close>

lemma pte_index_digits:
  "\<exists>i2 i1 i0. pte_index (VirtAddr a) 2 = Inr i2 \<and> pte_index (VirtAddr a) 1 = Inr i1 \<and>
     pte_index (VirtAddr a) 0 = Inr i0 \<and> unat i2 < 512 \<and> unat i1 < 512 \<and> unat i0 < 512 \<and>
     unat a mod 2 ^ 39 = (unat i0 + 512 * (unat i1 + 512 * unat i2)) * 4096 + unat a mod 4096 \<and>
     pte_index (VirtAddr a) 3 = Inl (ExplicitPanic ''VirtualAddress::index'')"
proof -
  have "unat a mod 2 ^ 39 = unat a mod 2 ^ 39 div 4096 * 4096 + unat a mod 2 ^ 39 mod 4096"
    by (rule div_mult_mod_eq [symmetric])
  also have "unat a mod 2 ^ 39 mod 4096 = unat a mod 4096"
    by (rule mod_mod_cancel) (rule dvdI [of _ _ "2 ^ 27"], simp)
  finally have "unat a mod 2 ^ 39 = (unat (vpn_index a 0) + 512 * (unat (vpn_index a 1) +
      512 * unat (vpn_index a 2))) * 4096 + unat a mod 4096"
    unfolding vpn_split by (simp only: unat_vpn_index_eq) simp
  moreover have "pte_index (VirtAddr a) l = Inr (vpn_index a (unat l))" if "l \<le> 2" for l
    using that by (rule pte_index_Ok)
  from this [of 2] this [of 1] this [of 0]
  have "pte_index (VirtAddr a) 2 = Inr (vpn_index a 2)" "pte_index (VirtAddr a) 1 = Inr (vpn_index a 1)"
    "pte_index (VirtAddr a) 0 = Inr (vpn_index a 0)"
    by simp_all
  moreover have "pte_index (VirtAddr a) 3 = Inl (ExplicitPanic ''VirtualAddress::index'')"
    by (simp add: pte_index_def)
  ultimately show ?thesis
    using unat_vpn_index by blast
qed

text \<open>
  The loop over a range of virtual pages always ends: it runs its body on the pages from the
  begin up to, but not including, the end, in order, and a range whose end lies before its begin
  never returns a value but panics.
\<close>

lemma for_virt_range_total:
  "(b \<le> e \<longrightarrow> for_virt_range body (into_iter (simple_range_new (VirtFrame b) (VirtFrame e))) s =
      for_each (map (\<lambda>n. VirtFrame (of_nat n)) [unat b..<unat e]) body s) \<and>
   (e < b \<longrightarrow> (\<exists>p. for_virt_range body (into_iter (simple_range_new (VirtFrame b) (VirtFrame e))) s = Inl p))"
  using for_virt_range_eq [of b e body s] for_virt_range_backwards [of e b body s]
  by (auto simp: into_iter_def simple_range_new_def virt_frames_upto_def word_le_nat_alt word_less_nat_alt)

text \<open>
  \<open>VirtAddr::offset\<close> masks the address with the width of the offset, 12, and not with a mask of 12
  bits: it returns bits 2 and 3 of the address only.  An address of a page at offset 8 keeps its
  offset, one at offset 1 loses it.
\<close>

lemma va_offset_keeps_two_bits:
  "va_offset (VirtAddr a) = a AND 12 \<and> va_offset (VirtAddr 0x1008) = 8 \<and>
   va_offset (VirtAddr 0x1001) = 0 \<and> (0x1001 :: usize) mod 4096 = 1"
  by (simp add: va_offset_def VA_OFFSET_WIDTH_def)

text \<open>
  \<open>Frame::write\<close> copies the data to the start of the frame and stops at the end of the frame or of
  the data: the byte at offset \<open>k\<close> is the \<open>k\<close>-th of the data where there is one, every other byte of
  memory keeps its value, and the number of bytes copied is returned.
\<close>

lemma frame_write_contents:
  "\<exists>m'. frame_write (Frame (drop_bit 12 a)) data m = Inr (min 4096 (length data), m') \<and>
     (\<forall>x. m' x = (if unat (x - page_of a) < min 4096 (length data)
                  then data ! unat (x - page_of a) else m x))"
  by (simp add: frame_write_Ok store_bytes_eq)

end
