(* ===== verification/Frame_Allocator.thy ===== *)
theory Frame_Allocator
  imports Memory
begin

text \<open>
  The frame allocator of \<^verbatim>\<open>kernel/src/allocator/frame_allocator.rs\<close>: a vector with one entry
  per page of the heap, zero for a free page and the size of its allocation (in pages) for an
  allocated one, searched first-fit.

  The theory characterises \<open>allocate\<close> for every size, shows that the one-page interface the
  kernel uses (\<open>allocate_one_frame\<close>, \<open>deallocate_one_frame\<close>) implements a pool of frames, and
  states that pool as the locale \<open>frame_pool\<close>, whose laws are all that the page tables and
  the guards rely on.
\<close>

section \<open>Model\<close>

record frame_allocator =
  page_allocated :: "usize list"
  base_addr :: usize

definition frame_allocator_new :: "usize \<Rightarrow> usize \<Rightarrow> frame_allocator" where
  "frame_allocator_new base n_pages =
     \<lparr>page_allocated = replicate (unat n_pages) 0, base_addr = base\<rparr>"

text \<open>
  The inner loop \<open>for j in 0..npages\<close> that looks for a page in use.  Its condition is
  \<open>!self.page_allocated[i + j] == 0\<close>, where \<open>!\<close> is the bitwise complement of a \<open>usize\<close>.
  Indices of a \<open>Vec\<close> are far below \<open>2 ^ 64\<close>, so they are natural numbers and \<open>i + j\<close>
  cannot overflow.
\<close>

fun scan_run :: "usize list \<Rightarrow> nat \<Rightarrow> nat list \<Rightarrow> bool result" where
  "scan_run pa i [] = Ok True"
| "scan_run pa i (j # js) =
     and_then (vec_index pa (i + j)) (\<lambda>e. if NOT e = 0 then Ok False else scan_run pa i js)"

definition mark_run :: "usize list \<Rightarrow> nat \<Rightarrow> usize \<Rightarrow> usize list result" where
  "mark_run pa i npages =
     for_each [0..<unat npages] (\<lambda>j pa. vec_store pa (i + j) npages) pa"

fun allocate_loop ::
  "frame_allocator \<Rightarrow> usize \<Rightarrow> usize \<Rightarrow> nat list \<Rightarrow> (usize \<times> frame_allocator) result" where
  "allocate_loop fa sz npages [] =
     Panic (ExplicitPanic ''FrameAllocator::allocate: no available page!'')"
| "allocate_loop fa sz npages (i # idxs) =
     and_then (vec_index (page_allocated fa) i) (\<lambda>e.
       if e = 0 then
         and_then (scan_run (page_allocated fa) i [0..<unat npages]) (\<lambda>found.
           if found then
             and_then (mark_run (page_allocated fa) i npages) (\<lambda>pa'.
             and_then (checked_mul (of_nat i) sz) (\<lambda>off.
             and_then (checked_add (base_addr fa) off) (\<lambda>ptr.
               Ok (ptr, fa\<lparr>page_allocated := pa'\<rparr>))))
           else allocate_loop fa sz npages idxs)
       else allocate_loop fa sz npages idxs)"

definition allocate :: "frame_allocator \<Rightarrow> usize \<Rightarrow> (usize \<times> frame_allocator) result" where
  "allocate fa sz =
     and_then (PG_ROUND_UP sz) (\<lambda>s.
     and_then (checked_div s PAGE_SIZE) (\<lambda>npages.
       allocate_loop fa sz npages [0..<length (page_allocated fa)]))"

definition deallocate :: "frame_allocator \<Rightarrow> usize \<Rightarrow> frame_allocator result" where
  "deallocate fa addr =
     and_then (checked_sub addr (base_addr fa)) (\<lambda>d.
     and_then (checked_div d PAGE_SIZE) (\<lambda>begin_idx.
     and_then (vec_index (page_allocated fa) (unat begin_idx)) (\<lambda>npages.
     and_then (checked_add begin_idx npages) (\<lambda>end_idx.
     and_then (for_each [unat begin_idx..<unat end_idx]
         (\<lambda>id pa. and_then (vec_index pa id) (\<lambda>e.
                  and_then (rust_assert '''' (e = npages)) (\<lambda>_. vec_store pa id 0)))
         (page_allocated fa)) (\<lambda>pa'.
       Ok (fa\<lparr>page_allocated := pa'\<rparr>))))))"

text \<open>The initial value of the static \<open>FRAME_ALLOCATOR\<close>.\<close>

definition FRAME_ALLOCATOR_init :: "linker_symbols \<Rightarrow> frame_allocator" where
  "FRAME_ALLOCATOR_init L =
     (let n_pages = ld_heap_size L div PAGE_SIZE in frame_allocator_new (ld_heap_start L) n_pages)"

definition allocate_one_frame :: "frame_allocator \<Rightarrow> (phys_addr \<times> frame_allocator) result" where
  "allocate_one_frame fa = and_then (allocate fa PAGE_SIZE) (\<lambda>(pa, fa'). Ok (PhysAddr pa, fa'))"

definition deallocate_one_frame :: "frame_allocator \<Rightarrow> phys_addr \<Rightarrow> frame_allocator result" where
  "deallocate_one_frame fa pa = deallocate fa (pa_as_usize pa)"

section \<open>The search for a free run\<close>

definition first_free :: "usize list \<Rightarrow> nat option" where
  "first_free pa = find (\<lambda>i. pa ! i = 0) [0..<length pa]"

lemma first_free_SomeD:
  assumes "first_free pa = Some i"
  shows "i < length pa" and "pa ! i = 0" and "\<And>j. j < i \<Longrightarrow> pa ! j \<noteq> 0"
  using assms by (auto simp: first_free_def find_Some_iff)

lemma first_free_None: "first_free pa = None \<longleftrightarrow> (\<forall>i < length pa. pa ! i \<noteq> 0)"
  by (auto simp: first_free_def find_None_iff)

lemma scan_run_in:
  assumes "\<And>j. j \<in> set js \<Longrightarrow> i + j < length pa" and "- 1 \<notin> set pa"
  shows "scan_run pa i js = Inr True"
  using assms
proof (induction js)
  case Nil
  then show ?case by simp
next
  case (Cons j js)
  then have "pa ! (i + j) \<in> set pa" by simp
  then have "NOT (pa ! (i + j)) \<noteq> 0"
    using Cons.prems(2) by (metis bit.compl_zero bit.double_compl)
  with Cons show ?case by simp
qed

lemma scan_run_out:
  assumes "i < length pa" and "length pa < i + n" and "- 1 \<notin> set pa"
  shows "scan_run pa i [0..<n] = Inl IndexOutOfBounds"
proof -
  define k where "k = length pa - i"
  have split: "[0..<n] = [0..<k] @ k # [Suc k..<n]"
    using assms by (metis k_def less_diff_conv2 add.commute less_imp_le_nat
        le_add_diff_inverse upt_add_eq_append upt_conv_Cons zero_le add_0 linorder_not_less nat_less_le)
  have "scan_run pa i (js @ k # ks) = Inl IndexOutOfBounds"
    if "\<And>j. j \<in> set js \<Longrightarrow> j < k" for js ks
    using that
  proof (induction js)
    case Nil
    then show ?case using assms(1) by (simp add: k_def)
  next
    case (Cons j js)
    from Cons.prems [of j] have j: "i + j < length pa" by (simp add: k_def)
    then have "NOT (pa ! (i + j)) \<noteq> 0"
      using assms(3) nth_mem [OF j] by (metis bit.compl_zero bit.double_compl)
    with j Cons show ?case by simp
  qed
  from this [of "[0..<k]"] show ?thesis by (simp add: split)
qed

text \<open>Marking a run writes the size of the allocation into each of its entries.\<close>

definition marked :: "usize list \<Rightarrow> nat \<Rightarrow> nat \<Rightarrow> usize \<Rightarrow> usize list" where
  "marked pa i n v = map (\<lambda>k. if i \<le> k \<and> k < i + n then v else pa ! k) [0..<length pa]"

lemma length_marked [simp]: "length (marked pa i n v) = length pa"
  by (simp add: marked_def)

lemma marked_Suc:
  "i + n < length pa \<Longrightarrow> (marked pa i n v)[i + n := v] = marked pa i (Suc n) v"
  by (rule nth_equalityI) (auto simp: marked_def nth_list_update)

lemma mark_run_in:
  assumes "i + unat n \<le> length pa"
  shows "mark_run pa i n = Inr (marked pa i (unat n) n)"
proof -
  have "for_each [0..<k] (\<lambda>j pa. vec_store pa (i + j) n) pa = Inr (marked pa i k n)"
    if "i + k \<le> length pa" for k
    using that
  proof (induction k)
    case 0
    show ?case by (auto simp: marked_def intro!: nth_equalityI)
  next
    case (Suc k)
    then show ?case
      by (simp add: for_each_append marked_Suc)
  qed
  with assms show ?thesis by (simp add: mark_run_def)
qed

lemma marked_one: "marked pa i (Suc 0) v = pa[i := v]"
  by (rule nth_equalityI) (auto simp: marked_def nth_list_update)

lemma allocate_loop_skip:
  assumes "\<And>i. i \<in> set is1 \<Longrightarrow> i < length (page_allocated fa) \<and> page_allocated fa ! i \<noteq> 0"
  shows "allocate_loop fa sz npages (is1 @ is2) = allocate_loop fa sz npages is2"
  using assms by (induction is1) auto

text \<open>
  What \<open>allocate\<close> does for every size, when no entry is \<open>usize::MAX\<close>: it takes the first free
  page, whatever the pages after it hold, and panics if the run would pass the end of the heap.
\<close>

lemma allocate_char:
  assumes sz: "unat sz + 4095 < 2 ^ 64" and nomax: "- 1 \<notin> set (page_allocated fa)"
    and np: "npages = drop_bit 12 (sz + mask 12)"
  shows "allocate fa sz =
    (case first_free (page_allocated fa) of
       None \<Rightarrow> Inl (ExplicitPanic ''FrameAllocator::allocate: no available page!'')
     | Some i \<Rightarrow>
         if i + unat npages \<le> length (page_allocated fa) then
           and_then (checked_mul (of_nat i) sz) (\<lambda>off.
           and_then (checked_add (base_addr fa) off) (\<lambda>ptr.
             Inr (ptr, fa\<lparr>page_allocated :=
                             marked (page_allocated fa) i (unat npages) npages\<rparr>)))
         else Inl IndexOutOfBounds)"
proof -
  let ?pa = "page_allocated fa"
  have "((sz + mask 12) AND NOT (mask 12)) div PAGE_SIZE = npages"
    by (simp add: np usize_div_page drop_bit_page_of flip: page_of_def)
  then have eq: "allocate fa sz = allocate_loop fa sz npages [0..<length ?pa]"
    using sz by (simp add: allocate_def checked_div_def)
  show ?thesis
  proof (cases "first_free ?pa")
    case None
    then have "\<And>i. i \<in> set [0..<length ?pa] \<Longrightarrow> i < length ?pa \<and> ?pa ! i \<noteq> 0"
      by (simp add: first_free_None)
    then have "allocate_loop fa sz npages ([0..<length ?pa] @ []) = allocate_loop fa sz npages []"
      by (rule allocate_loop_skip)
    then show ?thesis by (simp add: eq None)
  next
    case (Some i)
    note i = first_free_SomeD [OF Some]
    have "[0..<length ?pa] = [0..<i] @ i # [Suc i..<length ?pa]"
      using i(1) by (metis less_imp_le_nat upt_add_eq_append upt_conv_Cons zero_le
          le_add_diff_inverse add_0)
    moreover have "allocate_loop fa sz npages ([0..<i] @ i # js) = allocate_loop fa sz npages (i # js)"
      for js
      using i by (intro allocate_loop_skip) auto
    ultimately have eq': "allocate fa sz = allocate_loop fa sz npages (i # [Suc i..<length ?pa])"
      by (simp add: eq)
    show ?thesis
    proof (cases "i + unat npages \<le> length ?pa")
      case True
      then have "scan_run ?pa i [0..<unat npages] = Inr True"
        by (intro scan_run_in nomax) auto
      with True i show ?thesis by (simp add: eq' Some mark_run_in)
    next
      case False
      then have "scan_run ?pa i [0..<unat npages] = Inl IndexOutOfBounds"
        by (intro scan_run_out nomax i(1)) auto
      with False i show ?thesis by (simp add: eq' Some)
    qed
  qed
qed

section \<open>One page at a time\<close>

text \<open>
  The kernel allocates single pages only.  Then every entry is 0 or 1; the heap starts on a
  page boundary and ends inside the address space.
\<close>

definition fa_wf :: "frame_allocator \<Rightarrow> bool" where
  "fa_wf fa \<longleftrightarrow> set (page_allocated fa) \<subseteq> {0, 1} \<and> page_aligned (base_addr fa) \<and>
     unat (base_addr fa) + 4096 * length (page_allocated fa) \<le> 2 ^ 64"

text \<open>The address of page \<open>i\<close> of the heap.\<close>

definition page_addr :: "frame_allocator \<Rightarrow> nat \<Rightarrow> usize" where
  "page_addr fa i = base_addr fa + of_nat (4096 * i)"

definition free_pages :: "frame_allocator \<Rightarrow> usize set" where
  "free_pages fa = {page_addr fa i | i. i < length (page_allocated fa) \<and> page_allocated fa ! i = 0}"

definition used_pages :: "frame_allocator \<Rightarrow> usize set" where
  "used_pages fa = {page_addr fa i | i. i < length (page_allocated fa) \<and> page_allocated fa ! i \<noteq> 0}"

lemma fa_wf_entry: "fa_wf fa \<Longrightarrow> i < length (page_allocated fa) \<Longrightarrow>
    page_allocated fa ! i = 0 \<or> page_allocated fa ! i = 1"
  using nth_mem by (fastforce simp: fa_wf_def)

lemma unat_page_addr:
  assumes "fa_wf fa" and "i < length (page_allocated fa)"
  shows "unat (page_addr fa i) = unat (base_addr fa) + 4096 * i"
proof -
  have lt: "unat (base_addr fa) + 4096 * i < 2 ^ 64"
    using assms by (auto simp: fa_wf_def)
  then have "unat (of_nat (4096 * i) :: usize) = 4096 * i"
    by (intro unat_of_nat_small) linarith
  with lt show ?thesis
    by (simp add: page_addr_def unat_word_ariths)
qed

lemma page_addr_aligned:
  assumes "fa_wf fa" and "i < length (page_allocated fa)"
  shows "page_aligned (page_addr fa i)"
  using assms unat_page_addr [OF assms] by (auto simp: page_aligned_def fa_wf_def)

lemma page_addr_inj:
  assumes "fa_wf fa" and "i < length (page_allocated fa)" and "j < length (page_allocated fa)"
    and "page_addr fa i = page_addr fa j"
  shows "i = j"
proof -
  have "unat (base_addr fa) + 4096 * i = unat (base_addr fa) + 4096 * j"
    unfolding unat_page_addr [OF assms(1,2), symmetric] unat_page_addr [OF assms(1,3), symmetric]
    by (simp only: assms(4))
  then show ?thesis by simp
qed

lemma page_addr_update [simp]: "page_addr (fa\<lparr>page_allocated := xs\<rparr>) i = page_addr fa i"
  by (simp add: page_addr_def)

lemma fa_wf_update:
  assumes "fa_wf fa" and "v = 0 \<or> v = 1"
  shows "fa_wf (fa\<lparr>page_allocated := (page_allocated fa)[i := v]\<rparr>)"
  using assms set_update_subset_insert [of "page_allocated fa" i v] by (auto simp: fa_wf_def)

lemma free_used_disjoint: "fa_wf fa \<Longrightarrow> free_pages fa \<inter> used_pages fa = {}"
  by (auto simp: free_pages_def used_pages_def dest: page_addr_inj)

lemma finite_free_pages: "finite (free_pages fa)"
proof -
  have "free_pages fa \<subseteq> page_addr fa ` {..<length (page_allocated fa)}"
    by (auto simp: free_pages_def)
  then show ?thesis by (rule finite_subset) simp
qed

lemma pages_aligned: "fa_wf fa \<Longrightarrow> a \<in> free_pages fa \<union> used_pages fa \<Longrightarrow> page_aligned a"
  by (auto simp: free_pages_def used_pages_def page_addr_aligned)

text \<open>Setting an entry moves its page between the two sets.\<close>

lemma free_pages_take:
  assumes "fa_wf fa" and "i < length (page_allocated fa)"
  shows "free_pages (fa\<lparr>page_allocated := (page_allocated fa)[i := 1]\<rparr>)
       = free_pages fa - {page_addr fa i}"
    and "used_pages (fa\<lparr>page_allocated := (page_allocated fa)[i := 1]\<rparr>)
       = insert (page_addr fa i) (used_pages fa)"
  using assms page_addr_inj [OF assms(1)]
  by (fastforce simp: free_pages_def used_pages_def nth_list_update split: if_splits)+

lemma free_pages_give:
  assumes "fa_wf fa" and "i < length (page_allocated fa)"
  shows "free_pages (fa\<lparr>page_allocated := (page_allocated fa)[i := 0]\<rparr>)
       = insert (page_addr fa i) (free_pages fa)"
    and "used_pages (fa\<lparr>page_allocated := (page_allocated fa)[i := 0]\<rparr>)
       = used_pages fa - {page_addr fa i}"
  using assms page_addr_inj [OF assms(1)]
  by (fastforce simp: free_pages_def used_pages_def nth_list_update split: if_splits)+

lemma allocate_one_frame_char:
  assumes wf: "fa_wf fa"
  shows "allocate_one_frame fa =
    (case first_free (page_allocated fa) of
       None \<Rightarrow> Inl (ExplicitPanic ''FrameAllocator::allocate: no available page!'')
     | Some i \<Rightarrow> Inr (PhysAddr (page_addr fa i),
                       fa\<lparr>page_allocated := (page_allocated fa)[i := 1]\<rparr>))"
proof -
  have nomax: "- 1 \<notin> set (page_allocated fa)"
    using wf by (auto simp: fa_wf_def)
  have np: "(1 :: usize) = drop_bit 12 (PAGE_SIZE + mask 12)"
    by (simp add: PAGE_SIZE_def mask_eq_decr_exp drop_bit_eq_div)
  have off: "and_then (checked_mul (of_nat i) PAGE_SIZE) (\<lambda>off.
      and_then (checked_add (base_addr fa) off) f) = f (page_addr fa i)"
    if i: "i < length (page_allocated fa)" for i and f :: "usize \<Rightarrow> (usize \<times> frame_allocator) result"
  proof -
    have lt: "unat (base_addr fa) + 4096 * i < 2 ^ 64"
      using wf i by (auto simp: fa_wf_def)
    then have u: "unat (of_nat i :: usize) = i"
      by (intro unat_of_nat_small) linarith
    have "checked_mul (of_nat i) PAGE_SIZE = Inr (of_nat (4096 * i))"
      using lt u by (subst checked_mulI) (simp_all add: PAGE_SIZE_def mult.commute)
    moreover have "checked_add (base_addr fa) (of_nat (4096 * i)) = Inr (page_addr fa i)"
      unfolding page_addr_def
      using lt unat_of_nat_small [of "4096 * i"] by (intro checked_addI) simp
    ultimately show ?thesis by simp
  qed
  show ?thesis
    unfolding allocate_one_frame_def
    by (subst allocate_char [OF _ nomax np])
       (auto simp: off marked_one split: option.split dest: first_free_SomeD)
qed

lemma deallocate_one_frame_char:
  assumes wf: "fa_wf fa" and i: "i < length (page_allocated fa)"
  shows "deallocate_one_frame fa (PhysAddr (page_addr fa i)) =
           Inr (fa\<lparr>page_allocated := (page_allocated fa)[i := 0]\<rparr>)"
proof -
  have u: "unat (page_addr fa i) = unat (base_addr fa) + 4096 * i"
    by (rule unat_page_addr [OF assms])
  have le: "base_addr fa \<le> page_addr fa i"
    using u by (simp add: word_le_nat_alt)
  have idx: "unat (drop_bit 12 (page_addr fa i - base_addr fa)) = i"
    using u le by (simp add: unat_drop_bit_page unat_sub)
  have lt: "unat (base_addr fa) + 4096 * Suc i \<le> 2 ^ 64"
    using wf i by (auto simp: fa_wf_def)
  show ?thesis
  proof (cases "page_allocated fa ! i = 0")
    case True
    then show ?thesis
      using idx le i lt
      by (simp add: deallocate_one_frame_def deallocate_def checked_div_def usize_div_page
          list_update_eq_self)
  next
    case False
    then have e: "page_allocated fa ! i = 1"
      using fa_wf_entry [OF assms] by simp
    have "unat (drop_bit 12 (page_addr fa i - base_addr fa) + 1) = Suc i"
      using idx lt by (simp add: unat_word_ariths)
    then show ?thesis
      using idx le i lt e
      by (simp add: deallocate_one_frame_def deallocate_def checked_div_def usize_div_page)
  qed
qed

section \<open>The contract of a pool of frames\<close>

text \<open>
  A pool hands out a frame it has free and takes back a frame that is in use.  \<open>same\<close> relates
  two states of one pool; such states are equal when the same frames are in use.
\<close>

locale frame_pool =
  fixes alloc :: "'s \<Rightarrow> ('f \<times> 's) result"
    and dealloc :: "'s \<Rightarrow> 'f \<Rightarrow> 's result"
    and invar :: "'s \<Rightarrow> bool"
    and same :: "'s \<Rightarrow> 's \<Rightarrow> bool"
    and free :: "'s \<Rightarrow> 'f set"
    and used :: "'s \<Rightarrow> 'f set"
  assumes disjoint: "invar s \<Longrightarrow> free s \<inter> used s = {}"
    and finite_free: "finite (free s)"
    and alloc_returns: "invar s \<Longrightarrow> free s \<noteq> {} \<Longrightarrow> \<exists>f s'. alloc s = Inr (f, s')"
    and alloc_spec: "invar s \<Longrightarrow> alloc s = Inr (f, s') \<Longrightarrow>
      f \<in> free s \<and> free s' = free s - {f} \<and> used s' = insert f (used s) \<and> invar s' \<and> same s s'"
    and dealloc_spec: "invar s \<Longrightarrow> f \<in> used s \<Longrightarrow> \<exists>s'. dealloc s f = Inr s' \<and>
      free s' = insert f (free s) \<and> used s' = used s - {f} \<and> invar s' \<and> same s s'"
    and same_refl: "same s s"
    and same_trans: "same s t \<Longrightarrow> same t u \<Longrightarrow> same s u"
    and same_eq: "invar s \<Longrightarrow> invar t \<Longrightarrow> same s t \<Longrightarrow> used s = used t \<Longrightarrow> s = t"
begin

fun alloc_many :: "nat \<Rightarrow> 's \<Rightarrow> ('f list \<times> 's) result" where
  "alloc_many 0 s = Inr ([], s)"
| "alloc_many (Suc n) s =
     and_then (alloc s) (\<lambda>(f, s'). and_then (alloc_many n s') (\<lambda>(fs, s''). Inr (f # fs, s'')))"

text \<open>As long as frames are left, successive allocations return distinct frames.\<close>

lemma alloc_many_spec:
  assumes "invar s" and "n \<le> card (free s)"
  shows "\<exists>fs s'. alloc_many n s = Inr (fs, s') \<and> length fs = n \<and> distinct fs \<and>
      set fs \<subseteq> free s \<and> free s' = free s - set fs \<and> used s' = used s \<union> set fs \<and>
      invar s' \<and> same s s'"
  using assms
proof (induction n arbitrary: s)
  case 0
  then show ?case by (simp add: same_refl)
next
  case (Suc n)
  then have "free s \<noteq> {}" by auto
  with Suc.prems(1) obtain f s1 where a: "alloc s = Inr (f, s1)"
    using alloc_returns by blast
  note sp = alloc_spec [OF Suc.prems(1) a]
  have "n \<le> card (free s1)"
    using Suc.prems(2) sp finite_free [of s] by (simp add: card_Diff_singleton)
  with sp Suc.IH [of s1] obtain fs s2 where m: "alloc_many n s1 = Inr (fs, s2)"
    "length fs = n" "distinct fs" "set fs \<subseteq> free s1" "free s2 = free s1 - set fs"
    "used s2 = used s1 \<union> set fs" "invar s2" "same s1 s2"
    by blast
  have "alloc_many (Suc n) s = Inr (f # fs, s2)"
    using a m(1) by simp
  moreover have "distinct (f # fs)" and "set (f # fs) \<subseteq> free s"
    using m sp by auto
  moreover have "same s s2"
    using sp m(8) same_trans by blast
  ultimately show ?case
    using m sp by (intro exI [of _ "f # fs"] exI [of _ s2]) auto
qed

lemma dealloc_many:
  assumes "invar s" and "distinct fs" and "set fs \<subseteq> used s"
  shows "\<exists>s'. for_each fs (\<lambda>f s. dealloc s f) s = Inr s' \<and>
      free s' = free s \<union> set fs \<and> used s' = used s - set fs \<and> invar s' \<and> same s s'"
  using assms
proof (induction fs arbitrary: s)
  case Nil
  then show ?case by (simp add: same_refl)
next
  case (Cons f fs)
  obtain s1 where d: "dealloc s f = Inr s1" "free s1 = insert f (free s)" "used s1 = used s - {f}"
    "invar s1" "same s s1"
    using dealloc_spec [OF Cons.prems(1), of f] Cons.prems(3) by auto
  have "set fs \<subseteq> used s1"
    using Cons.prems d(3) by auto
  then obtain s2 where r: "for_each fs (\<lambda>f s. dealloc s f) s1 = Inr s2"
    "free s2 = free s1 \<union> set fs" "used s2 = used s1 - set fs" "invar s2" "same s1 s2"
    using Cons.IH [OF d(4)] Cons.prems(2) by auto
  have "same s s2"
    using d(5) r(5) same_trans by blast
  with d r show ?case by auto
qed

text \<open>Returning exactly the frames taken since a state \<open>s0\<close>, in any order, restores \<open>s0\<close>.\<close>

lemma dealloc_restores:
  assumes "invar s0" and "invar s" and "same s0 s"
    and "used s = used s0 \<union> set fs" and "used s0 \<inter> set fs = {}" and "distinct fs"
  shows "for_each fs (\<lambda>f s. dealloc s f) s = Inr s0"
proof -
  obtain s' where r: "for_each fs (\<lambda>f s. dealloc s f) s = Inr s'"
    "used s' = used s - set fs" "invar s'" "same s s'"
    using dealloc_many [OF assms(2,6)] assms(4) by auto
  have "used s0 = used s'"
    using r(2) assms(4,5) by auto
  moreover have "same s0 s'"
    using assms(3) r(4) same_trans by blast
  ultimately have "s0 = s'"
    using assms(1) r(3) same_eq by blast
  with r(1) show ?thesis by simp
qed

end

definition free_frames :: "frame_allocator \<Rightarrow> phys_addr set" where
  "free_frames fa = PhysAddr ` free_pages fa"

definition used_frames :: "frame_allocator \<Rightarrow> phys_addr set" where
  "used_frames fa = PhysAddr ` used_pages fa"

definition same_heap :: "frame_allocator \<Rightarrow> frame_allocator \<Rightarrow> bool" where
  "same_heap fa fa' \<longleftrightarrow> base_addr fa = base_addr fa' \<and>
     length (page_allocated fa) = length (page_allocated fa')"

lemma first_free_Some_iff: "(\<exists>i. first_free (page_allocated fa) = Some i) \<longleftrightarrow> free_pages fa \<noteq> {}"
  using first_free_None [of "page_allocated fa"]
  by (cases "first_free (page_allocated fa)") (auto simp: free_pages_def dest: first_free_SomeD)

lemma page_addr_mem:
  assumes "fa_wf fa" and "i < length (page_allocated fa)"
  shows "page_addr fa i \<in> used_pages fa \<longleftrightarrow> page_allocated fa ! i \<noteq> 0"
  using assms page_addr_inj [OF assms(1)] by (auto simp: used_pages_def)

lemma same_heap_eq:
  assumes "fa_wf fa" and "fa_wf fa'" and "same_heap fa fa'" and "used_pages fa = used_pages fa'"
  shows "fa = fa'"
proof -
  have "page_allocated fa = page_allocated fa'"
  proof (rule nth_equalityI)
    show len: "length (page_allocated fa) = length (page_allocated fa')"
      using assms(3) by (simp add: same_heap_def)
    fix i assume i: "i < length (page_allocated fa)"
    have "page_addr fa i = page_addr fa' i"
      using assms(3) by (simp add: same_heap_def page_addr_def)
    then have "page_allocated fa ! i \<noteq> 0 \<longleftrightarrow> page_allocated fa' ! i \<noteq> 0"
      using page_addr_mem [OF assms(1) i] page_addr_mem [OF assms(2)] i len assms(4) by simp
    then show "page_allocated fa ! i = page_allocated fa' ! i"
      using fa_wf_entry [OF assms(1) i] fa_wf_entry [OF assms(2), of i] i len by auto
  qed
  with assms(3) show ?thesis
    by (simp add: same_heap_def)
qed

interpretation fpool: frame_pool allocate_one_frame deallocate_one_frame fa_wf same_heap
  free_frames used_frames
proof
  fix s :: frame_allocator and f s'
  show "fa_wf s \<Longrightarrow> free_frames s \<inter> used_frames s = {}"
    using free_used_disjoint by (fastforce simp: free_frames_def used_frames_def)
  show "finite (free_frames s)"
    by (simp add: free_frames_def finite_free_pages)
  show "fa_wf s \<Longrightarrow> free_frames s \<noteq> {} \<Longrightarrow> \<exists>f s'. allocate_one_frame s = Inr (f, s')"
    using first_free_Some_iff [of s] by (auto simp: allocate_one_frame_char free_frames_def)
  show "f \<in> free_frames s \<and> free_frames s' = free_frames s - {f} \<and>
      used_frames s' = insert f (used_frames s) \<and> fa_wf s' \<and> same_heap s s'"
    if wf: "fa_wf s" and a: "allocate_one_frame s = Inr (f, s')"
  proof -
    from a obtain i where i: "first_free (page_allocated s) = Some i"
      and f: "f = PhysAddr (page_addr s i)"
      and s': "s' = s\<lparr>page_allocated := (page_allocated s)[i := 1]\<rparr>"
      by (auto simp: allocate_one_frame_char [OF wf] split: option.splits)
    note d = first_free_SomeD [OF i]
    have "page_addr s i \<in> free_pages s"
      using d by (auto simp: free_pages_def)
    then show ?thesis
      using free_pages_take [OF wf d(1)] fa_wf_update [OF wf]
      by (auto simp: f s' free_frames_def used_frames_def same_heap_def)
  qed
  show "\<exists>s'. deallocate_one_frame s f = Inr s' \<and> free_frames s' = insert f (free_frames s) \<and>
      used_frames s' = used_frames s - {f} \<and> fa_wf s' \<and> same_heap s s'"
    if wf: "fa_wf s" and u: "f \<in> used_frames s"
  proof -
    from u obtain i where i: "i < length (page_allocated s)" and f: "f = PhysAddr (page_addr s i)"
      by (auto simp: used_frames_def used_pages_def)
    then show ?thesis
      using free_pages_give [OF wf i] fa_wf_update [OF wf]
      by (auto simp: deallocate_one_frame_char [OF wf i] free_frames_def used_frames_def
          same_heap_def)
  qed
  show "same_heap s s"
    by (simp add: same_heap_def)
  show "same_heap s t \<Longrightarrow> same_heap t u \<Longrightarrow> same_heap s u" for t u
    by (simp add: same_heap_def)
  show "fa_wf s \<Longrightarrow> fa_wf t \<Longrightarrow> same_heap s t \<Longrightarrow> used_frames s = used_frames t \<Longrightarrow> s = t" for t
    by (rule same_heap_eq) (auto simp: used_frames_def inj_image_eq_iff inj_def)
qed

section \<open>Properties\<close>

text \<open>
  The calls that the kernel makes: a frame is taken, or an address is given back.  Any address that is
  accepted clears the entry of the page it lies in.
\<close>

inductive fa_step :: "frame_allocator \<Rightarrow> frame_allocator \<Rightarrow> bool" where
  take_frame: "allocate_one_frame fa = Inr (pa, fa') \<Longrightarrow> fa_step fa fa'"
| give_frame: "deallocate_one_frame fa pa = Inr fa' \<Longrightarrow> fa_step fa fa'"

lemma deallocate_any_address:
  assumes "fa_wf fa" and "deallocate_one_frame fa pa = Inr fa'"
  shows "\<exists>i < length (page_allocated fa). fa' = fa\<lparr>page_allocated := (page_allocated fa)[i := 0]\<rparr>"
proof -
  let ?a = "pa_as_usize pa" and ?d = "drop_bit 12 (pa_as_usize pa - base_addr fa)"
  let ?i = "unat ?d"
  have le: "base_addr fa \<le> ?a" and i: "?i < length (page_allocated fa)"
    using assms(2) by (auto simp: deallocate_one_frame_def deallocate_def and_then_eq_Ok checked_simps
        vec_index_def checked_div_def PAGE_SIZE_def drop_bit_eq_div split: if_splits)
  have same: "drop_bit 12 (page_addr fa ?i - base_addr fa) = ?d"
  proof -
    have "unat (page_addr fa ?i) = unat (base_addr fa) + 4096 * ?i" by (rule unat_page_addr [OF assms(1) i])
    then have "unat (drop_bit 12 (page_addr fa ?i - base_addr fa)) = ?i"
      by (simp add: unat_drop_bit_page unat_sub word_le_nat_alt)
    then show ?thesis by (simp only: word_unat_eq_iff)
  qed
  have "base_addr fa \<le> page_addr fa ?i"
    using unat_page_addr [OF assms(1) i] by (simp add: word_le_nat_alt)
  then have "deallocate_one_frame fa pa = deallocate_one_frame fa (PhysAddr (page_addr fa ?i))"
    using le same by (simp add: deallocate_one_frame_def deallocate_def checked_sub_def checked_div_def
        PAGE_SIZE_def drop_bit_eq_div)
  then show ?thesis
    using assms(2) i deallocate_one_frame_char [OF assms(1) i] by auto
qed

lemma fa_step_wf:
  assumes "fa_wf fa" and "fa_step fa fa'"
  shows "fa_wf fa' \<and> same_heap fa fa'"
  using assms(2)
proof cases
  case (take_frame pa)
  then show ?thesis using fpool.alloc_spec [OF assms(1)] by blast
next
  case (give_frame pa)
  then show ?thesis
    using deallocate_any_address [OF assms(1)] fa_wf_update [OF assms(1)] by (fastforce simp: same_heap_def)
qed

text \<open>A small allocator: four pages at \<open>0x80000000\<close>, the first in use.\<close>

definition sample_allocator :: frame_allocator where
  "sample_allocator = \<lparr>page_allocated = [1, 0, 0, 0], base_addr = 0x80000000\<rparr>"

lemma sample_allocator_wf: "fa_wf sample_allocator"
  by (auto simp: sample_allocator_def fa_wf_def page_aligned_def)

lemma sample_allocator_free: "3 \<le> card (free_pages sample_allocator)"
proof -
  have "{0x80001000, 0x80002000, 0x80003000} \<subseteq> free_pages sample_allocator"
  proof
    fix a :: usize assume "a \<in> {0x80001000, 0x80002000, 0x80003000}"
    then have "a = page_addr sample_allocator 1 \<or> a = page_addr sample_allocator 2 \<or>
        a = page_addr sample_allocator 3"
      by (auto simp: page_addr_def sample_allocator_def)
    then show "a \<in> free_pages sample_allocator"
      by (auto simp: free_pages_def sample_allocator_def)
  qed
  from card_mono [OF finite_free_pages this] show ?thesis by simp
qed

text \<open>A client of the allocator: \<open>n\<close> frames, one after the other.\<close>

fun allocate_frames :: "nat \<Rightarrow> frame_allocator \<Rightarrow> (phys_addr list \<times> frame_allocator) result" where
  "allocate_frames 0 fa = Ok ([], fa)"
| "allocate_frames (Suc n) fa =
     and_then (allocate_one_frame fa) (\<lambda>(pa, fa').
     and_then (allocate_frames n fa') (\<lambda>(pas, fa''). Ok (pa # pas, fa'')))"

lemma allocate_frames_pool: "allocate_frames n fa = fpool.alloc_many n fa"
  by (induction n arbitrary: fa) (auto intro!: and_then_cong)

text \<open>
  C14. While frames are left, \<open>n\<close> calls of \<open>allocate_one_frame\<close> return \<open>n\<close> different page-aligned
  frames that were free before; no frame that was in use is handed out, and the frames in use
  afterwards are the old ones and these.
\<close>

theorem allocate_frames_distinct:
  assumes "fa_wf fa" and "n \<le> card (free_pages fa)"
  shows "\<exists>pas fa'. allocate_frames n fa = Inr (map PhysAddr pas, fa') \<and> length pas = n \<and> distinct pas \<and>
     set pas \<subseteq> free_pages fa \<and> (\<forall>a \<in> set pas. page_aligned a) \<and>
     free_pages fa' = free_pages fa - set pas \<and> used_pages fa' = used_pages fa \<union> set pas \<and> fa_wf fa'"
proof -
  have inj: "inj PhysAddr" by (auto intro: injI)
  have "card (free_frames fa) = card (free_pages fa)"
    using inj by (simp add: free_frames_def card_image inj_on_subset)
  then obtain fs fa' where r: "fpool.alloc_many n fa = Inr (fs, fa')" "length fs = n" "distinct fs"
    "set fs \<subseteq> free_frames fa" "free_frames fa' = free_frames fa - set fs"
    "used_frames fa' = used_frames fa \<union> set fs" "fa_wf fa'"
    using fpool.alloc_many_spec [OF assms(1), of n] assms(2) by auto
  let ?pas = "map pa_as_usize fs"
  have fs: "fs = map PhysAddr ?pas"
    by (simp add: map_idI)
  have sets: "set fs = PhysAddr ` set ?pas"
    using fs by (metis list.set_map)
  have "free_pages fa' = free_pages fa - set ?pas" "used_pages fa' = used_pages fa \<union> set ?pas"
    using r(5,6) inj
    unfolding free_frames_def used_frames_def sets
    by (simp_all add: inj_image_eq_iff flip: image_set_diff image_Un)
  moreover have sub: "set ?pas \<subseteq> free_pages fa"
    using r(4) inj unfolding free_frames_def sets by (simp add: inj_image_subset_iff)
  moreover have "\<forall>a \<in> set ?pas. page_aligned a"
    using sub pages_aligned [OF assms(1)] by blast
  moreover have "distinct ?pas"
    using r(3) by (metis fs distinct_map)
  ultimately show ?thesis
    using r(1,2,7) fs by (intro exI [of _ ?pas] exI [of _ fa']) (simp add: allocate_frames_pool)
qed

theorem allocate_frames_distinct_witness:
  "\<exists>pas fa'. allocate_frames 3 sample_allocator = Inr (map PhysAddr pas, fa') \<and> length pas = 3 \<and> distinct pas"
  using allocate_frames_distinct [OF sample_allocator_wf sample_allocator_free] by blast

text \<open>
  \<open>allocate_one_frame\<close> takes the lowest free page and returns its address; it panics exactly when
  no page is free, and then with the message of the source.
\<close>

lemma allocate_one_frame_first_fit:
  assumes "fa_wf fa"
  shows "case allocate_one_frame fa of
      Inr (pa, fa') \<Rightarrow> (\<exists>i < length (page_allocated fa). page_allocated fa ! i = 0 \<and>
          (\<forall>j < i. page_allocated fa ! j \<noteq> 0) \<and> pa = PhysAddr (base_addr fa + of_nat (4096 * i)) \<and>
          fa' = fa\<lparr>page_allocated := (page_allocated fa)[i := 1]\<rparr>)
    | Inl p \<Rightarrow> p = ExplicitPanic ''FrameAllocator::allocate: no available page!'' \<and>
          0 \<notin> set (page_allocated fa)"
  using first_free_SomeD [of "page_allocated fa"] first_free_None [of "page_allocated fa"]
  by (auto simp: allocate_one_frame_char [OF assms] page_addr_def in_set_conv_nth split: option.split)

text \<open>
  C18. Returning the frame that \<open>allocate_one_frame\<close> gave restores the allocator to the state it had.
\<close>

theorem allocate_deallocate_restores:
  assumes "fa_wf fa" and "allocate_one_frame fa = Inr (pa, fa')"
  shows "deallocate_one_frame fa' pa = Inr fa"
proof -
  note sp = fpool.alloc_spec [OF assms]
  have "for_each [pa] (\<lambda>f s. deallocate_one_frame s f) fa' = Inr fa"
    using sp fpool.disjoint [OF assms(1)]
    by (intro fpool.dealloc_restores [OF assms(1)]) auto
  then show ?thesis
    by (cases "deallocate_one_frame fa' pa") simp_all
qed

theorem allocate_deallocate_restores_witness:
  "\<exists>pa fa'. allocate_one_frame sample_allocator = Inr (pa, fa') \<and>
     deallocate_one_frame fa' pa = Inr sample_allocator"
proof -
  have "free_frames sample_allocator \<noteq> {}"
    using sample_allocator_free by (auto simp: free_frames_def)
  then obtain pa fa' where a: "allocate_one_frame sample_allocator = Inr (pa, fa')"
    using fpool.alloc_returns [OF sample_allocator_wf] by blast
  then show ?thesis
    using allocate_deallocate_restores [OF sample_allocator_wf a] by blast
qed

text \<open>
  A page that is free already can be returned again: \<open>deallocate_one_frame\<close> of any page of the heap
  succeeds and leaves the page free, so a double free is not detected.
\<close>

lemma double_free_accepted:
  assumes "fa_wf fa" and "a \<in> free_pages fa"
  shows "deallocate_one_frame fa (PhysAddr a) = Inr fa"
proof -
  obtain i where i: "i < length (page_allocated fa)" "page_allocated fa ! i = 0" "a = page_addr fa i"
    using assms(2) by (auto simp: free_pages_def)
  then show ?thesis
    using deallocate_one_frame_char [OF assms(1) i(1)] by (simp add: list_update_eq_self)
qed

text \<open>
  C40. An allocation of several pages does not look whether they are free: for every allocator without a
  run of \<open>2 ^ 64 - 1\<close> pages, the allocation of \<open>n\<close> pages writes \<open>n\<close> into the \<open>n\<close> entries from the first free page on,
  whatever they hold, and so takes over pages in use, which keep no trace.  The address it returns is
  \<open>n\<close> times as far from the base as that page, so for \<open>n > 1\<close> it is not the address of the page it marks, unless
  that is the first one.
\<close>

theorem allocate_overlaps_used_page:
  assumes "- 1 \<notin> set (page_allocated fa)" and "page_allocated fa ! i = 0" and "\<forall>j < i. page_allocated fa ! j \<noteq> 0"
    and "0 < n" and "i + n \<le> length (page_allocated fa)"
    and "unat (base_addr fa) + 4096 * (length (page_allocated fa) * length (page_allocated fa)) < 2 ^ 63"
  shows "\<exists>ptr fa'. allocate fa (of_nat (n * 4096)) = Inr (ptr, fa') \<and>
    unat ptr = unat (base_addr fa) + i * n * 4096 \<and>
    (1 < n \<longrightarrow> 0 < i \<longrightarrow> ptr \<noteq> page_addr fa i) \<and>
    length (page_allocated fa') = length (page_allocated fa) \<and> base_addr fa' = base_addr fa \<and>
    (\<forall>k < length (page_allocated fa). page_allocated fa' ! k =
       (if i \<le> k \<and> k < i + n then of_nat n else page_allocated fa ! k))"
proof -
  let ?pa = "page_allocated fa" and ?sz = "of_nat (n * 4096) :: usize"
  have il: "i < length ?pa" using assms(4,5) by simp
  then have ff: "first_free ?pa = Some i"
    using assms(2,3) by (auto simp: first_free_def find_Some_iff intro!: exI [of _ i])
  have "i * n \<le> length ?pa * length ?pa" using assms(4,5) by (intro mult_mono) auto
  then have b: "unat (base_addr fa) + i * n * 4096 < 2 ^ 63" using assms(6) by simp
  have "n * 1 \<le> length ?pa * length ?pa" using assms(4,5) by (intro mult_mono) auto
  then have n: "n * 4096 < 2 ^ 63" using assms(6) by simp
  then have sz: "unat ?sz = n * 4096" by (intro unat_of_nat_small) simp
  have un: "unat (of_nat n :: usize) = n" using n by (intro unat_of_nat_small) simp
  have i1: "i \<le> i * n" using assms(4) by simp
  then have "4096 * i < 2 ^ 63" using b by linarith
  then have ui: "unat (of_nat i :: usize) = i" "unat (of_nat (4096 * i) :: usize) = 4096 * i"
    by (intro unat_of_nat_small; simp)+
  have "unat (?sz + mask 12) = n * 4096 + 4095"
    using sz n by (simp add: unat_word_ariths(1) mask_eq_exp_minus_1)
  then have np: "of_nat n = drop_bit 12 (?sz + mask 12)"
    by (simp add: word_unat_eq_iff un unat_drop_bit_page)
  have mul: "checked_mul (of_nat i) ?sz = Inr (of_nat i * ?sz)" and off: "unat (of_nat i * ?sz) = i * n * 4096"
    using b sz ui by (simp_all add: checked_mul_def unat_word_ariths(2) mult.assoc)
  have add: "checked_add (base_addr fa) (of_nat i * ?sz) = Inr (base_addr fa + of_nat i * ?sz)"
    and ptr: "unat (base_addr fa + of_nat i * ?sz) = unat (base_addr fa) + i * n * 4096"
    using b off by (simp_all add: checked_add_def unat_word_ariths(1))
  have "allocate fa ?sz = Inr (base_addr fa + of_nat i * ?sz, fa\<lparr>page_allocated := marked ?pa i n (of_nat n)\<rparr>)"
    by (subst allocate_char [OF _ assms(1) np]) (use sz n ff un assms(5) mul add in simp_all)
  moreover have "base_addr fa + of_nat i * ?sz \<noteq> page_addr fa i" if "1 < n" "0 < i"
  proof -
    have "unat (page_addr fa i) = unat (base_addr fa) + 4096 * i"
    proof -
      have "unat (base_addr fa) + 4096 * i < 2 ^ 63" using b i1 by linarith
      then show ?thesis using ui(2) by (simp add: page_addr_def unat_word_ariths(1))
    qed
    moreover have "i * 1 < i * n" using that by (intro mult_strict_left_mono) auto
    ultimately show ?thesis using ptr by auto
  qed
  ultimately show ?thesis
    using ptr
    by (rule_tac exI [of _ "base_addr fa + of_nat i * ?sz"],
        rule_tac exI [of _ "fa\<lparr>page_allocated := marked ?pa i n (of_nat n)\<rparr>"]) (auto simp: marked_def)
qed

theorem allocate_overlaps_used_page_witness:
  "\<exists>ptr fa'. allocate \<lparr>page_allocated = [1, 0, 1, 0], base_addr = 0x80000000\<rparr> 8192 = Inr (ptr, fa') \<and>
     ptr \<noteq> 0x80001000 \<and> page_allocated fa' ! 2 = 2"
proof -
  let ?fa = "\<lparr>page_allocated = [1, 0, 1, 0], base_addr = 0x80000000\<rparr>"
  have "- 1 \<notin> set (page_allocated ?fa)" "page_allocated ?fa ! 1 = 0" "\<forall>j < 1. page_allocated ?fa ! j \<noteq> 0"
    "0 < (2 :: nat)" "1 + 2 \<le> length (page_allocated ?fa)"
    "unat (base_addr ?fa) + 4096 * (length (page_allocated ?fa) * length (page_allocated ?fa)) < 2 ^ 63"
    by simp_all
  from allocate_overlaps_used_page [OF this] show ?thesis
    by (auto simp: page_addr_def numeral_2_eq_2)
qed

end
