(* ===== verification/Guards.thy ===== *)
theory Guards
  imports Frame_Allocator
begin

text \<open>
  The owners of frames of \<^verbatim>\<open>kernel/src/mm/memory.rs\<close>: \<open>FrameGuard\<close>, which returns its frame to
  the allocator when it is dropped, and \<open>VirtFrameGuard\<close>.  They act on the shared state
  \<open>kstate\<close>: physical memory and the static \<open>FRAME_ALLOCATOR\<close>.  Rust runs \<open>Drop\<close> where a value
  goes out of scope; the model calls \<open>frame_guard_drop\<close> there.
\<close>

record kstate =
  phys_mem :: pmem
  FRAME_ALLOCATOR :: frame_allocator

record frame_guard =
  guard_inner :: "frame option"

definition allocate_zeroed :: "kstate \<Rightarrow> (frame_guard \<times> kstate) result" where
  "allocate_zeroed s =
     and_then (allocate_one_frame (FRAME_ALLOCATOR s)) (\<lambda>(pa, fa').
     and_then (frame_from pa) (\<lambda>frame.
     and_then (frame_zero frame (phys_mem s)) (\<lambda>m'.
       Ok (\<lparr>guard_inner = Some frame\<rparr>, s\<lparr>phys_mem := m', FRAME_ALLOCATOR := fa'\<rparr>))))"

definition allocate_with_data :: "u8 list \<Rightarrow> kstate \<Rightarrow> (frame_guard \<times> kstate) result" where
  "allocate_with_data data s =
     and_then (allocate_zeroed s) (\<lambda>(zelf, s').
     and_then (unwrap (guard_inner zelf)) (\<lambda>frame.
     and_then (frame_write frame data (phys_mem s')) (\<lambda>(_, m').
       Ok (zelf, s'\<lparr>phys_mem := m'\<rparr>))))"

definition frame_guard_from_frame :: "frame \<Rightarrow> frame_guard" where
  "frame_guard_from_frame f = \<lparr>guard_inner = Some f\<rparr>"

definition inner_ref :: "frame_guard \<Rightarrow> frame result" where
  "inner_ref g = expect ''FrameGuard::inner_ref: no inner'' (guard_inner g)"

definition get_frame :: "frame_guard \<Rightarrow> frame result" where
  "get_frame g = expect ''FrameGuard::get_frame: no inner'' (guard_inner g)"

text \<open>\<open>take\<close> consumes the guard: it returns the frame and what is left to drop.\<close>

definition guard_take :: "frame_guard \<Rightarrow> (frame \<times> frame_guard) result" where
  "guard_take g =
     and_then (expect ''FrameGuard::take_frame: called more than once!'' (guard_inner g)) (\<lambda>f.
       Ok (f, g\<lparr>guard_inner := None\<rparr>))"

definition frame_guard_drop :: "frame_guard \<Rightarrow> kstate \<Rightarrow> kstate result" where
  "frame_guard_drop g s =
     (case guard_inner g of
        None \<Rightarrow> Ok s
      | Some f \<Rightarrow>
          and_then (frame_get_base_phys_addr f) (\<lambda>pa.
          and_then (deallocate_one_frame (FRAME_ALLOCATOR s) pa) (\<lambda>fa'.
            Ok (s\<lparr>FRAME_ALLOCATOR := fa'\<rparr>))))"

text \<open>
  A \<open>CowShared\<close> guard holds an \<open>Arc\<close>: the guard of the frame and how many other holders the
  \<open>Arc\<close> has.
\<close>

datatype virt_frame_guard =
    ExclusivelyAllocated frame_guard
  | CowShared frame_guard nat
  | PhysBorrowed frame

fun virt_frame_guard_as_usize :: "virt_frame_guard \<Rightarrow> usize result" where
  "virt_frame_guard_as_usize (ExclusivelyAllocated g) =
     and_then (get_frame g) (\<lambda>f.
     and_then (frame_get_base_phys_addr f) (\<lambda>pa. Ok (pa_as_usize pa)))"
| "virt_frame_guard_as_usize (CowShared g others) =
     and_then (get_frame g) (\<lambda>f.
     and_then (frame_get_base_phys_addr f) (\<lambda>pa. Ok (pa_as_usize pa)))"
| "virt_frame_guard_as_usize (PhysBorrowed f) =
     and_then (frame_get_base_phys_addr f) (\<lambda>pa. Ok (pa_as_usize pa))"

section \<open>Allocation of a zeroed frame\<close>

text \<open>The guard of the frame at address \<open>a\<close>.\<close>

definition guard_at :: "usize \<Rightarrow> frame_guard" where
  "guard_at a = \<lparr>guard_inner = Some (Frame (drop_bit 12 a))\<rparr>"

definition kstate_wf :: "kstate \<Rightarrow> bool" where
  "kstate_wf s \<longleftrightarrow> fa_wf (FRAME_ALLOCATOR s)"

abbreviation kfree :: "kstate \<Rightarrow> usize set" where
  "kfree s \<equiv> free_pages (FRAME_ALLOCATOR s)"

abbreviation kused :: "kstate \<Rightarrow> usize set" where
  "kused s \<equiv> used_pages (FRAME_ALLOCATOR s)"

lemma allocate_zeroed_spec:
  assumes "kstate_wf s" and "kfree s \<noteq> {}"
  shows "\<exists>a s'. allocate_zeroed s = Inr (guard_at a, s') \<and> a \<in> kfree s \<and> page_aligned a \<and>
     kfree s' = kfree s - {a} \<and> kused s' = insert a (kused s) \<and> kstate_wf s' \<and>
     same_heap (FRAME_ALLOCATOR s) (FRAME_ALLOCATOR s') \<and>
     phys_mem s' = store_bytes 4096 (\<lambda>_. 0) a (phys_mem s)"
proof -
  have wf: "fa_wf (FRAME_ALLOCATOR s)"
    using assms(1) by (simp add: kstate_wf_def)
  from assms(2) obtain pa fa' where al: "allocate_one_frame (FRAME_ALLOCATOR s) = Inr (pa, fa')"
    using fpool.alloc_returns [OF wf] by (auto simp: free_frames_def)
  note sp = fpool.alloc_spec [OF wf al]
  from sp obtain a where a: "pa = PhysAddr a" "a \<in> kfree s"
    by (auto simp: free_frames_def)
  have al_a: "page_aligned a"
    using a(2) pages_aligned [OF wf] by auto
  have fr: "free_pages fa' = kfree s - {a}" and us: "used_pages fa' = insert a (kused s)"
    using sp unfolding a(1) free_frames_def used_frames_def
    by (auto simp: image_iff set_eq_iff)
  have "allocate_zeroed s = Inr (guard_at a,
      s\<lparr>phys_mem := store_bytes 4096 (\<lambda>_. 0) a (phys_mem s), FRAME_ALLOCATOR := fa'\<rparr>)"
    using al a(1) al_a
    by (simp add: allocate_zeroed_def guard_at_def frame_zero_Ok page_aligned_page_of)
  then show ?thesis
    using a(2) al_a fr us sp by (intro exI conjI) (auto simp: kstate_wf_def)
qed

lemma allocate_zeroed_exhausted:
  assumes "kstate_wf s" and "kfree s = {}"
  shows "allocate_zeroed s = Inl (ExplicitPanic ''FrameAllocator::allocate: no available page!'')"
proof -
  have "first_free (page_allocated (FRAME_ALLOCATOR s)) = None"
    using assms(2) first_free_Some_iff [of "FRAME_ALLOCATOR s"] by (cases "first_free (page_allocated (FRAME_ALLOCATOR s))") auto
  then show ?thesis
    using assms(1) by (simp add: allocate_zeroed_def kstate_wf_def allocate_one_frame_char)
qed

lemma guard_drop_spec:
  assumes "kstate_wf s" and "a \<in> kused s"
  shows "frame_guard_drop (guard_at a) s =
     and_then (deallocate_one_frame (FRAME_ALLOCATOR s) (PhysAddr a)) (\<lambda>fa'.
       Inr (s\<lparr>FRAME_ALLOCATOR := fa'\<rparr>))"
proof -
  have "page_aligned a"
    using assms pages_aligned by (auto simp: kstate_wf_def)
  then show ?thesis
    by (simp add: frame_guard_drop_def guard_at_def page_aligned_page_of)
qed

lemma allocate_with_data_frame:
  assumes "kstate_wf s" and "kfree s \<noteq> {}"
  shows "\<exists>a s'. allocate_with_data data s = Inr (guard_at a, s') \<and> a \<in> kfree s \<and> page_aligned a \<and>
     kfree s' = kfree s - {a} \<and> kused s' = insert a (kused s) \<and> kstate_wf s' \<and>
     same_heap (FRAME_ALLOCATOR s) (FRAME_ALLOCATOR s') \<and>
     (\<forall>k < 4096. phys_mem s' (a + of_nat k) = (if k < length data then data ! k else 0)) \<and>
     (\<forall>x. page_of x \<noteq> a \<longrightarrow> phys_mem s' x = phys_mem s x)"
proof -
  obtain a s1 where al: "allocate_zeroed s = Inr (guard_at a, s1)" "a \<in> kfree s" "page_aligned a"
    "kfree s1 = kfree s - {a}" "kused s1 = insert a (kused s)" "kstate_wf s1"
    "same_heap (FRAME_ALLOCATOR s) (FRAME_ALLOCATOR s1)"
    "phys_mem s1 = store_bytes 4096 (\<lambda>_. 0) a (phys_mem s)"
    using allocate_zeroed_spec [OF assms] by blast
  let ?n = "min 4096 (length data)"
  let ?s = "s1\<lparr>phys_mem := store_bytes ?n (\<lambda>i. data ! i) a (phys_mem s1)\<rparr>"
  have "allocate_with_data data s = Inr (guard_at a, ?s)"
    using al(1,3)
    by (simp add: allocate_with_data_def guard_at_def frame_write_Ok page_aligned_page_of)
  moreover have "phys_mem ?s (a + of_nat k) = (if k < length data then data ! k else 0)" if "k < 4096" for k
    using that unat_of_nat_small [of k] by (simp add: al(8) store_bytes_eq)
  moreover have "phys_mem ?s x = phys_mem s x" if "page_of x \<noteq> a" for x
    using that al(3,8) by (simp add: store_bytes_page)
  ultimately show ?thesis
    using al(2-7) by (intro exI [of _ a] exI [of _ ?s]) (simp add: kstate_wf_def)
qed

section \<open>Properties\<close>

text \<open>A state with sixteen free frames.\<close>

definition sample_state :: kstate where
  "sample_state = \<lparr>phys_mem = (\<lambda>_. 0),
     FRAME_ALLOCATOR = \<lparr>page_allocated = replicate 16 0, base_addr = 0x80000000\<rparr>\<rparr>"

lemma sample_state_wf: "kstate_wf sample_state"
  by (auto simp: sample_state_def kstate_wf_def fa_wf_def page_aligned_def)

lemma sample_state_free: "card (kfree sample_state) = 16"
proof -
  let ?fa = "FRAME_ALLOCATOR sample_state"
  have len: "length (page_allocated ?fa) = 16" by (simp add: sample_state_def)
  have "kfree sample_state = page_addr ?fa ` {..<16}"
    by (auto simp: free_pages_def sample_state_def)
  moreover have "inj_on (page_addr ?fa) {..<16}"
    using page_addr_inj [of ?fa] sample_state_wf len by (auto simp: inj_on_def kstate_wf_def)
  ultimately show ?thesis
    by (simp add: card_image)
qed

text \<open>
  \<open>FrameGuard::allocate_with_data\<close> takes a free frame and fills it with the data, cut to one page
  and followed by zeros; no byte outside the frame changes, and dropping the guard gives the
  frame back, so that the allocator is as before.
\<close>

lemma allocate_with_data_spec:
  assumes "kstate_wf s" and "kfree s \<noteq> {}"
  shows "\<exists>a s'. allocate_with_data data s = Inr (guard_at a, s') \<and> a \<in> kfree s \<and> a \<in> kused s' \<and>
     (\<forall>k < 4096. phys_mem s' (a + of_nat k) = (if k < length data then data ! k else 0)) \<and>
     (\<forall>x. page_of x \<noteq> a \<longrightarrow> phys_mem s' x = phys_mem s x) \<and>
     frame_guard_drop (guard_at a) s' = Inr (s'\<lparr>FRAME_ALLOCATOR := FRAME_ALLOCATOR s\<rparr>)"
proof -
  obtain a s' where al: "allocate_with_data data s = Inr (guard_at a, s')" "a \<in> kfree s" "page_aligned a"
    "kused s' = insert a (kused s)" "kstate_wf s'" "same_heap (FRAME_ALLOCATOR s) (FRAME_ALLOCATOR s')"
    "\<forall>k < 4096. phys_mem s' (a + of_nat k) = (if k < length data then data ! k else 0)"
    "\<forall>x. page_of x \<noteq> a \<longrightarrow> phys_mem s' x = phys_mem s x"
    using allocate_with_data_frame [OF assms, of data] by blast
  have "for_each [PhysAddr a] (\<lambda>f s. deallocate_one_frame s f) (FRAME_ALLOCATOR s') = Inr (FRAME_ALLOCATOR s)"
    using al(2-6) assms(1) free_used_disjoint [of "FRAME_ALLOCATOR s"]
    by (intro fpool.dealloc_restores) (auto simp: kstate_wf_def used_frames_def)
  then have "deallocate_one_frame (FRAME_ALLOCATOR s') (PhysAddr a) = Inr (FRAME_ALLOCATOR s)"
    by (cases "deallocate_one_frame (FRAME_ALLOCATOR s') (PhysAddr a)") simp_all
  then show ?thesis
    using al
    by (intro exI [of _ a] exI [of _ s']) (simp add: frame_guard_drop_def guard_at_def page_aligned_page_of)
qed

end
