(* ===== verification/Virt_Area.thy ===== *)
theory Virt_Area
  imports Guards
begin

text \<open>
  \<open>VirtArea\<close> of \<^verbatim>\<open>kernel/src/mm/address_space.rs\<close>: a contiguous range of virtual pages with the
  frames that back it and its permissions; and the permission flags of
  \<^verbatim>\<open>kernel/src/mm/page_table.rs\<close>.

  The flag types are declared with the macro of the crate \<^verbatim>\<open>bitflags\<close>.  Its operations are
  the record \<open>bitflags_ops\<close>, an argument of the definitions that use them; \<open>bitflags_ok\<close> is the
  behaviour its documentation states.
\<close>

section \<open>Flags\<close>

record bitflags_ops =
  bf_from_bits :: "u16 list \<Rightarrow> u16 \<Rightarrow> u16 option"   \<comment> \<open>\<open>from_bits\<close>, with the declared flags\<close>
  bf_contains :: "u16 \<Rightarrow> u16 \<Rightarrow> bool"                \<comment> \<open>\<open>contains\<close>\<close>
  bf_or :: "u16 \<Rightarrow> u16 \<Rightarrow> u16"                       \<comment> \<open>\<open>BitOr\<close>\<close>
  bf_and :: "u16 \<Rightarrow> u16 \<Rightarrow> u16"                      \<comment> \<open>\<open>BitAnd\<close>\<close>
  bf_not :: "u16 list \<Rightarrow> u16 \<Rightarrow> u16"                 \<comment> \<open>\<open>Not\<close>, with the declared flags\<close>

definition bitflags_ok :: "bitflags_ops \<Rightarrow> bool" where
  "bitflags_ok B \<longleftrightarrow>
     (\<forall>fs b. bf_from_bits B fs b = (if b AND NOT (foldr (OR) fs 0) = 0 then Some b else None)) \<and>
     (\<forall>a b. bf_contains B a b \<longleftrightarrow> a AND b = b) \<and>
     (\<forall>a b. bf_or B a b = a OR b) \<and>
     (\<forall>a b. bf_and B a b = a AND b) \<and>
     (\<forall>fs a. bf_not B fs a = NOT a AND foldr (OR) fs 0)"

lemma bitflags_okD:
  assumes "bitflags_ok B"
  shows "bf_from_bits B fs b = (if b AND NOT (foldr (OR) fs 0) = 0 then Some b else None)"
    and "bf_contains B a b \<longleftrightarrow> a AND b = b"
    and "bf_or B a b = a OR b"
    and "bf_and B a b = a AND b"
    and "bf_not B fs a = NOT a AND foldr (OR) fs 0"
  using assms unfolding bitflags_ok_def by blast+

text \<open>An instance of the documented behaviour.\<close>

definition plain_bitflags :: bitflags_ops where
  "plain_bitflags =
     \<lparr>bf_from_bits = (\<lambda>fs b. if b AND NOT (foldr (OR) fs 0) = 0 then Some b else None),
      bf_contains = (\<lambda>a b. a AND b = b), bf_or = (OR), bf_and = (AND),
      bf_not = (\<lambda>fs a. NOT a AND foldr (OR) fs 0)\<rparr>"

lemma plain_bitflags_ok: "bitflags_ok plain_bitflags"
  by (simp add: bitflags_ok_def plain_bitflags_def)

text \<open>\<open>from_bits_retain\<close> and \<open>bits\<close> are the constructor and the selector of the newtypes.\<close>

datatype pte_flags = PTEFlags (pte_flags_bits: u16)
datatype page_flags = PageFlags (page_flags_bits: u16)

definition PTE_VALID :: pte_flags where "PTE_VALID = PTEFlags (push_bit 0 1)"
definition PTE_READABLE :: pte_flags where "PTE_READABLE = PTEFlags (push_bit 1 1)"
definition PTE_WRITABLE :: pte_flags where "PTE_WRITABLE = PTEFlags (push_bit 2 1)"
definition PTE_EXECUTABLE :: pte_flags where "PTE_EXECUTABLE = PTEFlags (push_bit 3 1)"
definition PTE_USER :: pte_flags where "PTE_USER = PTEFlags (push_bit 4 1)"
definition PTE_GLOBAL :: pte_flags where "PTE_GLOBAL = PTEFlags (push_bit 5 1)"
definition PTE_ACCESSED :: pte_flags where "PTE_ACCESSED = PTEFlags (push_bit 6 1)"
definition PTE_DIRTY :: pte_flags where "PTE_DIRTY = PTEFlags (push_bit 7 1)"
definition PTE_COW :: pte_flags where "PTE_COW = PTEFlags (push_bit 8 1)"

definition PTEFlags_all :: "u16 list" where
  "PTEFlags_all = map pte_flags_bits [PTE_VALID, PTE_READABLE, PTE_WRITABLE, PTE_EXECUTABLE,
     PTE_USER, PTE_GLOBAL, PTE_ACCESSED, PTE_DIRTY, PTE_COW]"

definition PAGE_READABLE :: page_flags where "PAGE_READABLE = PageFlags (push_bit 1 1)"
definition PAGE_WRITABLE :: page_flags where "PAGE_WRITABLE = PageFlags (push_bit 2 1)"
definition PAGE_EXECUTABLE :: page_flags where "PAGE_EXECUTABLE = PageFlags (push_bit 3 1)"
definition PAGE_USER :: page_flags where "PAGE_USER = PageFlags (push_bit 4 1)"

definition pte_flags_from :: "page_flags \<Rightarrow> pte_flags" where
  "pte_flags_from perms = PTEFlags (page_flags_bits perms)"

definition page_flags_from :: "pte_flags \<Rightarrow> page_flags" where
  "page_flags_from flags = PageFlags (pte_flags_bits flags)"

definition pte_flags_or :: "bitflags_ops \<Rightarrow> pte_flags \<Rightarrow> pte_flags \<Rightarrow> pte_flags" where
  "pte_flags_or B a b = PTEFlags (bf_or B (pte_flags_bits a) (pte_flags_bits b))"

definition page_flags_or :: "bitflags_ops \<Rightarrow> page_flags \<Rightarrow> page_flags \<Rightarrow> page_flags" where
  "page_flags_or B a b = PageFlags (bf_or B (page_flags_bits a) (page_flags_bits b))"

definition page_flags_contains :: "bitflags_ops \<Rightarrow> page_flags \<Rightarrow> page_flags \<Rightarrow> bool" where
  "page_flags_contains B a b = bf_contains B (page_flags_bits a) (page_flags_bits b)"

section \<open>Virtual areas\<close>

record virt_area =
  virt_frame_range :: virt_frame_range
  virt_frames :: "(virt_addr, virt_frame_guard) btree_map"
  area_permissions :: page_flags
  is_identically_mapped :: bool
  area_name :: string

definition virt_area_new :: "virt_addr \<Rightarrow> virt_addr \<Rightarrow> page_flags \<Rightarrow> virt_area result" where
  "virt_area_new va_begin va_end perms =
     and_then (va_align_down va_begin) (\<lambda>vb.
     and_then (virt_frame_from vb) (\<lambda>b.
     and_then (va_align_up va_end) (\<lambda>ve.
     and_then (virt_frame_from ve) (\<lambda>e.
       Ok \<lparr>virt_frame_range = simple_range_new b e, virt_frames = [], area_permissions = perms,
           is_identically_mapped = False, area_name = ''''\<rparr>))))"

definition identically_mapped :: "phys_addr \<Rightarrow> phys_addr \<Rightarrow> page_flags \<Rightarrow> virt_area result" where
  "identically_mapped pa_begin pa_end perms =
     and_then (pa_align_down pa_begin) (\<lambda>b0.
     and_then (frame_from b0) (\<lambda>b.
     and_then (pa_align_up pa_end) (\<lambda>e0.
     and_then (frame_from e0) (\<lambda>e.
       let phys_rng = simple_range_new b e
       in Ok \<lparr>virt_frame_range = virt_range_from_identical phys_rng, virt_frames = [],
              area_permissions = perms, is_identically_mapped = True, area_name = ''''\<rparr>))))"

definition set_name :: "virt_area \<Rightarrow> string \<Rightarrow> virt_area" where
  "set_name area name = area\<lparr>area_name := name\<rparr>"

text \<open>\<open>print_info\<close> prints, but first computes the two end addresses, which may overflow.\<close>

definition print_info :: "virt_area \<Rightarrow> unit result" where
  "print_info area =
     and_then (get_base_virt_addr (range_begin (virt_frame_range area))) (\<lambda>_.
     and_then (get_base_virt_addr (range_end (virt_frame_range area))) (\<lambda>_. Ok ()))"

text \<open>Dropping a guard; an \<open>Arc\<close> releases its frame when no other holder is left.\<close>

fun virt_frame_guard_drop :: "virt_frame_guard \<Rightarrow> kstate \<Rightarrow> kstate result" where
  "virt_frame_guard_drop (ExclusivelyAllocated g) s = frame_guard_drop g s"
| "virt_frame_guard_drop (CowShared g others) s = (if others = 0 then frame_guard_drop g s else Ok s)"
| "virt_frame_guard_drop (PhysBorrowed f) s = Ok s"

text \<open>The value that \<open>insert\<close> replaces, if any, is dropped at the end of the statement.\<close>

definition track_frame ::
  "virt_area \<Rightarrow> virt_addr \<Rightarrow> virt_frame_guard \<Rightarrow> kstate \<Rightarrow> (virt_area \<times> kstate) result" where
  "track_frame area va guard s =
     (let (old, m) = btree_insert va guard (virt_frames area);
          area' = area\<lparr>virt_frames := m\<rparr>
      in case old of
           None \<Rightarrow> Ok (area', s)
         | Some g \<Rightarrow> and_then (virt_frame_guard_drop g s) (\<lambda>s'. Ok (area', s')))"

definition make_trampoline ::
  "bitflags_ops \<Rightarrow> linker_symbols \<Rightarrow> kstate \<Rightarrow> (virt_area \<times> kstate) result" where
  "make_trampoline B L s =
     (let va_begin = VirtAddr TRAMPOLINE_BASE_VA;
          va_end = VirtAddr MAX_VA;
          perms = page_flags_or B PAGE_READABLE PAGE_EXECUTABLE
      in and_then (virt_area_new va_begin va_end perms) (\<lambda>area.
         and_then (frame_from_phys_addr (PhysAddr (ld_trampoline_start L))) (\<lambda>phys_frame.
         and_then (track_frame area va_begin (PhysBorrowed phys_frame) s) (\<lambda>(area', s').
           Ok (set_name area' ''trampoline'', s')))))"

definition make_trapframe ::
  "bitflags_ops \<Rightarrow> kstate \<Rightarrow> ((virt_area \<times> phys_addr) \<times> kstate) result" where
  "make_trapframe B s =
     (let va_begin = VirtAddr TRAPFRAME_BASE_USER_VA;
          perms = page_flags_or B PAGE_READABLE PAGE_WRITABLE
      in and_then (checked_add TRAPFRAME_BASE_USER_VA TRAPFRAME_SIZE) (\<lambda>e.
         and_then (va_align_up (VirtAddr e)) (\<lambda>va_end.
         and_then (virt_area_new va_begin va_end perms) (\<lambda>area.
         and_then (allocate_zeroed s) (\<lambda>(phys_frame, s1).
         and_then (get_frame phys_frame) (\<lambda>f.
         and_then (frame_get_base_phys_addr f) (\<lambda>pa.
         and_then (track_frame area va_begin (ExclusivelyAllocated phys_frame) s1) (\<lambda>(area', s2).
           Ok ((set_name area' ''trapframe'', pa), s2)))))))))"

text \<open>\<open>PAGE_SIZE\<close> is here the constant of the crate \<^verbatim>\<open>virtio_drivers\<close>, the argument \<open>vps\<close>.\<close>

definition make_initial_user_stack ::
  "bitflags_ops \<Rightarrow> usize \<Rightarrow> virt_addr \<Rightarrow> kstate \<Rightarrow> ((virt_area \<times> phys_addr) \<times> kstate) result" where
  "make_initial_user_stack B vps user_stack_va s =
     (let va_begin = user_stack_va;
          perms = page_flags_or B (page_flags_or B PAGE_READABLE PAGE_WRITABLE) PAGE_USER
      in and_then (va_add user_stack_va vps) (\<lambda>va_end.
         and_then (virt_area_new va_begin va_end perms) (\<lambda>area.
         and_then (allocate_zeroed s) (\<lambda>(phys_frame, s1).
         and_then (get_frame phys_frame) (\<lambda>f.
         and_then (frame_get_base_phys_addr f) (\<lambda>pa.
         and_then (track_frame area va_begin (ExclusivelyAllocated phys_frame) s1) (\<lambda>(area', s2).
           Ok ((set_name area' ''user stack'', pa), s2))))))))"

end
