(* ===== verification/Page_Table.thy ===== *)
theory Page_Table
  imports Virt_Area
begin

text \<open>
  The Sv39 page tables of \<^verbatim>\<open>kernel/src/mm/page_table.rs\<close>.  A node is a frame of 512 entries in
  physical memory; a reference to an entry is its address.  \<open>find\<close> walks the three levels,
  \<open>find_allocate\<close> also allocates the nodes that are missing, and the mapping operations write
  the entry found.  Every assertion of the source is a branch of the model.
\<close>

section \<open>Entries\<close>

datatype pte = PTE (pte_bits: usize)

definition make_entry :: "phys_addr \<Rightarrow> pte_flags \<Rightarrow> usize result" where
  "make_entry pa flags =
     and_then (frame_from pa) (\<lambda>frame.
       Ok (push_bit 10 (frame_number frame) OR ucast (pte_flags_bits flags)))"

definition pte_new :: "phys_addr \<Rightarrow> pte_flags \<Rightarrow> pte result" where
  "pte_new pa flags = and_then (make_entry pa flags) (\<lambda>b. Ok (PTE b))"

definition pte_empty :: pte where
  "pte_empty = PTE 0"

definition pte_get_flags :: "bitflags_ops \<Rightarrow> pte \<Rightarrow> pte_flags result" where
  "pte_get_flags B e =
     (let flags_raw = pte_bits e AND (push_bit 10 1 - 1)
      in and_then (unwrap (bf_from_bits B PTEFlags_all (ucast flags_raw))) (\<lambda>b. Ok (PTEFlags b)))"

definition referencing_address :: "pte \<Rightarrow> phys_addr" where
  "referencing_address e = PhysAddr (PTE2PA (pte_bits e))"

definition referencing_frame :: "pte \<Rightarrow> frame result" where
  "referencing_frame e =
     (let pa = referencing_address e
      in and_then (rust_assert ''PageTableEntry::referencing_frame: is not page aligned''
                    (pa_is_page_aligned pa)) (\<lambda>_.
         frame_from_phys_addr pa))"

definition is_valid :: "bitflags_ops \<Rightarrow> pte \<Rightarrow> bool result" where
  "is_valid B e =
     and_then (pte_get_flags B e) (\<lambda>f.
       Ok (bf_contains B (pte_flags_bits f) (pte_flags_bits PTE_VALID)))"

section \<open>Nodes\<close>

definition ENTRY_PER_TABLE :: usize where "ENTRY_PER_TABLE = 512"

record page_table_node =
  node_base :: phys_addr

text \<open>\<open>table\<close>: the address of the first of the \<open>ENTRY_PER_TABLE\<close> entries of the slice.\<close>

definition node_table :: "page_table_node \<Rightarrow> usize result" where
  "node_table n =
     and_then (frame_from (node_base n)) (\<lambda>f.
     and_then (frame_get_base_phys_addr f) (\<lambda>pa. Ok (pa_as_usize pa)))"

definition table_get :: "usize \<Rightarrow> usize \<Rightarrow> usize option" where
  "table_get table index = (if index < ENTRY_PER_TABLE then Some (cell table index) else None)"

definition load_pte :: "pmem \<Rightarrow> usize \<Rightarrow> pte" where
  "load_pte m a = PTE (load_usize m a)"

definition store_pte :: "pmem \<Rightarrow> usize \<Rightarrow> pte \<Rightarrow> pmem" where
  "store_pte m a e = store_usize m a (pte_bits e)"

definition entry_at :: "page_table_node \<Rightarrow> usize \<Rightarrow> pmem \<Rightarrow> pte result" where
  "entry_at n index m =
     (if index > ENTRY_PER_TABLE then Panic (ExplicitPanic ''PageTableNode: invalid index'')
      else and_then (node_table n) (\<lambda>t.
           and_then (unwrap (table_get t index)) (\<lambda>a. Ok (load_pte m a))))"

definition set_entry :: "page_table_node \<Rightarrow> usize \<Rightarrow> pte \<Rightarrow> pmem \<Rightarrow> pmem result" where
  "set_entry n index entry m =
     (if index > ENTRY_PER_TABLE then Panic (ExplicitPanic ''PageTableNode: invalid index'')
      else and_then (node_table n) (\<lambda>t.
           case table_get t index of
             None \<Rightarrow> Panic IndexOutOfBounds
           | Some a \<Rightarrow> Ok (store_pte m a entry)))"

definition node_from_frame :: "frame \<Rightarrow> page_table_node result" where
  "node_from_frame f = and_then (frame_get_base_phys_addr f) (\<lambda>pa. Ok \<lparr>node_base = pa\<rparr>)"

section \<open>Page tables\<close>

record page_table_guard =
  root_node :: page_table_node
  node_frames :: "frame_guard list"

definition get_root_frame :: "page_table_guard \<Rightarrow> frame result" where
  "get_root_frame pt = frame_from_phys_addr (node_base (root_node pt))"

definition make_satp :: "page_table_guard \<Rightarrow> usize" where
  "make_satp pt =
     (let ptr = pa_as_usize (node_base (root_node pt));
          SATP_SV39 = push_bit 60 8
      in SATP_SV39 OR drop_bit 12 ptr)"

definition page_table_allocate :: "kstate \<Rightarrow> (page_table_guard \<times> kstate) result" where
  "page_table_allocate s =
     and_then (allocate_zeroed s) (\<lambda>(guard, s').
     and_then (inner_ref guard) (\<lambda>f.
     and_then (node_from_frame f) (\<lambda>root.
       Ok (\<lparr>root_node = root, node_frames = [guard]\<rparr>, s'))))"

definition allocate_node ::
  "page_table_guard \<Rightarrow> kstate \<Rightarrow> (frame \<times> page_table_guard \<times> kstate) result" where
  "allocate_node pt s =
     and_then (allocate_zeroed s) (\<lambda>(guard, s').
     and_then (get_frame guard) (\<lambda>frame.
       Ok (frame, pt\<lparr>node_frames := node_frames pt @ [guard]\<rparr>, s')))"

definition levels :: "usize list" where
  "levels = [2, 1, 0]"   \<comment> \<open>\<open>(0..=2).rev()\<close>\<close>

text \<open>The node an entry refers to, as a slice.\<close>

definition next_table :: "pte \<Rightarrow> usize result" where
  "next_table e =
     and_then (referencing_frame e) (\<lambda>f.
     and_then (node_from_frame f) (\<lambda>n. node_table n))"

fun find_loop :: "bitflags_ops \<Rightarrow> pmem \<Rightarrow> virt_addr \<Rightarrow> usize \<Rightarrow> usize list \<Rightarrow> usize option result" where
  "find_loop B m va table [] =
     Panic (ExplicitPanic ''internal error: entered unreachable code'')"
| "find_loop B m va table (level # ls) =
     and_then (pte_index va level) (\<lambda>index.
     and_then (expect ''PageTable::map: invalid entry index'' (table_get table index)) (\<lambda>pte.
       if level = 0 then Ok (Some pte)
       else and_then (is_valid B (load_pte m pte)) (\<lambda>v.
              if \<not> v then Ok None
              else and_then (next_table (load_pte m pte)) (\<lambda>t. find_loop B m va t ls))))"

definition find :: "bitflags_ops \<Rightarrow> page_table_guard \<Rightarrow> virt_addr \<Rightarrow> pmem \<Rightarrow> usize option result" where
  "find B pt va m = and_then (node_table (root_node pt)) (\<lambda>t. find_loop B m va t levels)"

definition pt_translate ::
  "bitflags_ops \<Rightarrow> page_table_guard \<Rightarrow> virt_addr \<Rightarrow> pmem \<Rightarrow> (phys_addr \<times> pte_flags) option result"
  where
  "pt_translate B pt va m =
     and_then (find B pt va m) (\<lambda>r.
       case r of
         None \<Rightarrow> Ok None
       | Some a \<Rightarrow>
           and_then (pte_get_flags B (load_pte m a)) (\<lambda>f.
             Ok (Some (pa_with_offset (referencing_address (load_pte m a)) (va_offset va), f))))"

text \<open>Filling an invalid interior entry with a new node.\<close>

definition fill_entry ::
  "bitflags_ops \<Rightarrow> usize \<Rightarrow> page_table_guard \<Rightarrow> kstate \<Rightarrow> (page_table_guard \<times> kstate) result" where
  "fill_entry B pte pt s =
     and_then (allocate_node pt s) (\<lambda>(frame, pt', s').
     and_then (frame_get_base_phys_addr frame) (\<lambda>node_pa.
     and_then (pte_new node_pa PTE_VALID) (\<lambda>e.
       let m' = store_pte (phys_mem s') pte e in
       and_then (rust_assert '''' (referencing_address (load_pte m' pte) = node_pa)) (\<lambda>_.
       and_then (pte_get_flags B (load_pte m' pte)) (\<lambda>f.
       and_then (rust_assert '''' (pte_flags_bits f = pte_flags_bits PTE_VALID)) (\<lambda>_.
         Ok (pt', s'\<lparr>phys_mem := m'\<rparr>)))))))"

fun find_allocate_loop ::
  "bitflags_ops \<Rightarrow> virt_addr \<Rightarrow> usize list \<Rightarrow> usize \<Rightarrow> page_table_guard \<Rightarrow> kstate
     \<Rightarrow> (usize \<times> page_table_guard \<times> kstate) result" where
  "find_allocate_loop B va [] table pt s =
     Panic (ExplicitPanic ''internal error: entered unreachable code'')"
| "find_allocate_loop B va (level # ls) table pt s =
     and_then (pte_index va level) (\<lambda>index.
     and_then (expect ''PageTable::map: invalid entry index'' (table_get table index)) (\<lambda>pte.
       if level = 0 then Ok (pte, pt, s)
       else
         and_then (is_valid B (load_pte (phys_mem s) pte)) (\<lambda>v.
         and_then (if \<not> v then fill_entry B pte pt s else Ok (pt, s)) (\<lambda>(pt', s').
         and_then (next_table (load_pte (phys_mem s') pte)) (\<lambda>t.
           find_allocate_loop B va ls t pt' s')))))"

definition find_allocate ::
  "bitflags_ops \<Rightarrow> page_table_guard \<Rightarrow> virt_addr \<Rightarrow> kstate
     \<Rightarrow> (usize \<times> page_table_guard \<times> kstate) result" where
  "find_allocate B pt va s =
     and_then (node_table (root_node pt)) (\<lambda>t. find_allocate_loop B va levels t pt s)"

definition map_one ::
  "bitflags_ops \<Rightarrow> page_table_guard \<Rightarrow> virt_addr \<Rightarrow> phys_addr \<Rightarrow> pte_flags \<Rightarrow> kstate
     \<Rightarrow> (unit option \<times> kstate) result" where
  "map_one B pt va pa flags s =
     and_then (find B pt va (phys_mem s)) (\<lambda>r.
       case r of
         None \<Rightarrow> Ok (None, s)
       | Some pte \<Rightarrow>
           let flags' = pte_flags_or B flags PTE_VALID in
           and_then (is_valid B (load_pte (phys_mem s) pte)) (\<lambda>v.
           and_then (rust_assert ''PageTable::map: overwritting original mapping!'' (\<not> v)) (\<lambda>_.
           and_then (pte_new pa flags') (\<lambda>e.
             Ok (Some (), s\<lparr>phys_mem := store_pte (phys_mem s) pte e\<rparr>)))))"

definition map_one_allocate ::
  "bitflags_ops \<Rightarrow> page_table_guard \<Rightarrow> virt_addr \<Rightarrow> phys_addr \<Rightarrow> pte_flags \<Rightarrow> kstate
     \<Rightarrow> (page_table_guard \<times> kstate) result" where
  "map_one_allocate B pt va pa flags s =
     and_then (find_allocate B pt va s) (\<lambda>(pte, pt', s').
       let flags' = pte_flags_or B flags PTE_VALID in
       and_then (is_valid B (load_pte (phys_mem s') pte)) (\<lambda>v.
       and_then (rust_assert ''PageTable::map: overwritting original mapping!'' (\<not> v)) (\<lambda>_.
       and_then (pte_new pa flags') (\<lambda>e.
         let m' = store_pte (phys_mem s') pte e in
         and_then (rust_assert '''' (referencing_address (load_pte m' pte) = pa)) (\<lambda>_.
         and_then (pte_get_flags B (load_pte m' pte)) (\<lambda>f.
         and_then (rust_assert '''' (pte_flags_bits f = pte_flags_bits flags')) (\<lambda>_.
           Ok (pt', s'\<lparr>phys_mem := m'\<rparr>))))))))"

section \<open>Areas\<close>

definition map_identical_page ::
  "bitflags_ops \<Rightarrow> pte_flags \<Rightarrow> virt_frame \<Rightarrow> page_table_guard \<times> kstate
     \<Rightarrow> (page_table_guard \<times> kstate) result" where
  "map_identical_page B flags v_frame st =
     and_then (get_base_virt_addr v_frame) (\<lambda>va.
       let pa = PhysAddr (va_as_usize va) in
       and_then (rust_assert '''' (va_as_usize va = pa_as_usize pa)) (\<lambda>_.
       and_then (rust_assert '''' (va_is_page_aligned va)) (\<lambda>_.
       and_then (rust_assert '''' (pa_is_page_aligned pa)) (\<lambda>_.
         map_one_allocate B (fst st) va pa flags (snd st)))))"

text \<open>Mapping one tracked frame at address \<open>pa\<close>.\<close>

definition map_tracked_page ::
  "bitflags_ops \<Rightarrow> pte_flags \<Rightarrow> virt_addr \<Rightarrow> phys_addr \<Rightarrow> page_table_guard \<times> kstate
     \<Rightarrow> (page_table_guard \<times> kstate) result" where
  "map_tracked_page B flags va pa st =
     and_then (rust_assert '''' (va_is_page_aligned va)) (\<lambda>_.
     and_then (rust_assert '''' (pa_is_page_aligned pa)) (\<lambda>_.
       map_one_allocate B (fst st) va pa flags (snd st)))"

fun map_tracked ::
  "bitflags_ops \<Rightarrow> pte_flags \<Rightarrow> virt_addr \<times> virt_frame_guard \<Rightarrow> page_table_guard \<times> kstate
     \<Rightarrow> (page_table_guard \<times> kstate) result" where
  "map_tracked B flags (va, ExclusivelyAllocated g) st =
     and_then (inner_ref g) (\<lambda>f.
     and_then (frame_get_base_phys_addr f) (\<lambda>pa. map_tracked_page B flags va pa st))"
| "map_tracked B flags (va, CowShared g n) st =
     Panic (ExplicitPanic ''kernel does not support copy-on-write at the moment...'')"
| "map_tracked B flags (va, PhysBorrowed f) st =
     and_then (frame_get_base_phys_addr f) (\<lambda>pa. map_tracked_page B flags va pa st)"

definition map_virt_area_allocate ::
  "bitflags_ops \<Rightarrow> virt_area \<Rightarrow> page_table_guard \<times> kstate \<Rightarrow> (page_table_guard \<times> kstate) result"
  where
  "map_virt_area_allocate B area st =
     (let flags = pte_flags_from (area_permissions area)
      in if is_identically_mapped area
         then for_virt_range (map_identical_page B flags) (into_iter (virt_frame_range area)) st
         else for_each (virt_frames area) (map_tracked B flags) st)"

text \<open>Checking one page against the table: a page with no leaf entry passes.\<close>

definition verify_page ::
  "bitflags_ops \<Rightarrow> page_table_guard \<Rightarrow> pte_flags \<Rightarrow> virt_addr \<Rightarrow> phys_addr \<Rightarrow> pmem \<Rightarrow> unit result"
  where
  "verify_page B pt flags va pa m =
     and_then (find B pt va m) (\<lambda>r.
       case r of
         None \<Rightarrow> Ok ()
       | Some pte \<Rightarrow>
           and_then (rust_assert ''address mismatch'' (referencing_address (load_pte m pte) = pa)) (\<lambda>_.
           and_then (pte_get_flags B (load_pte m pte)) (\<lambda>f.
             rust_assert ''flag mismatch'' (f = pte_flags_or B flags PTE_VALID))))"

fun verify_tracked ::
  "bitflags_ops \<Rightarrow> page_table_guard \<Rightarrow> pte_flags \<Rightarrow> pmem \<Rightarrow> virt_addr \<times> virt_frame_guard \<Rightarrow> unit result"
  where
  "verify_tracked B pt flags m (va, ExclusivelyAllocated g) =
     and_then (inner_ref g) (\<lambda>f.
     and_then (frame_get_base_phys_addr f) (\<lambda>pa. verify_page B pt flags va pa m))"
| "verify_tracked B pt flags m (va, CowShared g n) =
     Panic (ExplicitPanic ''kernel does not support copy-on-write at the moment...'')"
| "verify_tracked B pt flags m (va, PhysBorrowed f) =
     and_then (frame_get_base_phys_addr f) (\<lambda>pa. verify_page B pt flags va pa m)"

definition verify_virt_area_mapping ::
  "bitflags_ops \<Rightarrow> page_table_guard \<Rightarrow> virt_area \<Rightarrow> pmem \<Rightarrow> unit result" where
  "verify_virt_area_mapping B pt area m =
     (let flags = pte_flags_from (area_permissions area)
      in if is_identically_mapped area
         then for_virt_range
                (\<lambda>v_frame _. and_then (get_base_virt_addr v_frame) (\<lambda>va.
                   verify_page B pt flags va (PhysAddr (va_as_usize va)) m))
                (into_iter (virt_frame_range area)) ()
         else for_each (virt_frames area) (\<lambda>x _. verify_tracked B pt flags m x) ())"

text \<open>
  Locking and unlocking rewrite the flags of the leaf entries that map the node frames.  In
  \<open>lock_table\<close> the writable flag is removed with \<open>flags & !WRITABLE\<close>.
\<close>

definition relock_node ::
  "bitflags_ops \<Rightarrow> page_table_guard \<Rightarrow> (u16 \<Rightarrow> u16) \<Rightarrow> frame_guard \<Rightarrow> pmem \<Rightarrow> pmem result" where
  "relock_node B pt change guard m =
     and_then (get_frame guard) (\<lambda>f.
     and_then (frame_get_base_phys_addr f) (\<lambda>node_pa.
     and_then (find B pt (va_from_identical node_pa) m) (\<lambda>r.
     and_then (unwrap r) (\<lambda>pte.
     and_then (pte_get_flags B (load_pte m pte)) (\<lambda>flags.
     and_then (pte_new (referencing_address (load_pte m pte))
                 (PTEFlags (change (pte_flags_bits flags)))) (\<lambda>e.
       Ok (store_pte m pte e)))))))"

definition lock_table :: "bitflags_ops \<Rightarrow> page_table_guard \<Rightarrow> pmem \<Rightarrow> pmem result" where
  "lock_table B pt m =
     for_each (node_frames pt)
       (relock_node B pt
          (\<lambda>f. bf_and B f (bf_not B PTEFlags_all (pte_flags_bits PTE_WRITABLE)))) m"

definition unlock_table :: "bitflags_ops \<Rightarrow> page_table_guard \<Rightarrow> pmem \<Rightarrow> pmem result" where
  "unlock_table B pt m =
     for_each (node_frames pt)
       (relock_node B pt (\<lambda>f. bf_or B f (pte_flags_bits PTE_WRITABLE))) m"

text \<open>Dropping a page table drops its node frames, in order.\<close>

definition page_table_drop :: "page_table_guard \<Rightarrow> kstate \<Rightarrow> kstate result" where
  "page_table_drop pt s = for_each (node_frames pt) frame_guard_drop s"

end
