(* ===== verification/Page_Walk.thy ===== *)
theory Page_Walk
  imports Page_Table
begin

text \<open>
  The meaning of a page table in memory.  \<open>walk\<close> follows a path of indices from a node to the
  node it leads to; \<open>pt_shape\<close> says that the nodes form a tree inside a set of frames;
  \<open>pt_map\<close> is the finite map from virtual pages to valid leaf entries that the tree denotes.
  The two ways in which the code changes a table, linking a fresh node and writing a leaf, are
  shown to keep the shape; the first leaves the map as it is, the second updates it at one page.
\<close>

section \<open>Entries\<close>

text \<open>The flags \<open>from_bits\<close> accepts are the nine declared ones: an entry decodes unless bit 9 is set.\<close>

lemma PTEFlags_all_mask: "foldr (OR) PTEFlags_all 0 = (mask 9 :: u16)"
  by (simp add: PTEFlags_all_def PTE_VALID_def PTE_READABLE_def PTE_WRITABLE_def
      PTE_EXECUTABLE_def PTE_USER_def PTE_GLOBAL_def PTE_ACCESSED_def PTE_DIRTY_def PTE_COW_def
      mask_eq_decr_exp)

lemma pte_flags_raw: "push_bit 10 1 - 1 = (mask 10 :: usize)"
  by (simp add: mask_eq_decr_exp)

lemma flags_known_iff:
  "(ucast ((e :: usize) AND mask 10) :: u16) AND NOT (mask 9) = 0 \<longleftrightarrow> \<not> bit e 9"
    (is "?x = 0 \<longleftrightarrow> _")
proof -
  have *: "bit ?x n \<longleftrightarrow> n = 9 \<and> bit e 9" for n
    by (cases "n = 9") (auto simp: bit_simps)
  show ?thesis
  proof
    assume "?x = 0"
    then have "\<not> bit ?x 9" by simp
    with * show "\<not> bit e 9" by simp
  next
    assume "\<not> bit e 9"
    with * show "?x = 0" by (intro bit_word_eqI) simp
  qed
qed

lemma pte_flags_eq:
  assumes "bitflags_ok B"
  shows "pte_get_flags B (PTE e) =
    (if bit e 9 then Inl UnwrapNone else Inr (PTEFlags (ucast (e AND mask 10))))"
  unfolding pte_get_flags_def pte_flags_raw bitflags_okD(1) [OF assms] PTEFlags_all_mask Let_def
  by (simp add: flags_known_iff)

lemma pte_flags_Ok:
  assumes "bitflags_ok B" and "\<not> bit e 9"
  shows "pte_get_flags B (PTE e) = Inr (PTEFlags (ucast (e AND mask 10)))"
  using assms by (simp add: pte_flags_eq)

lemma and_one_eq: "(w :: 'a::len word) AND 1 = (if bit w 0 then 1 else 0)"
proof (rule bit_word_eqI)
  fix n
  show "bit (w AND 1) n = bit (if bit w 0 then 1 else 0 :: 'a word) n"
    by (cases "n = 0") (auto simp: bit_simps bit_1_iff)
qed

lemma is_valid_Ok:
  assumes "bitflags_ok B" and "\<not> bit e 9"
  shows "is_valid B (PTE e) = Inr (bit e 0)"
proof -
  have "(ucast (e AND mask 10) :: u16) AND 1 = 1 \<longleftrightarrow> bit e 0"
    by (auto simp: and_one_eq bit_simps)
  with assms show ?thesis
    by (simp add: is_valid_def pte_flags_Ok bitflags_okD PTE_VALID_def)
qed

lemma PTE2PA_aligned [simp]: "page_aligned (PTE2PA e)"
proof -
  have "PTE2PA e = page_of (PTE2PA e)"
    by (rule bit_word_eqI) (auto simp: PTE2PA_def page_of_def bit_simps)
  then show ?thesis by (metis page_of_aligned)
qed

lemma next_table_Ok [simp]: "next_table (PTE e) = Inr (PTE2PA e)"
  by (simp add: next_table_def referencing_frame_def referencing_address_def node_from_frame_def
      node_table_def page_aligned_page_of drop_bit_page_of)

lemma node_table_Ok [simp]: "node_table \<lparr>node_base = PhysAddr a\<rparr> = Inr (page_of a)"
  by (simp add: node_table_def)

text \<open>The entry for frame \<open>a\<close> with flags \<open>f\<close>.\<close>

definition entry_for :: "usize \<Rightarrow> u16 \<Rightarrow> usize" where
  "entry_for a f = push_bit 10 (drop_bit 12 a) OR ucast f"

lemma pte_new_Ok [simp]: "pte_new (PhysAddr a) (PTEFlags f) = Inr (PTE (entry_for a f))"
  by (simp add: pte_new_def make_entry_def entry_for_def)

text \<open>Flags that fit below the page number do not disturb it, and are read back.\<close>

lemma bit_small_flags:
  assumes "f AND NOT (mask 9) = (0 :: u16)" and "bit f n"
  shows "n < 9"
proof (rule ccontr)
  assume "\<not> n < 9"
  then have "bit (f AND NOT (mask 9)) n"
    using assms(2) bit_imp_le_length [OF assms(2)] by (simp add: bit_simps)
  with assms(1) show False by simp
qed

lemma PTE2PA_entry_for:
  assumes "f AND NOT (mask 9) = 0"
  shows "PTE2PA (entry_for a f) = page_of a"
proof (rule bit_word_eqI)
  fix n assume "n < LENGTH(64)"
  moreover have "\<not> bit f (n - 2)" if "12 \<le> n"
    using bit_small_flags [OF assms, of "n - 2"] that by auto
  ultimately show "bit (PTE2PA (entry_for a f)) n = bit (page_of a) n"
    by (auto simp: PTE2PA_def entry_for_def page_of_def bit_simps)
qed

lemma entry_for_flags:
  assumes "f AND NOT (mask 9) = 0"
  shows "(ucast (entry_for a f AND mask 10) :: u16) = f"
proof (rule bit_word_eqI)
  fix n assume "n < LENGTH(16)"
  then show "bit (ucast (entry_for a f AND mask 10) :: u16) n = bit f n"
    using bit_small_flags [OF assms, of n] by (auto simp: entry_for_def bit_simps)
qed

lemma bit_entry_for:
  assumes "n < 10"
  shows "bit (entry_for a f) n = bit f n"
  using assms by (auto simp: entry_for_def bit_simps)

lemma entry_for_bit9: "f AND NOT (mask 9) = 0 \<Longrightarrow> \<not> bit (entry_for a f) 9"
  using bit_small_flags [of f 9] by (auto simp: bit_entry_for)

section \<open>Paths\<close>

definition child :: "pmem \<Rightarrow> usize \<Rightarrow> usize \<Rightarrow> usize option" where
  "child m t i = (let e = load_usize m (cell t i) in if bit e 0 then Some (PTE2PA e) else None)"

fun walk :: "pmem \<Rightarrow> usize \<Rightarrow> usize list \<Rightarrow> usize option" where
  "walk m t [] = Some t"
| "walk m t (i # p) = (case child m t i of None \<Rightarrow> None | Some t' \<Rightarrow> walk m t' p)"

lemma walk_append:
  "walk m t (p @ q) = (case walk m t p of None \<Rightarrow> None | Some t' \<Rightarrow> walk m t' q)"
  by (induction p arbitrary: t) (auto split: option.split)

lemma walk_snoc:
  "walk m t (p @ [i]) = (case walk m t p of None \<Rightarrow> None | Some t' \<Rightarrow> child m t' i)"
  by (auto simp: walk_append split: option.split)

text \<open>The paths to nodes: at most two indices, each below 512.\<close>

definition node_path :: "usize list \<Rightarrow> bool" where
  "node_path p \<longleftrightarrow> length p \<le> 2 \<and> (\<forall>i \<in> set p. unat i < 512)"

lemma node_path_Nil [simp]: "node_path []"
  by (simp add: node_path_def)

lemma node_path_snocD: "node_path (p @ [i]) \<Longrightarrow> node_path p \<and> unat i < 512 \<and> length p \<le> 1"
  by (auto simp: node_path_def)

text \<open>An entry that the hardware reads as empty or as a pointer to the next node, not as a leaf.\<close>

definition pointer_entry :: "usize \<Rightarrow> bool" where
  "pointer_entry e \<longleftrightarrow> (bit e 0 \<longrightarrow> e = entry_for (PTE2PA e) 1)"

lemma pointer_entry_simps [simp]: "pointer_entry 0" "pointer_entry (entry_for a 1)"
proof -
  have "PTE2PA (entry_for a 1) = page_of a"
    by (rule PTE2PA_entry_for) (simp add: mask_eq_exp_minus_1)
  moreover have "entry_for (page_of a) 1 = entry_for a 1"
    by (simp add: entry_for_def drop_bit_page_of)
  ultimately show "pointer_entry (entry_for a 1)" by (simp add: pointer_entry_def)
qed (simp add: pointer_entry_def)

definition pt_shape :: "pmem \<Rightarrow> usize \<Rightarrow> usize set \<Rightarrow> bool" where
  "pt_shape m root N \<longleftrightarrow>
     root \<in> N \<and> (\<forall>t \<in> N. page_aligned t) \<and>
     (\<forall>p t. node_path p \<longrightarrow> walk m root p = Some t \<longrightarrow> t \<in> N) \<and>
     (\<forall>p q t. node_path p \<longrightarrow> node_path q \<longrightarrow> walk m root p = Some t \<longrightarrow>
        walk m root q = Some t \<longrightarrow> p = q) \<and>
     (\<forall>t \<in> N. \<forall>i. unat i < 512 \<longrightarrow> \<not> bit (load_usize m (cell t i)) 9) \<and>
     (\<forall>p t i. node_path p \<longrightarrow> length p \<le> 1 \<longrightarrow> walk m root p = Some t \<longrightarrow> unat i < 512 \<longrightarrow>
        pointer_entry (load_usize m (cell t i)))"

lemma pt_shapeD:
  assumes "pt_shape m root N"
  shows "root \<in> N" and "t \<in> N \<Longrightarrow> page_aligned t"
    and "node_path p \<Longrightarrow> walk m root p = Some t \<Longrightarrow> t \<in> N"
    and "node_path p \<Longrightarrow> node_path q \<Longrightarrow> walk m root p = Some t \<Longrightarrow> walk m root q = Some t \<Longrightarrow> p = q"
    and "t \<in> N \<Longrightarrow> unat i < 512 \<Longrightarrow> \<not> bit (load_usize m (cell t i)) 9"
    and "node_path p \<Longrightarrow> length p \<le> 1 \<Longrightarrow> walk m root p = Some t \<Longrightarrow> unat i < 512 \<Longrightarrow>
      pointer_entry (load_usize m (cell t i))"
  using assms unfolding pt_shape_def by blast+

lemma pt_shapeI:
  assumes "root \<in> N" and "\<And>t. t \<in> N \<Longrightarrow> page_aligned t"
    and "\<And>p t. node_path p \<Longrightarrow> walk m root p = Some t \<Longrightarrow> t \<in> N"
    and "\<And>p q t. node_path p \<Longrightarrow> node_path q \<Longrightarrow> walk m root p = Some t \<Longrightarrow>
      walk m root q = Some t \<Longrightarrow> p = q"
    and "\<And>t i. t \<in> N \<Longrightarrow> unat i < 512 \<Longrightarrow> \<not> bit (load_usize m (cell t i)) 9"
    and "\<And>p t i. node_path p \<Longrightarrow> length p \<le> 1 \<Longrightarrow> walk m root p = Some t \<Longrightarrow> unat i < 512 \<Longrightarrow>
      pointer_entry (load_usize m (cell t i))"
  shows "pt_shape m root N"
  using assms unfolding pt_shape_def by blast

text \<open>The path of a virtual address to its leaf node, and the address of its leaf entry.\<close>

definition va_path :: "usize \<Rightarrow> usize list" where
  "va_path a = [vpn_index a 2, vpn_index a 1]"

lemma node_path_va [simp]: "node_path (va_path a)"
  by (simp add: node_path_def va_path_def unat_vpn_index)

lemma length_va_path [simp]: "length (va_path a) = 2"
  by (simp add: va_path_def)

definition leaf_addr :: "pmem \<Rightarrow> usize \<Rightarrow> usize \<Rightarrow> usize option" where
  "leaf_addr m root a = map_option (\<lambda>t. cell t (vpn_index a 0)) (walk m root (va_path a))"

definition pt_map :: "pmem \<Rightarrow> usize \<Rightarrow> usize \<Rightarrow> usize option" where
  "pt_map m root a =
     (case leaf_addr m root a of
        None \<Rightarrow> None
      | Some c \<Rightarrow> if bit (load_usize m c) 0 then Some (load_usize m c) else None)"

text \<open>Virtual addresses with the same three indices are in the same page.\<close>

definition same_page :: "usize \<Rightarrow> usize \<Rightarrow> bool" where
  "same_page a b \<longleftrightarrow> va_path a = va_path b \<and> vpn_index a 0 = vpn_index b 0"

lemma pt_map_same_page: "same_page a b \<Longrightarrow> pt_map m root a = pt_map m root b"
  by (simp add: same_page_def pt_map_def leaf_addr_def)

section \<open>Writing a leaf\<close>

lemma walk_store_leaf:
  assumes sh: "pt_shape m root N" and lf: "walk m root p = Some t" "node_path p" "length p = 2"
    and i: "unat i < 512" and q: "node_path q"
  shows "walk (store_usize m (cell t i) e) root q = walk m root q"
  using q
proof (induction q rule: rev_induct)
  case Nil
  then show ?case by simp
next
  case (snoc j q)
  note jq = node_path_snocD [OF snoc.prems]
  have t: "page_aligned t"
    using pt_shapeD(2,3) [OF sh] lf by blast
  show ?case
  proof (cases "walk m root q")
    case None
    with snoc jq show ?thesis by (simp add: walk_snoc)
  next
    case (Some u)
    have "t \<noteq> u"
      using pt_shapeD(4) [OF sh lf(2) _ lf(1)] Some jq lf(3) by fastforce
    moreover have "page_aligned u"
      using pt_shapeD(2,3) [OF sh] Some jq by blast
    ultimately have "load_usize (store_usize m (cell t i) e) (cell u j) = load_usize m (cell u j)"
      using t i jq by (intro load_store_cell) auto
    with snoc.IH jq Some show ?thesis
      by (simp add: walk_snoc child_def)
  qed
qed

lemma load_store_node:
  assumes "pt_shape m root N" and "t \<in> N" "u \<in> N" "unat i < 512" "unat j < 512"
  shows "load_usize (store_usize m (cell t i) e) (cell u j) =
     (if t = u \<and> i = j then e else load_usize m (cell u j))"
proof (cases "t = u \<and> i = j")
  case True
  then show ?thesis by simp
next
  case False
  then show ?thesis
    using assms pt_shapeD(2) [OF assms(1)] by (subst load_store_cell) auto
qed

lemma store_leaf_shape:
  assumes sh: "pt_shape m root N" and lf: "walk m root p = Some t" "node_path p" "length p = 2"
    and i: "unat i < 512" and e: "\<not> bit e 9"
  shows "pt_shape (store_usize m (cell t i) e) root N"
proof -
  have t: "t \<in> N"
    using pt_shapeD(3) [OF sh] lf by blast
  have w: "node_path q \<Longrightarrow> walk (store_usize m (cell t i) e) root q = walk m root q" for q
    using walk_store_leaf [OF sh lf i] .
  have "\<not> bit (load_usize (store_usize m (cell t i) e) (cell u j)) 9"
    if "u \<in> N" "unat j < 512" for u j
    using load_store_node [OF sh t that(1) i that(2), of e] pt_shapeD(5) [OF sh that] e by auto
  moreover have "pointer_entry (load_usize (store_usize m (cell t i) e) (cell u j))"
    if "node_path q" "length q \<le> 1" "walk m root q = Some u" "unat j < 512" for q u j
  proof -
    have "u \<in> N" and "t \<noteq> u"
      using pt_shapeD(3) [OF sh that(1,3)] pt_shapeD(4) [OF sh lf(2) that(1) lf(1)] that(2,3) lf(3) by auto
    then show ?thesis
      using load_store_node [OF sh t _ i that(4), of u e] pt_shapeD(6) [OF sh that] by simp
  qed
  ultimately show ?thesis
    using pt_shapeD [OF sh] by (intro pt_shapeI) (simp_all add: w)
qed

lemma store_leaf_map:
  assumes sh: "pt_shape m root N" and lf: "walk m root (va_path a) = Some t" and e: "bit e 0"
  shows "pt_map (store_usize m (cell t (vpn_index a 0)) e) root b =
     (if same_page a b then Some e else pt_map m root b)"
proof -
  let ?m = "store_usize m (cell t (vpn_index a 0)) e"
  have w: "walk ?m root (va_path b) = walk m root (va_path b)"
    by (rule walk_store_leaf [OF sh lf]) (simp_all add: unat_vpn_index)
  show ?thesis
  proof (cases "walk m root (va_path b)")
    case None
    then have "\<not> same_page a b"
      using lf by (auto simp: same_page_def)
    with None w show ?thesis by (simp add: pt_map_def leaf_addr_def)
  next
    case (Some u)
    have "t \<in> N" and "u \<in> N"
      using pt_shapeD(3) [OF sh] lf Some by (meson node_path_va)+
    then have ld: "load_usize ?m (cell u (vpn_index b 0)) =
        (if t = u \<and> vpn_index a 0 = vpn_index b 0 then e else load_usize m (cell u (vpn_index b 0)))"
      by (intro load_store_node [OF sh] unat_vpn_index)
    have tu: "t = u \<longleftrightarrow> va_path a = va_path b"
    proof
      assume "t = u"
      with Some show "va_path a = va_path b"
        using pt_shapeD(4) [OF sh node_path_va node_path_va lf, of b] by simp
    next
      assume "va_path a = va_path b"
      with lf Some show "t = u" by simp
    qed
    have lhs: "pt_map ?m root b = (let x = load_usize ?m (cell u (vpn_index b 0)) in
        if bit x 0 then Some x else None)"
      using w Some by (simp add: pt_map_def leaf_addr_def)
    have rhs: "pt_map m root b = (let x = load_usize m (cell u (vpn_index b 0)) in
        if bit x 0 then Some x else None)"
      using Some by (simp add: pt_map_def leaf_addr_def)
    show ?thesis
      unfolding lhs rhs ld same_page_def tu using e by simp
  qed
qed

section \<open>Linking a fresh node\<close>

lemma load_zeroed_other:
  assumes "page_aligned a" "page_aligned u" "u \<noteq> a" "unat j < 512"
  shows "load_usize (store_bytes 4096 f a m) (cell u j) = load_usize m (cell u j)"
proof (rule load_usize_cong)
  fix k :: nat assume "k < 8"
  then have "page_of (cell u j + of_nat k) = u"
    using assms by (intro page_of_cell_byte)
  with assms show "store_bytes 4096 f a m (cell u j + of_nat k) = m (cell u j + of_nat k)"
    by (intro store_bytes_page) auto
qed

lemma load_zeroed:
  assumes "page_aligned a" "unat j < 512"
  shows "load_usize (store_bytes 4096 (\<lambda>_. 0) a m) (cell a j) = 0"
proof (rule load_usize_zero)
  fix k :: nat assume k: "k < 8"
  have d: "cell a j + of_nat k - a = of_nat (8 * unat j + k)"
    unfolding cell_byte(1) [OF assms k] by simp
  have "unat (of_nat (8 * unat j + k) :: usize) < 4096"
    using cell_byte(2) [OF assms k] by (subst unat_of_nat_small) auto
  then show "store_bytes 4096 (\<lambda>_. 0) a m (cell a j + of_nat k) = 0"
    using store_bytes_eq [of 4096 "\<lambda>_. 0" a m "cell a j + of_nat k"] unfolding d by simp
qed

text \<open>Zero the frame \<open>a\<close>, then let entry \<open>i\<close> of node \<open>t\<close> refer to it.\<close>

definition link_node :: "pmem \<Rightarrow> usize \<Rightarrow> usize \<Rightarrow> usize \<Rightarrow> pmem" where
  "link_node m t i a = store_usize (store_bytes 4096 (\<lambda>_. 0) a m) (cell t i) (entry_for a 1)"

lemma link_node_load:
  assumes "page_aligned t" "unat i < 512" "page_aligned a" "t \<noteq> a" "unat j < 512"
  shows "load_usize (link_node m t i a) (cell a j) = 0"
    and "page_aligned u \<Longrightarrow> u \<noteq> a \<Longrightarrow> load_usize (link_node m t i a) (cell u j) =
       (if u = t \<and> j = i then entry_for a 1 else load_usize m (cell u j))"
proof -
  show "load_usize (link_node m t i a) (cell a j) = 0"
    unfolding link_node_def using assms by (subst load_store_cell) (auto simp: load_zeroed)
  assume u: "page_aligned u" "u \<noteq> a"
  show "load_usize (link_node m t i a) (cell u j) =
       (if u = t \<and> j = i then entry_for a 1 else load_usize m (cell u j))"
  proof (cases "u = t \<and> j = i")
    case True
    then show ?thesis by (simp add: link_node_def)
  next
    case False
    then show ?thesis
      unfolding link_node_def using assms u
      by (subst load_store_cell) (auto simp: load_zeroed_other)
  qed
qed

lemma entry_for_1 [simp]: "bit (entry_for a 1) 0" "\<not> bit (entry_for a 1) 9"
  by (simp_all add: bit_entry_for bit_1_iff)

lemma PTE2PA_entry_for_1 [simp]: "page_aligned a \<Longrightarrow> PTE2PA (entry_for a 1) = a"
proof -
  have "(1 :: u16) AND NOT (mask 9) = 0"
    by (simp add: mask_eq_decr_exp)
  then show "page_aligned a \<Longrightarrow> PTE2PA (entry_for a 1) = a"
    by (simp add: PTE2PA_entry_for page_aligned_page_of)
qed

lemma walk_link:
  assumes sh: "pt_shape m root N" and p: "walk m root p = Some t" "node_path p" "unat i < 512"
    and inv: "child m t i = None" and a: "page_aligned a" "a \<notin> N" and q: "node_path q"
  shows "walk (link_node m t i a) root q = (if q = p @ [i] then Some a else walk m root q)"
  using q
proof (induction q rule: rev_induct)
  case Nil
  then show ?case by simp
next
  case (snoc j q)
  note jq = node_path_snocD [OF snoc.prems]
  have IH: "walk (link_node m t i a) root q = (if q = p @ [i] then Some a else walk m root q)"
    using snoc.IH jq by blast
  have t: "t \<in> N" "page_aligned t" "t \<noteq> a"
    using pt_shapeD(2,3) [OF sh] p a by blast+
  note ld = link_node_load [OF t(2) p(3) a(1) t(3)]
  show ?case
  proof (cases "q = p @ [i]")
    case True
    have "walk m root q = None"
      using True p inv by (simp add: walk_snoc)
    then have "walk m root (q @ [j]) = None"
      by (simp add: walk_snoc)
    moreover have "child (link_node m t i a) a j = None"
      using jq by (simp add: child_def ld(1))
    moreover have "walk (link_node m t i a) root q = Some a"
      using True IH by simp
    ultimately show ?thesis
      using True by (simp only: walk_snoc) simp
  next
    case False
    show ?thesis
    proof (cases "walk m root q")
      case None
      with p have "q \<noteq> p" by auto
      with None False IH show ?thesis by (simp add: walk_snoc)
    next
      case (Some u)
      have u: "u \<in> N" "page_aligned u" "u \<noteq> a"
        using pt_shapeD(2,3) [OF sh] Some jq a by blast+
      have "u = t \<longleftrightarrow> q = p"
        using pt_shapeD(4) [OF sh _ p(2) _ p(1), of q] Some jq p(1) by auto
      moreover have "child (link_node m t i a) u j = (if u = t \<and> j = i then Some a else child m u j)"
        using jq u a(1) by (simp add: child_def ld(2))
      ultimately show ?thesis
        using False IH Some by (simp add: walk_snoc)
    qed
  qed
qed

lemma link_shape:
  assumes sh: "pt_shape m root N" and p: "walk m root p = Some t" "node_path p" "unat i < 512"
    "length p \<le> 1" and inv: "child m t i = None" and a: "page_aligned a" "a \<notin> N"
  shows "pt_shape (link_node m t i a) root (insert a N)"
proof -
  note w = walk_link [OF sh p(1,2,3) inv a]
  have t: "t \<in> N" "page_aligned t" "t \<noteq> a"
    using pt_shapeD(2,3) [OF sh] p a by blast+
  note ld = link_node_load [OF t(2) p(3) a(1) t(3)]
  show ?thesis
  proof (rule pt_shapeI)
    show "root \<in> insert a N" and "u \<in> insert a N \<Longrightarrow> page_aligned u" for u
      using pt_shapeD(1,2) [OF sh] a by auto
    show "u \<in> insert a N" if "node_path q" "walk (link_node m t i a) root q = Some u" for q u
      using that pt_shapeD(3) [OF sh that(1)] by (auto simp: w split: if_splits)
    show "q = r" if "node_path q" "node_path r" "walk (link_node m t i a) root q = Some u"
      "walk (link_node m t i a) root r = Some u" for q r u
      using that pt_shapeD(3,4) [OF sh] a(2) by (auto simp: w split: if_splits)
    show "\<not> bit (load_usize (link_node m t i a) (cell u j)) 9"
      if "u \<in> insert a N" "unat j < 512" for u j
      using that pt_shapeD(2,5) [OF sh] a(2) ld [OF that(2)] by (cases "u = a") auto
    show "pointer_entry (load_usize (link_node m t i a) (cell u j))"
      if "node_path q" "length q \<le> 1" "walk (link_node m t i a) root q = Some u" "unat j < 512" for q u j
    proof (cases "u = a")
      case False
      then have "walk m root q = Some u" using that(1,3) by (auto simp: w split: if_splits)
      then show ?thesis
        using ld(2) [OF that(4), of u] pt_shapeD(2,3) [OF sh] pt_shapeD(6) [OF sh that(1,2) _ that(4)] that(1) False
        by auto
    qed (use ld(1) [OF that(4)] in simp)
  qed
qed

lemma link_map:
  assumes sh: "pt_shape m root N" and p: "walk m root p = Some t" "node_path p" "unat i < 512"
    "length p \<le> 1" and inv: "child m t i = None" and a: "page_aligned a" "a \<notin> N"
  shows "pt_map (link_node m t i a) root b = pt_map m root b"
proof -
  note w = walk_link [OF sh p(1,2,3) inv a node_path_va, of b]
  have t: "t \<in> N" "page_aligned t" "t \<noteq> a"
    using pt_shapeD(2,3) [OF sh] p a by blast+
  note ld = link_node_load [OF t(2) p(3) a(1) t(3) unat_vpn_index [of b 0]]
  show ?thesis
  proof (cases "va_path b = p @ [i]")
    case True
    moreover have "walk m root (p @ [i]) = None"
      using p inv by (simp add: walk_snoc)
    ultimately show ?thesis
      using w ld(1) by (simp add: pt_map_def leaf_addr_def)
  next
    case False
    show ?thesis
    proof (cases "walk m root (va_path b)")
      case None
      with False w show ?thesis by (simp add: pt_map_def leaf_addr_def)
    next
      case (Some u)
      have "va_path b \<noteq> p"
        using p(4) by (auto dest: arg_cong [where f = length])
      then have "u \<noteq> t"
        using pt_shapeD(4) [OF sh node_path_va p(2) _ p(1), of b] Some by auto
      moreover have "u \<in> N" "page_aligned u" "u \<noteq> a"
        using pt_shapeD(2,3) [OF sh] Some a by (meson node_path_va)+
      ultimately show ?thesis
        using False w Some ld(2) [of u] by (simp add: pt_map_def leaf_addr_def)
    qed
  qed
qed

lemma fresh_root_shape:
  assumes "page_aligned a"
  shows "pt_shape (store_bytes 4096 (\<lambda>_. 0) a m) a {a}"
    and "pt_map (store_bytes 4096 (\<lambda>_. 0) a m) a b = None"
    and "node_path p \<Longrightarrow> walk (store_bytes 4096 (\<lambda>_. 0) a m) a p = (if p = [] then Some a else None)"
proof -
  let ?m = "store_bytes 4096 (\<lambda>_. 0) a m"
  have c: "child ?m a j = None" if "unat j < 512" for j
    using load_zeroed [OF assms that] by (simp add: child_def)
  have w: "node_path q \<Longrightarrow> walk ?m a q = (if q = [] then Some a else None)" for q
    using c by (cases q) (auto simp: node_path_def)
  show "node_path p \<Longrightarrow> walk ?m a p = (if p = [] then Some a else None)"
    by (rule w)
  show "pt_shape ?m a {a}"
    using assms by (intro pt_shapeI) (auto simp: w load_zeroed split: if_splits)
  show "pt_map ?m a b = None"
    using w [OF node_path_va, of b] by (auto simp: pt_map_def leaf_addr_def dest: arg_cong [where f = length])
qed

end
