(* ===== verification/Page_Map.thy ===== *)
theory Page_Map
  imports Page_Walk
begin

text \<open>
  The page table operations against the map they implement.  \<open>pt_inv\<close> is the invariant of a
  page table in a state: its nodes are distinct frames in use that form a tree.  Every operation
  keeps it; \<open>find_allocate\<close> leaves the map of the table unchanged, \<open>map_one_allocate\<close> adds one
  page, and nothing outside the nodes of the table is written.
\<close>

section \<open>The invariant\<close>

definition guard_addr :: "frame_guard \<Rightarrow> usize" where
  "guard_addr g = (case guard_inner g of None \<Rightarrow> 0 | Some f \<Rightarrow> push_bit 12 (frame_number f))"

definition node_addrs :: "page_table_guard \<Rightarrow> usize list" where
  "node_addrs pt = map guard_addr (node_frames pt)"

definition pt_root :: "page_table_guard \<Rightarrow> usize" where
  "pt_root pt = pa_as_usize (node_base (root_node pt))"

definition pt_inv :: "kstate \<Rightarrow> page_table_guard \<Rightarrow> bool" where
  "pt_inv s pt \<longleftrightarrow>
     kstate_wf s \<and> node_frames pt = map guard_at (node_addrs pt) \<and> distinct (node_addrs pt) \<and>
     set (node_addrs pt) \<subseteq> kused s \<and>
     pt_shape (phys_mem s) (pt_root pt) (set (node_addrs pt))"

abbreviation kmap :: "kstate \<Rightarrow> page_table_guard \<Rightarrow> usize \<Rightarrow> usize option" where
  "kmap s pt \<equiv> pt_map (phys_mem s) (pt_root pt)"

lemma guard_addr_at [simp]: "page_aligned a \<Longrightarrow> guard_addr (guard_at a) = a"
  by (simp add: guard_addr_def guard_at_def push_bit_drop_bit_page page_aligned_page_of)

lemma pt_invD:
  assumes "pt_inv s pt"
  shows "kstate_wf s" and "node_frames pt = map guard_at (node_addrs pt)"
    and "distinct (node_addrs pt)" and "set (node_addrs pt) \<subseteq> kused s"
    and "pt_shape (phys_mem s) (pt_root pt) (set (node_addrs pt))"
  using assms by (simp_all add: pt_inv_def)

lemma root_node_eq: "root_node pt = \<lparr>node_base = PhysAddr (pt_root pt)\<rparr>"
  by (simp add: pt_root_def)

lemma pt_root_table:
  assumes "pt_inv s pt"
  shows "node_table (root_node pt) = Inr (pt_root pt)"
proof -
  have "page_aligned (pt_root pt)"
    using pt_shapeD(1,2) [OF pt_invD(5) [OF assms]] by blast
  then show ?thesis
    by (simp add: root_node_eq page_aligned_page_of del: node_table_Ok)
       (simp add: page_aligned_page_of)
qed

text \<open>What an operation that may add nodes does to the rest of the state.\<close>

definition pt_grows :: "kstate \<Rightarrow> page_table_guard \<Rightarrow> kstate \<Rightarrow> page_table_guard \<Rightarrow> bool" where
  "pt_grows s pt s' pt' \<longleftrightarrow>
     pt_root pt' = pt_root pt \<and> same_heap (FRAME_ALLOCATOR s) (FRAME_ALLOCATOR s') \<and>
     (\<exists>new. node_addrs pt' = node_addrs pt @ new \<and> distinct new \<and>
        set new \<subseteq> kfree s \<and> kfree s' = kfree s - set new \<and> kused s' = kused s \<union> set new) \<and>
     (\<forall>x. page_of x \<notin> set (node_addrs pt') \<longrightarrow> phys_mem s' x = phys_mem s x)"

lemma pt_grows_refl [simp]: "pt_grows s pt s pt"
  by (simp add: pt_grows_def same_heap_def)

lemma pt_grows_trans:
  assumes "pt_grows s pt s' pt'" and "pt_grows s' pt' s'' pt''"
  shows "pt_grows s pt s'' pt''"
proof -
  obtain new new' where
    n: "node_addrs pt' = node_addrs pt @ new" "distinct new"
      "set new \<subseteq> kfree s" "kfree s' = kfree s - set new" "kused s' = kused s \<union> set new" and
    n': "node_addrs pt'' = node_addrs pt' @ new'" "distinct new'"
      "set new' \<subseteq> kfree s'" "kfree s'' = kfree s' - set new'" "kused s'' = kused s' \<union> set new'"
    using assms unfolding pt_grows_def by blast
  have "\<exists>ns. node_addrs pt'' = node_addrs pt @ ns \<and> distinct ns \<and>
      set ns \<subseteq> kfree s \<and> kfree s'' = kfree s - set ns \<and> kused s'' = kused s \<union> set ns"
    using n n' by (intro exI [of _ "new @ new'"]) auto
  moreover have "pt_root pt'' = pt_root pt" "same_heap (FRAME_ALLOCATOR s) (FRAME_ALLOCATOR s'')"
    using assms by (auto simp: pt_grows_def same_heap_def)
  moreover have "phys_mem s'' x = phys_mem s x" if "page_of x \<notin> set (node_addrs pt'')" for x
    using assms that n'(1) unfolding pt_grows_def by auto
  ultimately show ?thesis
    unfolding pt_grows_def by blast
qed

text \<open>
  The paths that lead to a node.  Every node added uses up one free frame, so the number of
  free frames and of paths together is constant, and mapping a page succeeds when the paths
  it needs fit into that budget.
\<close>

definition node_paths :: "pmem \<Rightarrow> usize \<Rightarrow> usize list set" where
  "node_paths m root = {p. node_path p \<and> walk m root p \<noteq> None}"

abbreviation kpaths :: "kstate \<Rightarrow> page_table_guard \<Rightarrow> usize list set" where
  "kpaths s pt \<equiv> node_paths (phys_mem s) (pt_root pt)"

definition pt_budget :: "kstate \<Rightarrow> page_table_guard \<Rightarrow> nat" where
  "pt_budget s pt = card (kfree s) + card (kpaths s pt)"

definition paths_of :: "usize \<Rightarrow> usize list set" where
  "paths_of a = {[], [vpn_index a 2], va_path a}"

lemma finite_node_path: "finite {p. node_path p}"
proof -
  have "{p. node_path p} \<subseteq> {p. set p \<subseteq> UNIV \<and> length p \<le> 2}"
    by (auto simp: node_path_def)
  then show ?thesis
    by (rule finite_subset) (intro finite_lists_length_le finite)
qed

lemma finite_node_paths [simp]: "finite (node_paths m root)"
  by (rule finite_subset [OF _ finite_node_path]) (auto simp: node_paths_def)

lemma finite_paths_of [simp]: "finite (paths_of a)"
  by (simp add: paths_of_def)

lemma Nil_node_paths [simp]: "[] \<in> node_paths m root"
  by (simp add: node_paths_def)

lemma node_paths_prefix: "p @ [i] \<in> node_paths m root \<Longrightarrow> p \<in> node_paths m root"
  by (auto simp: node_paths_def node_path_def walk_snoc split: option.splits)

lemma card_free_remove: "a \<in> kfree s \<Longrightarrow> card (kfree s) = Suc (card (kfree s - {a}))"
  by (metis card_Suc_Diff1 finite_free_pages)

section \<open>Finding an entry\<close>

lemma table_get_Ok [simp]: "unat i < 512 \<Longrightarrow> table_get t i = Some (cell t i)"
  by (simp add: table_get_def ENTRY_PER_TABLE_def word_less_nat_alt)

lemma find_loop_step:
  assumes "bitflags_ok B" and "pt_shape m root N" and "t \<in> N" and "l = 1 \<or> l = 2"
  shows "find_loop B m (VirtAddr a) t (l # ls) =
     (case child m t (vpn_index a (unat l)) of
        None \<Rightarrow> Inr None | Some t' \<Rightarrow> find_loop B m (VirtAddr a) t' ls)"
proof -
  have "is_valid B (PTE (load_usize m (cell t (vpn_index a (unat l))))) =
      Inr (bit (load_usize m (cell t (vpn_index a (unat l)))) 0)"
    using pt_shapeD(5) [OF assms(2,3) unat_vpn_index] assms(1) by (intro is_valid_Ok) auto
  with assms(4) show ?thesis
    by (auto simp: pte_index_Ok unat_vpn_index load_pte_def child_def)
qed

lemma find_loop_leaf:
  "find_loop B m (VirtAddr a) t [0] = Inr (Some (cell t (vpn_index a 0)))"
  by (simp add: pte_index_Ok unat_vpn_index)

lemma find_char:
  assumes "bitflags_ok B" and "pt_inv s pt"
  shows "find B pt (VirtAddr a) (phys_mem s) = Inr (leaf_addr (phys_mem s) (pt_root pt) a)"
proof -
  let ?m = "phys_mem s" and ?r = "pt_root pt" and ?N = "set (node_addrs pt)"
  note sh = pt_invD(5) [OF assms(2)]
  note step = find_loop_step [OF assms(1) sh]
  have r: "?r \<in> ?N" using pt_shapeD(1) [OF sh] .
  have "find B pt (VirtAddr a) ?m = find_loop B ?m (VirtAddr a) ?r [2, 1, 0]"
    by (simp add: find_def levels_def pt_root_table [OF assms(2)] del: find_loop.simps)
  also have "\<dots> = Inr (leaf_addr ?m ?r a)"
  proof (cases "child ?m ?r (vpn_index a 2)")
    case None
    then show ?thesis
      using step [OF r, of 2] by (simp add: leaf_addr_def va_path_def del: find_loop.simps)
  next
    case (Some t)
    have "t \<in> ?N"
      using pt_shapeD(3) [OF sh, of "[vpn_index a 2]" t] Some
      by (simp add: node_path_def unat_vpn_index)
    with Some show ?thesis
      using step [OF r, of 2] step [of t 1]
      by (auto simp: leaf_addr_def va_path_def find_loop_leaf simp del: find_loop.simps
          split: option.split)
  qed
  finally show ?thesis .
qed

section \<open>Finding an entry, adding nodes\<close>

text \<open>A missing node is allocated, zeroed and linked.\<close>

lemma fill_entry_spec:
  assumes B: "bitflags_ok B" and inv: "pt_inv s pt" and free: "kfree s \<noteq> {}"
    and p: "walk (phys_mem s) (pt_root pt) p = Some t" "node_path p" "length p \<le> 1"
    and i: "unat i < 512" and miss: "child (phys_mem s) t i = None"
  shows "\<exists>a s' pt'. fill_entry B (cell t i) pt s = Inr (pt', s') \<and> page_aligned a \<and>
     a \<notin> set (node_addrs pt) \<and> phys_mem s' = link_node (phys_mem s) t i a \<and>
     a \<in> kfree s \<and> kfree s' = kfree s - {a} \<and> pt_inv s' pt' \<and> pt_grows s pt s' pt'"
proof -
  note sh = pt_invD(5) [OF inv]
  from allocate_zeroed_spec [OF pt_invD(1) [OF inv] free]
  obtain a s1 where al: "allocate_zeroed s = Inr (guard_at a, s1)" "a \<in> kfree s" "page_aligned a"
    "kfree s1 = kfree s - {a}" "kused s1 = insert a (kused s)" "kstate_wf s1"
    "same_heap (FRAME_ALLOCATOR s) (FRAME_ALLOCATOR s1)"
    "phys_mem s1 = store_bytes 4096 (\<lambda>_. 0) a (phys_mem s)"
    by blast
  have fresh: "a \<notin> kused s"
    using al(2) free_used_disjoint pt_invD(1) [OF inv] by (auto simp: kstate_wf_def)
  then have aN: "a \<notin> set (node_addrs pt)"
    using pt_invD(4) [OF inv] by auto
  have tN: "t \<in> set (node_addrs pt)" and t: "page_aligned t"
    using pt_shapeD(2,3) [OF sh] p by blast+
  let ?pt = "pt\<lparr>node_frames := node_frames pt @ [guard_at a]\<rparr>"
  let ?s = "s1\<lparr>phys_mem := link_node (phys_mem s) t i a\<rparr>"
  have addrs: "node_addrs ?pt = node_addrs pt @ [a]"
    using al(3) by (simp add: node_addrs_def)
  have root: "pt_root ?pt = pt_root pt"
    by (simp add: pt_root_def)
  have m: "store_pte (phys_mem s1) (cell t i) (PTE (entry_for a 1)) = link_node (phys_mem s) t i a"
    by (simp add: store_pte_def link_node_def al(8))
  have e: "load_usize (link_node (phys_mem s) t i a) (cell t i) = entry_for a 1"
    by (simp add: link_node_def)
  have "(ucast (entry_for a 1 AND mask 10) :: u16) = 1"
    by (rule entry_for_flags) (simp add: mask_eq_decr_exp)
  then have "fill_entry B (cell t i) pt s = Inr (?pt, ?s)"
    using al(1,3) B
    by (simp add: fill_entry_def allocate_node_def get_frame_def guard_at_def page_aligned_page_of
        PTE_VALID_def m load_pte_def e referencing_address_def pte_flags_Ok)
  moreover have "pt_inv ?s ?pt"
    unfolding pt_inv_def addrs root
    using link_shape [OF sh p(1,2) i p(3) miss al(3) aN] pt_invD [OF inv] al(5,6) aN
    by (auto simp: kstate_wf_def)
  moreover have "pt_grows s pt ?s ?pt"
    unfolding pt_grows_def addrs root
  proof (intro conjI allI impI exI [of _ "[a]"])
    fix x assume "page_of x \<notin> set (node_addrs pt @ [a])"
    then have "page_of x \<noteq> a" "page_of x \<noteq> t" using tN by auto
    then show "phys_mem ?s x = phys_mem s x"
      using store_usize_other_page [OF t i] store_bytes_page [OF al(3)] by (simp add: link_node_def)
  qed (use al in auto)
  ultimately show ?thesis
    using al(2,3,4) aN by (intro exI [of _ a] exI [of _ ?s] exI [of _ ?pt]) simp
qed

lemma find_allocate_step:
  assumes B: "bitflags_ok B" and inv: "pt_inv s pt"
    and p: "walk (phys_mem s) (pt_root pt) p = Some t" "node_path p" "length p \<le> 1"
    and l: "l = 1 \<or> l = 2"
    and free: "p @ [vpn_index a (unat l)] \<notin> kpaths s pt \<Longrightarrow> kfree s \<noteq> {}"
  shows "\<exists>t' s' pt'. (\<forall>ls. find_allocate_loop B (VirtAddr a) (l # ls) t pt s =
        find_allocate_loop B (VirtAddr a) ls t' pt' s') \<and>
     walk (phys_mem s') (pt_root pt') (p @ [vpn_index a (unat l)]) = Some t' \<and>
     pt_inv s' pt' \<and> pt_grows s pt s' pt' \<and> kmap s' pt' = kmap s pt \<and>
     kpaths s' pt' = insert (p @ [vpn_index a (unat l)]) (kpaths s pt) \<and>
     pt_budget s' pt' = pt_budget s pt"
proof -
  note sh = pt_invD(5) [OF inv]
  let ?i = "vpn_index a (unat l)"
  let ?e = "load_usize (phys_mem s) (cell t ?i)"
  have tN: "t \<in> set (node_addrs pt)"
    using pt_shapeD(3) [OF sh] p by blast
  have l': "l \<le> 2" "l \<noteq> 0" using l by auto
  have v: "is_valid B (PTE ?e) = Inr (bit ?e 0)"
    using pt_shapeD(5) [OF sh tN unat_vpn_index] by (intro is_valid_Ok B)
  have np: "node_path (p @ [?i])"
    using p(2,3) by (auto simp: node_path_def unat_vpn_index)
  show ?thesis
  proof (cases "child (phys_mem s) t ?i")
    case (Some t')
    then have "bit ?e 0" and t': "t' = PTE2PA ?e"
      by (auto simp: child_def Let_def split: if_splits)
    then have "find_allocate_loop B (VirtAddr a) (l # ls) t pt s =
        find_allocate_loop B (VirtAddr a) ls t' pt s" for ls
      using l' v by (simp add: pte_index_Ok unat_vpn_index load_pte_def)
    moreover have "walk (phys_mem s) (pt_root pt) (p @ [?i]) = Some t'"
      using p(1) Some by (simp add: walk_snoc)
    moreover from this np have "kpaths s pt = insert (p @ [?i]) (kpaths s pt)"
      by (auto simp: node_paths_def)
    ultimately show ?thesis
      using inv by (intro exI [of _ t'] exI [of _ s] exI [of _ pt]) simp
  next
    case None
    then have nv: "\<not> bit ?e 0"
      by (auto simp: child_def Let_def split: if_splits)
    have new: "p @ [?i] \<notin> kpaths s pt"
      using p(1) None by (simp add: node_paths_def walk_snoc)
    obtain b s' pt' where f: "fill_entry B (cell t ?i) pt s = Inr (pt', s')" "page_aligned b"
      "b \<notin> set (node_addrs pt)" "phys_mem s' = link_node (phys_mem s) t ?i b"
      "b \<in> kfree s" "kfree s' = kfree s - {b}" "pt_inv s' pt'" "pt_grows s pt s' pt'"
      using fill_entry_spec [OF B inv free [OF new] p unat_vpn_index None] by blast
    have root: "pt_root pt' = pt_root pt"
      using f(8) by (simp add: pt_grows_def)
    note wl = walk_link [OF sh p(1,2) unat_vpn_index None f(2,3)]
    have "load_usize (phys_mem s') (cell t ?i) = entry_for b 1"
      by (simp add: f(4) link_node_def)
    then have "find_allocate_loop B (VirtAddr a) (l # ls) t pt s =
        find_allocate_loop B (VirtAddr a) ls b pt' s'" for ls
      using l' v nv f(1,2) by (simp add: pte_index_Ok unat_vpn_index load_pte_def)
    moreover have "walk (phys_mem s') (pt_root pt') (p @ [?i]) = Some b"
      using wl [OF np] by (simp add: f(4) root)
    moreover have "kmap s' pt' = kmap s pt"
      using link_map [OF sh p(1,2) unat_vpn_index p(3) None f(2,3)]
      by (simp add: f(4) root fun_eq_iff)
    moreover have kp: "kpaths s' pt' = insert (p @ [?i]) (kpaths s pt)"
      using wl np by (auto simp: node_paths_def f(4) root)
    moreover have "pt_budget s' pt' = pt_budget s pt"
      using new card_free_remove [OF f(5)] by (simp add: pt_budget_def kp f(6))
    ultimately show ?thesis
      using f(7,8) by (intro exI [of _ b] exI [of _ s'] exI [of _ pt']) simp
  qed
qed

lemma budget_free:
  assumes "card (kpaths s pt \<union> P) \<le> pt_budget s pt" and "finite P" and "p \<in> P" "p \<notin> kpaths s pt"
  shows "kfree s \<noteq> {}"
proof -
  have "card (kpaths s pt) < card (kpaths s pt \<union> P)"
    using assms by (intro psubset_card_mono) auto
  with assms(1) show ?thesis by (auto simp: pt_budget_def)
qed

lemma find_allocate_spec:
  assumes B: "bitflags_ok B" and inv: "pt_inv s pt"
    and free: "card (kpaths s pt \<union> paths_of a) \<le> pt_budget s pt"
  shows "\<exists>t s' pt'. find_allocate B pt (VirtAddr a) s = Inr (cell t (vpn_index a 0), pt', s') \<and>
     walk (phys_mem s') (pt_root pt') (va_path a) = Some t \<and>
     pt_inv s' pt' \<and> pt_grows s pt s' pt' \<and> kmap s' pt' = kmap s pt \<and>
     kpaths s' pt' = kpaths s pt \<union> paths_of a \<and> pt_budget s' pt' = pt_budget s pt"
proof -
  have "kfree s \<noteq> {}" if "[vpn_index a 2] \<notin> kpaths s pt"
    using budget_free [OF free _ _ that] by (simp add: paths_of_def)
  from find_allocate_step [OF B inv, of "[]" "pt_root pt" 2 a] this
  obtain t1 s1 pt1 where st1: "\<And>ls. find_allocate_loop B (VirtAddr a) (2 # ls) (pt_root pt) pt s =
        find_allocate_loop B (VirtAddr a) ls t1 pt1 s1"
    "walk (phys_mem s1) (pt_root pt1) [vpn_index a 2] = Some t1"
    "pt_inv s1 pt1" "pt_grows s pt s1 pt1" "kmap s1 pt1 = kmap s pt"
    "kpaths s1 pt1 = insert [vpn_index a 2] (kpaths s pt)" "pt_budget s1 pt1 = pt_budget s pt"
    by auto
  have all: "kpaths s1 pt1 \<union> paths_of a = kpaths s pt \<union> paths_of a"
    by (auto simp: st1(6) paths_of_def)
  have "kfree s1 \<noteq> {}" if "va_path a \<notin> kpaths s1 pt1"
    by (rule budget_free [OF _ _ _ that, of "paths_of a"])
       (use free all st1(7) in \<open>simp_all add: paths_of_def\<close>)
  with find_allocate_step [OF B st1(3) st1(2), of 1 a]
  obtain t2 s2 pt2 where st2: "\<And>ls. find_allocate_loop B (VirtAddr a) (1 # ls) t1 pt1 s1 =
        find_allocate_loop B (VirtAddr a) ls t2 pt2 s2"
    "walk (phys_mem s2) (pt_root pt2) (va_path a) = Some t2"
    "pt_inv s2 pt2" "pt_grows s1 pt1 s2 pt2" "kmap s2 pt2 = kmap s1 pt1"
    "kpaths s2 pt2 = insert (va_path a) (kpaths s1 pt1)" "pt_budget s2 pt2 = pt_budget s1 pt1"
    by (auto simp: node_path_def unat_vpn_index va_path_def)
  have "find_allocate B pt (VirtAddr a) s = Inr (cell t2 (vpn_index a 0), pt2, s2)"
    using st1(1) [of "[1, 0]"] st2(1) [of "[0]"]
    by (simp add: find_allocate_def levels_def pt_root_table [OF inv] del: find_allocate_loop.simps)
       (simp add: pte_index_Ok unat_vpn_index)
  moreover have "kpaths s2 pt2 = kpaths s pt \<union> paths_of a"
    by (auto simp: st2(6) st1(6) paths_of_def)
  ultimately show ?thesis
    using st1 st2 pt_grows_trans [OF st1(4) st2(4)]
    by (intro exI [of _ t2] exI [of _ s2] exI [of _ pt2]) simp
qed

section \<open>Mapping a page\<close>

lemma flags_or_valid:
  assumes "bitflags_ok B"
  shows "pte_flags_or B (PTEFlags f) PTE_VALID = PTEFlags (f OR 1)"
  using assms by (simp add: pte_flags_or_def bitflags_okD PTE_VALID_def)

lemma flags_or_valid_known:
  assumes "f AND NOT (mask 9) = (0 :: u16)"
  shows "(f OR 1) AND NOT (mask 9) = 0"
proof -
  have "(f OR 1) AND NOT (mask 9) = (f AND NOT (mask 9)) OR (1 AND NOT (mask 9))"
    by (rule bit_word_eqI) (auto simp: bit_simps)
  moreover have "(1 :: u16) AND NOT (mask 9) = 0"
    by (simp add: mask_eq_decr_exp)
  ultimately show ?thesis
    using assms by simp
qed

lemma bit_or_1_0 [simp]: "bit ((f :: 'a::len word) OR 1) 0"
  by (simp add: bit_simps)

lemma pt_map_leaf:
  assumes "walk m root (va_path a) = Some t"
  shows "pt_map m root a = (let e = load_usize m (cell t (vpn_index a 0)) in
     if bit e 0 then Some e else None)"
  using assms by (simp add: pt_map_def leaf_addr_def)

lemma leaf_decodes:
  assumes "pt_inv s pt" and "walk (phys_mem s) (pt_root pt) (va_path a) = Some t"
  shows "t \<in> set (node_addrs pt)" and "page_aligned t"
    and "\<not> bit (load_usize (phys_mem s) (cell t (vpn_index a 0))) 9"
  using pt_shapeD(2,3,5) [OF pt_invD(5) [OF assms(1)]] assms(2) node_path_va unat_vpn_index
  by (meson)+

text \<open>Writing a decodable entry into a leaf: the state it leaves.\<close>

lemma write_leaf_spec:
  assumes inv: "pt_inv s pt" and w: "walk (phys_mem s) (pt_root pt) (va_path a) = Some t"
    and e: "\<not> bit e 9" "bit e 0"
  defines "s' \<equiv> s\<lparr>phys_mem := store_usize (phys_mem s) (cell t (vpn_index a 0)) e\<rparr>"
  shows "pt_inv s' pt" and "pt_grows s pt s' pt"
    and "kmap s' pt b = (if same_page a b then Some e else kmap s pt b)"
    and "kpaths s' pt = kpaths s pt" and "pt_budget s' pt = pt_budget s pt"
proof -
  note sh = pt_invD(5) [OF inv]
  show "pt_inv s' pt"
    using store_leaf_shape [OF sh w node_path_va length_va_path unat_vpn_index e(1)] inv
    by (simp add: pt_inv_def s'_def kstate_wf_def)
  show "pt_grows s pt s' pt"
    unfolding pt_grows_def
  proof (intro conjI allI impI)
    fix x assume "page_of x \<notin> set (node_addrs pt)"
    with leaf_decodes(1) [OF inv w] have "page_of x \<noteq> t" by auto
    then show "phys_mem s' x = phys_mem s x"
      using leaf_decodes(2) [OF inv w] by (simp add: s'_def store_usize_other_page unat_vpn_index)
  qed (simp_all add: s'_def same_heap_def)
  show "kmap s' pt b = (if same_page a b then Some e else kmap s pt b)"
    using store_leaf_map [OF sh w e(2)] by (simp add: s'_def)
  show kp: "kpaths s' pt = kpaths s pt"
    using walk_store_leaf [OF sh w node_path_va length_va_path unat_vpn_index]
    by (auto simp: node_paths_def s'_def)
  show "pt_budget s' pt = pt_budget s pt"
    using kp by (simp add: pt_budget_def s'_def)
qed

lemma map_one_allocate_spec:
  assumes B: "bitflags_ok B" and inv: "pt_inv s pt" and free: "card (kpaths s pt \<union> paths_of a) \<le> pt_budget s pt"
    and f: "f AND NOT (mask 9) = 0" and pa: "page_aligned pa" and un: "kmap s pt a = None"
  shows "\<exists>pt' s'. map_one_allocate B pt (VirtAddr a) (PhysAddr pa) (PTEFlags f) s = Inr (pt', s') \<and>
     pt_inv s' pt' \<and> pt_grows s pt s' pt' \<and>
     (\<forall>b. kmap s' pt' b = (if same_page a b then Some (entry_for pa (f OR 1)) else kmap s pt b)) \<and>
     kpaths s' pt' = kpaths s pt \<union> paths_of a \<and> pt_budget s' pt' = pt_budget s pt"
proof -
  obtain t s1 pt1 where fa: "find_allocate B pt (VirtAddr a) s = Inr (cell t (vpn_index a 0), pt1, s1)"
    and w: "walk (phys_mem s1) (pt_root pt1) (va_path a) = Some t"
    and inv1: "pt_inv s1 pt1" and g: "pt_grows s pt s1 pt1" and km: "kmap s1 pt1 = kmap s pt"
    and kp: "kpaths s1 pt1 = kpaths s pt \<union> paths_of a" and bd: "pt_budget s1 pt1 = pt_budget s pt"
    using find_allocate_spec [OF B inv free] by blast
  let ?e = "entry_for pa (f OR 1)"
  have e: "\<not> bit ?e 9" "bit ?e 0"
    using entry_for_bit9 [OF flags_or_valid_known [OF f]] by (simp_all add: bit_entry_for)
  note wl = write_leaf_spec [OF inv1 w e]
  have "\<not> bit (load_usize (phys_mem s1) (cell t (vpn_index a 0))) 0"
    using un pt_map_leaf [OF w] by (auto simp: Let_def simp flip: km split: if_splits)
  then have "is_valid B (PTE (load_usize (phys_mem s1) (cell t (vpn_index a 0)))) = Inr False"
    using leaf_decodes(3) [OF inv1 w] B by (simp add: is_valid_Ok)
  moreover have "(ucast (?e AND mask 10) :: u16) = f OR 1" "PTE2PA ?e = pa"
    using entry_for_flags PTE2PA_entry_for flags_or_valid_known [OF f] pa
    by (auto simp: page_aligned_page_of)
  ultimately have "map_one_allocate B pt (VirtAddr a) (PhysAddr pa) (PTEFlags f) s =
      Inr (pt1, s1\<lparr>phys_mem := store_usize (phys_mem s1) (cell t (vpn_index a 0)) ?e\<rparr>)"
    using fa e(1) B
    by (simp add: map_one_allocate_def flags_or_valid load_pte_def store_pte_def
        referencing_address_def pte_flags_Ok)
  moreover have "pt_grows s pt (s1\<lparr>phys_mem := store_usize (phys_mem s1) (cell t (vpn_index a 0)) ?e\<rparr>) pt1"
    using pt_grows_trans [OF g wl(2)] by simp
  ultimately show ?thesis
    using wl km kp bd by auto
qed

text \<open>A page that is mapped already is refused.\<close>

text \<open>The nodes for a mapped page exist, so none has to be allocated.\<close>

lemma mapped_budget:
  assumes "kmap s pt a = Some e"
  shows "card (kpaths s pt \<union> paths_of a) \<le> pt_budget s pt"
proof -
  have "walk (phys_mem s) (pt_root pt) (va_path a) \<noteq> None"
    using assms by (auto simp: pt_map_def leaf_addr_def split: option.splits)
  then have "va_path a \<in> kpaths s pt"
    by (auto simp: node_paths_def node_path_def va_path_def unat_vpn_index)
  moreover from this have "[vpn_index a 2] \<in> kpaths s pt"
    using node_paths_prefix [of "[vpn_index a 2]" "vpn_index a 1"] by (simp add: va_path_def)
  ultimately have "kpaths s pt \<union> paths_of a = kpaths s pt" by (auto simp: paths_of_def)
  then show ?thesis by (simp add: pt_budget_def)
qed

lemma map_one_allocate_mapped:
  assumes B: "bitflags_ok B" and inv: "pt_inv s pt" and m: "kmap s pt a = Some e"
  shows "map_one_allocate B pt (VirtAddr a) pa flags s =
     Inl (AssertFailed ''PageTable::map: overwritting original mapping!'')"
proof -
  obtain t s1 pt1 where fa: "find_allocate B pt (VirtAddr a) s = Inr (cell t (vpn_index a 0), pt1, s1)"
    and w: "walk (phys_mem s1) (pt_root pt1) (va_path a) = Some t"
    and inv1: "pt_inv s1 pt1" and km: "kmap s1 pt1 = kmap s pt"
    using find_allocate_spec [OF B inv mapped_budget [OF m]] by blast
  have "bit (load_usize (phys_mem s1) (cell t (vpn_index a 0))) 0"
    using m pt_map_leaf [OF w] by (auto simp: Let_def simp flip: km split: if_splits)
  then have "is_valid B (PTE (load_usize (phys_mem s1) (cell t (vpn_index a 0)))) = Inr True"
    using leaf_decodes(3) [OF inv1 w] B by (simp add: is_valid_Ok)
  with fa show ?thesis
    by (simp add: map_one_allocate_def load_pte_def)
qed

lemma page_table_allocate_spec:
  assumes "kstate_wf s" and "kfree s \<noteq> {}"
  shows "\<exists>pt s' a. page_table_allocate s = Inr (pt, s') \<and> pt_inv s' pt \<and> a \<in> kfree s \<and>
     node_addrs pt = [a] \<and> pt_root pt = a \<and> kfree s' = kfree s - {a} \<and> kused s' = insert a (kused s) \<and>
     same_heap (FRAME_ALLOCATOR s) (FRAME_ALLOCATOR s') \<and> (\<forall>b. kmap s' pt b = None) \<and>
     phys_mem s' = store_bytes 4096 (\<lambda>_. 0) a (phys_mem s) \<and> kpaths s' pt = {[]}"
proof -
  obtain a s1 where al: "allocate_zeroed s = Inr (guard_at a, s1)" "a \<in> kfree s" "page_aligned a"
    "kfree s1 = kfree s - {a}" "kused s1 = insert a (kused s)" "kstate_wf s1"
    "same_heap (FRAME_ALLOCATOR s) (FRAME_ALLOCATOR s1)"
    "phys_mem s1 = store_bytes 4096 (\<lambda>_. 0) a (phys_mem s)"
    using allocate_zeroed_spec [OF assms] by blast
  let ?pt = "\<lparr>root_node = \<lparr>node_base = PhysAddr a\<rparr>, node_frames = [guard_at a]\<rparr>"
  have pt: "page_table_allocate s = Inr (?pt, s1)"
    using al(1,3)
    by (simp add: page_table_allocate_def inner_ref_def guard_at_def node_from_frame_def
        page_aligned_page_of)
  have n: "node_addrs ?pt = [a]" "pt_root ?pt = a"
    using al(3) by (simp_all add: node_addrs_def pt_root_def)
  have "pt_inv s1 ?pt"
    unfolding pt_inv_def n using fresh_root_shape(1) [OF al(3)] al by simp
  moreover have "\<forall>b. kmap s1 ?pt b = None"
    unfolding n(2) al(8) using fresh_root_shape(2) [OF al(3)] by blast
  moreover have "kpaths s1 ?pt = {[]}"
    unfolding n(2) al(8) node_paths_def by (auto simp: fresh_root_shape(3) [OF al(3)] split: if_splits)
  ultimately show ?thesis
    using pt n al by (intro exI [of _ ?pt] exI [of _ s1] exI [of _ a]) simp
qed

end
