(* ===== verification/Page_Area.thy ===== *)
theory Page_Area
  imports Page_Map
begin

text \<open>
  The remaining operations of \<^verbatim>\<open>kernel/src/mm/page_table.rs\<close> against the map of the table:
  \<open>translate\<close>, \<open>map_one\<close>, the mapping and the verification of areas, locking, and what dropping
  a table returns to the allocator.
\<close>

section \<open>Translation\<close>

definition entry_flags :: "usize \<Rightarrow> u16" where
  "entry_flags e = ucast (e AND mask 10)"

lemma translate_char:
  assumes B: "bitflags_ok B" and inv: "pt_inv s pt"
  shows "pt_translate B pt (VirtAddr a) (phys_mem s) =
     Inr (map_option (\<lambda>c. let e = load_usize (phys_mem s) c in
            (PhysAddr (PTE2PA e OR (a AND 12)), PTEFlags (entry_flags e)))
          (leaf_addr (phys_mem s) (pt_root pt) a))"
proof (cases "walk (phys_mem s) (pt_root pt) (va_path a)")
  case None
  then show ?thesis
    by (simp add: pt_translate_def find_char [OF assms] leaf_addr_def)
next
  case (Some t)
  have m: "(a AND 12) AND mask 12 = a AND 12"
    by (simp add: and.assoc mask_eq_exp_minus_1)
  show ?thesis
    using leaf_decodes(3) [OF inv Some] B
    by (simp add: pt_translate_def find_char [OF assms] leaf_addr_def Some load_pte_def pte_flags_Ok
        referencing_address_def pa_with_offset_eq va_offset_def VA_OFFSET_WIDTH_def entry_flags_def
        Let_def page_aligned_page_of m)
qed

section \<open>Mapping without allocation\<close>

lemma map_one_spec:
  assumes B: "bitflags_ok B" and inv: "pt_inv s pt" and f: "f AND NOT (mask 9) = 0"
  shows "case walk (phys_mem s) (pt_root pt) (va_path a) of
      None \<Rightarrow> map_one B pt (VirtAddr a) (PhysAddr pa) (PTEFlags f) s = Inr (None, s)
    | Some t \<Rightarrow>
        (case kmap s pt a of
           Some e \<Rightarrow> map_one B pt (VirtAddr a) (PhysAddr pa) (PTEFlags f) s =
             Inl (AssertFailed ''PageTable::map: overwritting original mapping!'')
         | None \<Rightarrow> \<exists>s'. map_one B pt (VirtAddr a) (PhysAddr pa) (PTEFlags f) s = Inr (Some (), s') \<and>
             pt_inv s' pt \<and> FRAME_ALLOCATOR s' = FRAME_ALLOCATOR s \<and>
             (\<forall>b. kmap s' pt b =
                (if same_page a b then Some (entry_for pa (f OR 1)) else kmap s pt b)))"
proof (cases "walk (phys_mem s) (pt_root pt) (va_path a)")
  case None
  then show ?thesis
    by (simp add: map_one_def find_char [OF B inv] leaf_addr_def)
next
  case (Some t)
  let ?e = "entry_for pa (f OR 1)"
  have e: "\<not> bit ?e 9" "bit ?e 0"
    using entry_for_bit9 [OF flags_or_valid_known [OF f]] by (simp_all add: bit_entry_for)
  note wl = write_leaf_spec [OF inv Some e]
  have v: "is_valid B (PTE (load_usize (phys_mem s) (cell t (vpn_index a 0)))) =
      Inr (kmap s pt a \<noteq> None)"
    using leaf_decodes(3) [OF inv Some] B by (simp add: is_valid_Ok pt_map_leaf [OF Some] Let_def)
  show ?thesis
    using wl v
    by (auto simp: Some map_one_def find_char [OF B inv] leaf_addr_def load_pte_def store_pte_def
        flags_or_valid [OF B] split: option.split)
qed

section \<open>Areas\<close>

text \<open>The map after the pages of a list have been added, one after the other.\<close>

fun add_pages :: "u16 \<Rightarrow> (usize \<times> usize) list \<Rightarrow> (usize \<Rightarrow> usize option) \<Rightarrow> usize \<Rightarrow> usize option" where
  "add_pages f [] M = M"
| "add_pages f ((va, pa) # xs) M =
     add_pages f xs (\<lambda>b. if same_page va b then Some (entry_for pa (f OR 1)) else M b)"

definition map_pages ::
  "bitflags_ops \<Rightarrow> u16 \<Rightarrow> (usize \<times> usize) list \<Rightarrow> page_table_guard \<times> kstate
     \<Rightarrow> (page_table_guard \<times> kstate) result" where
  "map_pages B f xs st =
     for_each xs (\<lambda>(va, pa) st. map_one_allocate B (fst st) (VirtAddr va) (PhysAddr pa)
        (PTEFlags f) (snd st)) st"

definition pages_apart :: "(usize \<times> usize) list \<Rightarrow> bool" where
  "pages_apart xs \<longleftrightarrow> sorted_wrt (\<lambda>x y. \<not> same_page (fst x) (fst y)) xs"

definition area_paths :: "(usize \<times> usize) list \<Rightarrow> usize list set" where
  "area_paths xs = (\<Union>x \<in> set xs. paths_of (fst x))"

lemma finite_area_paths [simp]: "finite (area_paths xs)"
  by (simp add: area_paths_def)

lemma area_paths_Cons [simp]: "area_paths ((va, pa) # xs) = paths_of va \<union> area_paths xs"
  by (simp add: area_paths_def)

lemma area_paths_append [simp]: "area_paths (xs @ ys) = area_paths xs \<union> area_paths ys"
  by (auto simp: area_paths_def)

lemma area_paths_Nil [simp]: "area_paths [] = {}"
  by (simp add: area_paths_def)

lemma map_pages_spec:
  assumes B: "bitflags_ok B" and f: "f AND NOT (mask 9) = 0"
    and "pt_inv s pt" and "pages_apart xs" and "\<forall>(va, pa) \<in> set xs. page_aligned pa \<and> kmap s pt va = None"
    and "card (kpaths s pt \<union> area_paths xs) \<le> pt_budget s pt"
  shows "\<exists>pt' s'. map_pages B f xs (pt, s) = Inr (pt', s') \<and> pt_inv s' pt' \<and> pt_grows s pt s' pt' \<and>
     kmap s' pt' = add_pages f xs (kmap s pt) \<and>
     kpaths s' pt' = kpaths s pt \<union> area_paths xs \<and> pt_budget s' pt' = pt_budget s pt"
  using assms(3-)
proof (induction xs arbitrary: s pt)
  case Nil
  then show ?case by (simp add: map_pages_def)
next
  case (Cons x xs)
  obtain va pa where x: "x = (va, pa)" by force
  have sub: "card (kpaths s pt \<union> paths_of va) \<le> card (kpaths s pt \<union> area_paths (x # xs))"
    by (rule card_mono) (auto simp: x)
  have pre: "page_aligned pa" "kmap s pt va = None"
    using Cons.prems(3) by (auto simp: x)
  obtain pt1 s1 where one: "map_one_allocate B pt (VirtAddr va) (PhysAddr pa) (PTEFlags f) s = Inr (pt1, s1)"
    "pt_inv s1 pt1" "pt_grows s pt s1 pt1"
    "\<And>b. kmap s1 pt1 b = (if same_page va b then Some (entry_for pa (f OR 1)) else kmap s pt b)"
    "kpaths s1 pt1 = kpaths s pt \<union> paths_of va" "pt_budget s1 pt1 = pt_budget s pt"
    using map_one_allocate_spec [OF B Cons.prems(1) order_trans [OF sub Cons.prems(4)] f pre] by blast
  have "kmap s1 pt1 = (\<lambda>b. if same_page va b then Some (entry_for pa (f OR 1)) else kmap s pt b)"
    using one(4) by blast
  moreover have "\<exists>pt' s'. map_pages B f xs (pt1, s1) = Inr (pt', s') \<and> pt_inv s' pt' \<and>
      pt_grows s1 pt1 s' pt' \<and> kmap s' pt' = add_pages f xs (kmap s1 pt1) \<and>
      kpaths s' pt' = kpaths s1 pt1 \<union> area_paths xs \<and> pt_budget s' pt' = pt_budget s1 pt1"
  proof (rule Cons.IH [OF one(2)])
    show "pages_apart xs"
      using Cons.prems(2) by (simp add: pages_apart_def)
    show "\<forall>(va, pa) \<in> set xs. page_aligned pa \<and> kmap s1 pt1 va = None"
      using Cons.prems(2,3) by (fastforce simp: pages_apart_def x one(4))
    show "card (kpaths s1 pt1 \<union> area_paths xs) \<le> pt_budget s1 pt1"
      using Cons.prems(4) by (simp add: x one(5,6) Un_assoc)
  qed
  ultimately show ?case
    using one pt_grows_trans [OF one(3)] by (auto simp: map_pages_def x Un_assoc)
qed

text \<open>The page with number \<open>n\<close>.\<close>

definition page_at :: "nat \<Rightarrow> usize" where
  "page_at n = of_nat (4096 * n)"

lemma page_at:
  assumes "n < 2 ^ 52"
  shows "unat (page_at n) = 4096 * n" and "page_aligned (page_at n)" and "drop_bit 12 (page_at n) = of_nat n"
proof -
  have u: "unat (page_at n) = 4096 * n"
    unfolding page_at_def by (rule unat_of_nat_small) (use assms in simp)
  then show "unat (page_at n) = 4096 * n" and "page_aligned (page_at n)"
    by (simp_all add: page_aligned_def)
  have "unat (of_nat n :: usize) = n"
    by (rule unat_of_nat_small) (use assms in simp)
  then show "drop_bit 12 (page_at n) = of_nat n"
    by (simp add: word_unat_eq_iff unat_drop_bit_page u)
qed

definition identical_pages :: "nat \<Rightarrow> nat \<Rightarrow> (usize \<times> usize) list" where
  "identical_pages b e = map (\<lambda>n. (page_at n, page_at n)) [b..<e]"

fun guard_page :: "virt_frame_guard \<Rightarrow> usize" where
  "guard_page (ExclusivelyAllocated g) = guard_addr g"
| "guard_page (CowShared g n) = guard_addr g"
| "guard_page (PhysBorrowed f) = push_bit 12 (frame_number f)"

text \<open>A guard that holds the frame at an aligned address and can be mapped.\<close>

fun guard_ok :: "virt_frame_guard \<Rightarrow> bool" where
  "guard_ok (ExclusivelyAllocated g) \<longleftrightarrow> (\<exists>a. page_aligned a \<and> g = guard_at a)"
| "guard_ok (CowShared g n) \<longleftrightarrow> False"
| "guard_ok (PhysBorrowed f) \<longleftrightarrow> (\<exists>a. page_aligned a \<and> f = Frame (drop_bit 12 a))"

definition area_pages :: "virt_area \<Rightarrow> (usize \<times> usize) list" where
  "area_pages area =
     (if is_identically_mapped area
      then identical_pages (unat (virt_frame_number (range_begin (virt_frame_range area))))
             (unat (virt_frame_number (range_end (virt_frame_range area))))
      else map (\<lambda>(va, g). (va_as_usize va, guard_page g)) (virt_frames area))"

definition area_ok :: "virt_area \<Rightarrow> bool" where
  "area_ok area \<longleftrightarrow>
     (if is_identically_mapped area
      then range_begin (virt_frame_range area) \<le> range_end (virt_frame_range area) \<and>
           unat (virt_frame_number (range_end (virt_frame_range area))) \<le> 2 ^ 52
      else \<forall>(va, g) \<in> set (virt_frames area). va_is_page_aligned va \<and> guard_ok g)"

definition area_flags :: "virt_area \<Rightarrow> u16" where
  "area_flags area = page_flags_bits (area_permissions area)"

lemma guard_ok_pages:
  assumes "guard_ok g"
  shows "page_aligned (guard_page g)"
  using assms
  by (cases g) (auto simp: push_bit_drop_bit_page)

lemma area_pages_aligned:
  assumes "area_ok area" and "(va, pa) \<in> set (area_pages area)"
  shows "page_aligned va" and "page_aligned pa"
  using assms guard_ok_pages
  by (auto simp: area_ok_def area_pages_def identical_pages_def page_at(2) split: if_splits)
     (metis case_prodD va_is_page_aligned_iff virt_addr.collapse)

lemma map_tracked_eq:
  assumes "guard_ok g" and "page_aligned va"
  shows "map_tracked B flags (VirtAddr va, g) st =
    map_one_allocate B (fst st) (VirtAddr va) (PhysAddr (guard_page g)) flags (snd st)"
  using assms
  by (cases g) (auto simp: inner_ref_def guard_at_def map_tracked_page_def guard_addr_def
      page_aligned_page_of push_bit_drop_bit_page)

lemma map_identical_page_eq:
  assumes "n < 2 ^ 52"
  shows "map_identical_page B flags (VirtFrame (of_nat n)) st =
    map_one_allocate B (fst st) (VirtAddr (page_at n)) (PhysAddr (page_at n)) flags (snd st)"
  using page_at(2) [OF assms]
  by (simp add: map_identical_page_def page_aligned_page_of flip: page_at(3) [OF assms])

lemma for_virt_range_area:
  assumes "area_ok area" and "is_identically_mapped area"
  shows "for_virt_range body (into_iter (virt_frame_range area)) st =
    for_each (virt_frames_upto (unat (virt_frame_number (range_begin (virt_frame_range area))))
      (unat (virt_frame_number (range_end (virt_frame_range area))))) body st"
  using assms
    for_virt_range_eq [of "virt_frame_number (range_begin (virt_frame_range area))"
      "virt_frame_number (range_end (virt_frame_range area))"]
  by (simp add: area_ok_def into_iter_def less_eq_virt_frame_def word_le_nat_alt)

lemma map_virt_area_char:
  assumes ok: "area_ok area"
  shows "map_virt_area_allocate B area st = map_pages B (area_flags area) (area_pages area) st"
proof (cases "is_identically_mapped area")
  case True
  then have "n < 2 ^ 52" if "n < unat (virt_frame_number (range_end (virt_frame_range area)))" for n
    using ok that by (auto simp: area_ok_def)
  then show ?thesis
    using True ok
    by (auto simp: map_virt_area_allocate_def for_virt_range_area map_pages_def area_pages_def
        virt_frames_upto_def identical_pages_def for_each_map pte_flags_from_def area_flags_def
        map_identical_page_eq intro!: for_each_cong)
next
  case False
  have "map_tracked B (PTEFlags (area_flags area)) x st =
      map_one_allocate B (fst st) (VirtAddr (va_as_usize (fst x)))
        (PhysAddr (guard_page (snd x))) (PTEFlags (area_flags area)) (snd st)"
    if "x \<in> set (virt_frames area)" for x st
  proof -
    have "va_is_page_aligned (fst x)" "guard_ok (snd x)"
      using that ok False by (auto simp: area_ok_def)
    then show ?thesis
      using map_tracked_eq [of "snd x" "va_as_usize (fst x)"]
      by (cases x; cases "fst x") auto
  qed
  then show ?thesis
    using False
    by (auto simp: map_virt_area_allocate_def map_pages_def area_pages_def for_each_map
        pte_flags_from_def split_def simp flip: area_flags_def intro!: for_each_cong)
qed


section \<open>Looking up an added page\<close>

lemma same_page_refl [simp]: "same_page a a"
  by (simp add: same_page_def)

lemma add_pages_other:
  "\<forall>x \<in> set xs. \<not> same_page (fst x) b \<Longrightarrow> add_pages f xs M b = M b"
  by (induction xs arbitrary: M) auto

lemma add_pages_in:
  assumes "pages_apart xs" and "(va, pa) \<in> set xs" and "same_page va b"
  shows "add_pages f xs M b = Some (entry_for pa (f OR 1))"
  using assms
proof (induction xs arbitrary: M)
  case (Cons x xs)
  show ?case
  proof (cases "(va, pa) = x")
    case True
    have "\<forall>y \<in> set xs. \<not> same_page (fst y) b"
      using Cons.prems(1,3) True by (auto simp: pages_apart_def same_page_def)
    then show ?thesis
      using Cons.prems(3) by (simp add: add_pages_other flip: True)
  next
    case False
    then show ?thesis
      using Cons.IH Cons.prems by (cases x) (auto simp: pages_apart_def)
  qed
qed simp

lemma add_pages_append: "add_pages f (xs @ ys) M = add_pages f ys (add_pages f xs M)"
  by (induction xs arbitrary: M) auto

text \<open>Two aligned addresses below \<open>2^39\<close> are in the same page only if they are equal.\<close>

lemma digit_eq:
  "(x :: nat) < 512 \<Longrightarrow> y < 512 \<Longrightarrow> x + 512 * u = y + 512 * v \<longleftrightarrow> x = y \<and> u = v"
proof -
  assume l: "x < 512" "y < 512"
  have "x = y \<and> u = v" if e: "x + 512 * u = y + 512 * v"
    using arg_cong [OF e, of "\<lambda>z. z mod 512"] arg_cong [OF e, of "\<lambda>z. z div 512"] l by simp
  then show ?thesis by blast
qed

lemma same_page_iff:
  "same_page a b \<longleftrightarrow> unat a mod 2 ^ 39 div 4096 = unat b mod 2 ^ 39 div 4096"
  (is "?l \<longleftrightarrow> ?r")
proof
  assume ?l
  then have "unat (vpn_index a l) = unat (vpn_index b l)" if "l = 0 \<or> l = 1 \<or> l = 2" for l
    using that by (auto simp: same_page_def va_path_def)
  from this [of 0] this [of 1] this [of 2] show ?r
    unfolding vpn_split unat_vpn_index_eq by simp
next
  assume r: ?r
  have "unat a div 2 ^ 12 mod 512 = unat b div 2 ^ 12 mod 512 \<and>
      unat a div 2 ^ 21 mod 512 = unat b div 2 ^ 21 mod 512 \<and>
      unat a div 2 ^ 30 mod 512 = unat b div 2 ^ 30 mod 512"
    using r unfolding vpn_split by (subst (asm) digit_eq; simp add: digit_eq)
  then show ?l
    by (simp add: same_page_def va_path_def word_unat_eq_iff unat_vpn_index_eq)
qed

lemma same_page_at:
  assumes "m < 2 ^ 27" and "n < 2 ^ 27"
  shows "same_page (page_at m) (page_at n) \<longleftrightarrow> m = n"
  using assms by (simp add: same_page_iff page_at)

section \<open>Verification\<close>

definition page_matches :: "kstate \<Rightarrow> page_table_guard \<Rightarrow> u16 \<Rightarrow> usize \<Rightarrow> usize \<Rightarrow> bool" where
  "page_matches s pt f va pa \<longleftrightarrow>
     (case leaf_addr (phys_mem s) (pt_root pt) va of
        None \<Rightarrow> True
      | Some c \<Rightarrow> PTE2PA (load_usize (phys_mem s) c) = pa \<and>
          entry_flags (load_usize (phys_mem s) c) = f OR 1)"

lemma verify_page_char:
  assumes B: "bitflags_ok B" and inv: "pt_inv s pt"
  shows "verify_page B pt (PTEFlags f) (VirtAddr va) (PhysAddr pa) (phys_mem s) = Inr () \<longleftrightarrow>
     page_matches s pt f va pa"
proof (cases "walk (phys_mem s) (pt_root pt) (va_path va)")
  case None
  then show ?thesis
    by (simp add: verify_page_def find_char [OF assms] page_matches_def leaf_addr_def)
next
  case (Some t)
  show ?thesis
    using leaf_decodes(3) [OF inv Some] B
    by (auto simp: verify_page_def find_char [OF assms] page_matches_def leaf_addr_def Some
        and_then_eq_Ok load_pte_def referencing_address_def pte_flags_Ok flags_or_valid
        entry_flags_def)
qed

lemma verify_tracked_eq:
  assumes "guard_ok g"
  shows "verify_tracked B pt flags m (va, g) = verify_page B pt flags va (PhysAddr (guard_page g)) m"
  using assms
  by (cases g) (auto simp: inner_ref_def guard_at_def guard_addr_def page_aligned_page_of
      push_bit_drop_bit_page)

lemma verify_char:
  assumes B: "bitflags_ok B" and inv: "pt_inv s pt" and ok: "area_ok area"
  shows "verify_virt_area_mapping B pt area (phys_mem s) = Inr () \<longleftrightarrow>
     (\<forall>(va, pa) \<in> set (area_pages area). page_matches s pt (area_flags area) va pa)"
proof (cases "is_identically_mapped area")
  case True
  let ?e = "unat (virt_frame_number (range_end (virt_frame_range area)))"
  have lt: "n < 2 ^ 52" if "n < ?e" for n
    using ok that True by (auto simp: area_ok_def)
  have "get_base_virt_addr (VirtFrame (of_nat n)) = Inr (VirtAddr (page_at n))" if "n < ?e" for n
    using page_at(2) [OF lt [OF that]]
    by (simp add: page_aligned_page_of flip: page_at(3) [OF lt [OF that]])
  then show ?thesis
    using True ok
    by (auto simp: verify_virt_area_mapping_def for_virt_range_area area_pages_def for_each_checks
        virt_frames_upto_def identical_pages_def pte_flags_from_def area_flags_def
        verify_page_char [OF B inv])
next
  case False
  have "verify_tracked B pt (PTEFlags (area_flags area)) (phys_mem s) x = Inr () \<longleftrightarrow>
      page_matches s pt (area_flags area) (va_as_usize (fst x)) (guard_page (snd x))"
    if "x \<in> set (virt_frames area)" for x
  proof -
    have "guard_ok (snd x)"
      using that ok False by (auto simp: area_ok_def)
    then show ?thesis
      using verify_page_char [OF B inv, of "area_flags area" "va_as_usize (fst x)" "guard_page (snd x)"]
      by (cases x) (auto simp: verify_tracked_eq)
  qed
  then show ?thesis
    using False
    by (simp add: verify_virt_area_mapping_def area_pages_def for_each_checks pte_flags_from_def
        split_def flip: area_flags_def)
qed

text \<open>A page whose entry is in the map passes, and a page with no leaf node passes too.\<close>

lemma page_matches_mapped:
  assumes "kmap s pt va = Some (entry_for pa (f OR 1))" and "f AND NOT (mask 9) = 0"
    and "page_aligned pa"
  shows "page_matches s pt f va pa"
proof -
  from assms(1) obtain c where "leaf_addr (phys_mem s) (pt_root pt) va = Some c"
    "load_usize (phys_mem s) c = entry_for pa (f OR 1)"
    by (auto simp: pt_map_def split: option.splits if_splits)
  then show ?thesis
    using entry_for_flags PTE2PA_entry_for flags_or_valid_known [OF assms(2)] assms(3)
    by (auto simp: page_matches_def entry_flags_def page_aligned_page_of)
qed

lemma verify_mapped:
  assumes "bitflags_ok B" and "pt_inv s pt" and "area_ok area"
    and "area_flags area AND NOT (mask 9) = 0"
    and "\<forall>(va, pa) \<in> set (area_pages area).
      kmap s pt va = Some (entry_for pa (area_flags area OR 1))"
  shows "verify_virt_area_mapping B pt area (phys_mem s) = Inr ()"
  using assms area_pages_aligned(2) [OF assms(3)]
  by (auto simp: verify_char intro!: page_matches_mapped)

end
