(* ===== verification/Page_Life.thy ===== *)
theory Page_Life
  imports Page_Area
begin

text \<open>
  The end of a page table and the locking of its nodes: dropping a table gives its frames back,
  so that the allocator is as it was before the table was made; \<open>lock_table\<close> and \<open>unlock_table\<close>
  change the writable flag of the pages that hold the nodes and nothing else.
\<close>

section \<open>Dropping\<close>

lemma guards_drop_eq:
  assumes "\<forall>a \<in> set ns. page_aligned a"
  shows "for_each (map guard_at ns) frame_guard_drop s =
    and_then (for_each (map PhysAddr ns) (\<lambda>f fa. deallocate_one_frame fa f) (FRAME_ALLOCATOR s))
      (\<lambda>fa. Inr (s\<lparr>FRAME_ALLOCATOR := fa\<rparr>))"
  using assms
proof (induction ns arbitrary: s)
  case (Cons a ns)
  then show ?case
    by (cases "deallocate_one_frame (FRAME_ALLOCATOR s) (PhysAddr a)")
       (simp_all add: frame_guard_drop_def guard_at_def page_aligned_page_of)
qed simp

text \<open>Dropping the guards of the frames taken since a state \<open>s0\<close> restores its allocator.\<close>

lemma guards_drop_restores:
  assumes "kstate_wf s0" and "kstate_wf s" and "same_heap (FRAME_ALLOCATOR s0) (FRAME_ALLOCATOR s)"
    and "kused s = kused s0 \<union> set ns" and "kused s0 \<inter> set ns = {}" and "distinct ns"
  shows "for_each (map guard_at ns) frame_guard_drop s =
    Inr (s\<lparr>FRAME_ALLOCATOR := FRAME_ALLOCATOR s0\<rparr>)"
proof -
  have "page_aligned a" if "a \<in> set ns" for a
    using that assms(2,4) pages_aligned [of "FRAME_ALLOCATOR s"] by (auto simp: kstate_wf_def)
  moreover have "for_each (map PhysAddr ns) (\<lambda>f fa. deallocate_one_frame fa f) (FRAME_ALLOCATOR s) =
      Inr (FRAME_ALLOCATOR s0)"
    using assms
    by (intro fpool.dealloc_restores)
       (auto simp: kstate_wf_def used_frames_def distinct_map inj_on_def)
  ultimately show ?thesis
    by (simp add: guards_drop_eq)
qed

lemma page_table_drop_restores:
  assumes "kstate_wf s0" and "pt_inv s pt" and "same_heap (FRAME_ALLOCATOR s0) (FRAME_ALLOCATOR s)"
    and "kused s = kused s0 \<union> set (node_addrs pt)" and "kused s0 \<inter> set (node_addrs pt) = {}"
  shows "page_table_drop pt s = Inr (s\<lparr>FRAME_ALLOCATOR := FRAME_ALLOCATOR s0\<rparr>)"
  using guards_drop_restores [OF assms(1) pt_invD(1) [OF assms(2)] assms(3-5) pt_invD(3) [OF assms(2)]]
  by (simp add: page_table_drop_def pt_invD(2) [OF assms(2), symmetric])

section \<open>Locking\<close>

definition locked_entry :: "usize \<Rightarrow> usize" where
  "locked_entry e = entry_for (PTE2PA e) (entry_flags e AND (NOT 4 AND mask 9))"

definition unlocked_entry :: "usize \<Rightarrow> usize" where
  "unlocked_entry e = entry_for (PTE2PA e) (entry_flags e OR 4)"

fun relock_pages :: "(usize \<Rightarrow> usize) \<Rightarrow> usize list \<Rightarrow> (usize \<Rightarrow> usize option) \<Rightarrow> usize \<Rightarrow> usize option"
  where
  "relock_pages g [] M = M"
| "relock_pages g (n # ns) M =
     relock_pages g ns (\<lambda>b. if same_page n b then map_option g (M b) else M b)"

lemma relock_node_spec:
  assumes B: "bitflags_ok B" and inv: "pt_inv s pt" and al: "page_aligned n"
    and m: "kmap s pt n = Some e"
    and g: "\<not> bit (entry_for (PTE2PA e) (ch (entry_flags e))) 9"
      "bit (entry_for (PTE2PA e) (ch (entry_flags e))) 0"
  shows "\<exists>m'. relock_node B pt ch (guard_at n) (phys_mem s) = Inr m' \<and> pt_inv (s\<lparr>phys_mem := m'\<rparr>) pt \<and>
    (\<forall>x. page_of x \<notin> set (node_addrs pt) \<longrightarrow> m' x = phys_mem s x) \<and>
    (\<forall>b. kmap (s\<lparr>phys_mem := m'\<rparr>) pt b =
       (if same_page n b then Some (entry_for (PTE2PA e) (ch (entry_flags e))) else kmap s pt b))"
proof -
  from m obtain t where w: "walk (phys_mem s) (pt_root pt) (va_path n) = Some t"
    and e: "load_usize (phys_mem s) (cell t (vpn_index n 0)) = e"
    by (auto simp: pt_map_def leaf_addr_def split: option.splits if_splits)
  have "relock_node B pt ch (guard_at n) (phys_mem s) =
      Inr (store_usize (phys_mem s) (cell t (vpn_index n 0))
        (entry_for (PTE2PA e) (ch (entry_flags e))))"
    using al B leaf_decodes(3) [OF inv w]
    by (simp add: relock_node_def get_frame_def guard_at_def page_aligned_page_of va_from_identical_def
        find_char [OF B inv] leaf_addr_def w load_pte_def pte_flags_Ok e referencing_address_def
        store_pte_def entry_flags_def)
  then show ?thesis
    using write_leaf_spec [OF inv w g] by (auto simp: pt_grows_def)
qed

lemma entry_flags_bit:
  "n < 10 \<Longrightarrow> bit (entry_flags e) n = bit e n"
  by (auto simp: entry_flags_def bit_simps)

lemma locked_decodes:
  assumes "bit e 0" and "\<not> bit e 9"
  shows "\<not> bit (locked_entry e) 9" "bit (locked_entry e) 0"
    "\<not> bit (unlocked_entry e) 9" "bit (unlocked_entry e) 0"
  using assms
  by (simp_all add: locked_entry_def unlocked_entry_def bit_entry_for bit_and_iff bit_or_iff
      entry_flags_bit bit_not_iff bit_mask_iff)

lemma kmap_decodes:
  assumes "pt_inv s pt" and "kmap s pt a = Some e"
  shows "bit e 0" and "\<not> bit e 9"
  using assms leaf_decodes(3) [OF assms(1)]
  by (auto simp: pt_map_def leaf_addr_def split: option.splits if_splits)

lemma relock_loop:
  assumes B: "bitflags_ok B" and g: "\<And>e. g e = entry_for (PTE2PA e) (ch (entry_flags e))"
    and dec: "\<And>e. bit e 0 \<Longrightarrow> \<not> bit e 9 \<Longrightarrow> \<not> bit (g e) 9 \<and> bit (g e) 0"
    and "pt_inv s pt" and "\<forall>n \<in> set ns. page_aligned n \<and> kmap s pt n \<noteq> None"
  shows "\<exists>m'. for_each (map guard_at ns) (relock_node B pt ch) (phys_mem s) = Inr m' \<and>
    pt_inv (s\<lparr>phys_mem := m'\<rparr>) pt \<and>
    (\<forall>x. page_of x \<notin> set (node_addrs pt) \<longrightarrow> m' x = phys_mem s x) \<and>
    kmap (s\<lparr>phys_mem := m'\<rparr>) pt = relock_pages g ns (kmap s pt)"
  using assms(4-)
proof (induction ns arbitrary: s)
  case Nil
  then show ?case by simp
next
  case (Cons n ns)
  from Cons.prems(2) obtain e where e: "kmap s pt n = Some e" "page_aligned n" by auto
  note d = dec [OF kmap_decodes [OF Cons.prems(1) e(1)]]
  obtain m1 where one: "relock_node B pt ch (guard_at n) (phys_mem s) = Inr m1"
    "pt_inv (s\<lparr>phys_mem := m1\<rparr>) pt"
    "\<And>x. page_of x \<notin> set (node_addrs pt) \<Longrightarrow> m1 x = phys_mem s x"
    "\<And>b. kmap (s\<lparr>phys_mem := m1\<rparr>) pt b = (if same_page n b then Some (g e) else kmap s pt b)"
    using relock_node_spec [OF B Cons.prems(1) e(2,1), of ch] d by (auto simp: g)
  have km: "kmap (s\<lparr>phys_mem := m1\<rparr>) pt =
      (\<lambda>b. if same_page n b then map_option g (kmap s pt b) else kmap s pt b)"
  proof
    fix b
    have "same_page n b \<Longrightarrow> kmap s pt b = Some e"
      using pt_map_same_page [of n b "phys_mem s" "pt_root pt"] e(1) by simp
    then show "kmap (s\<lparr>phys_mem := m1\<rparr>) pt b =
        (if same_page n b then map_option g (kmap s pt b) else kmap s pt b)"
      using one(4) [of b] by simp
  qed
  have "\<forall>k \<in> set ns. page_aligned k \<and> kmap (s\<lparr>phys_mem := m1\<rparr>) pt k \<noteq> None"
    using Cons.prems(2) one(4) by auto
  from Cons.IH [OF one(2) this] obtain m2 where "for_each (map guard_at ns) (relock_node B pt ch) m1 = Inr m2"
    "pt_inv (s\<lparr>phys_mem := m2\<rparr>) pt"
    "\<And>x. page_of x \<notin> set (node_addrs pt) \<Longrightarrow> m2 x = m1 x"
    "kmap (s\<lparr>phys_mem := m2\<rparr>) pt = relock_pages g ns (kmap (s\<lparr>phys_mem := m1\<rparr>) pt)"
    by auto
  then show ?case
    using one(1,3) unfolding km by (intro exI [of _ m2]) simp
qed

lemma relock_pages_char:
  assumes "sorted_wrt (\<lambda>m n. \<not> same_page m n) ns"
  shows "relock_pages g ns M b =
    (if \<exists>n \<in> set ns. same_page n b then map_option g (M b) else M b)"
  using assms
proof (induction ns arbitrary: M)
  case (Cons n ns)
  then have "\<not> (same_page n b \<and> (\<exists>k \<in> set ns. same_page k b))"
    by (auto simp: same_page_def)
  with Cons show ?case by auto
qed simp

text \<open>The nodes of a table below \<open>2^39\<close> are in different pages.\<close>

lemma nodes_apart:
  assumes "distinct ns" and "\<forall>n \<in> set ns. page_aligned n \<and> unat n < 2 ^ 39"
  shows "sorted_wrt (\<lambda>m n. \<not> same_page m n) ns"
  using assms
proof (induction ns)
  case (Cons n ns)
  have "\<not> same_page n k" if "k \<in> set ns" for k
  proof
    assume "same_page n k"
    then have "unat n div 4096 = unat k div 4096"
      using Cons.prems that by (simp add: same_page_iff)
    then have "n = k"
      using Cons.prems that by (auto simp: page_aligned_def word_unat_eq_iff)
    with Cons.prems that show False by simp
  qed
  with Cons show ?case by simp
qed simp

lemma lock_change:
  assumes "bitflags_ok B"
  shows "bf_and B f (bf_not B PTEFlags_all (pte_flags_bits PTE_WRITABLE)) = f AND (NOT 4 AND mask 9)"
    and "bf_or B f (pte_flags_bits PTE_WRITABLE) = f OR 4"
  using assms by (simp_all add: bitflags_okD PTEFlags_all_mask PTE_WRITABLE_def)

definition nodes_mapped :: "kstate \<Rightarrow> page_table_guard \<Rightarrow> bool" where
  "nodes_mapped s pt \<longleftrightarrow>
     (\<forall>n \<in> set (node_addrs pt). unat n < 2 ^ 39 \<and> kmap s pt n \<noteq> None)"

lemma lock_table_spec:
  assumes B: "bitflags_ok B" and inv: "pt_inv s pt" and nm: "nodes_mapped s pt"
  shows "\<exists>m'. lock_table B pt (phys_mem s) = Inr m' \<and> pt_inv (s\<lparr>phys_mem := m'\<rparr>) pt \<and>
    (\<forall>x. page_of x \<notin> set (node_addrs pt) \<longrightarrow> m' x = phys_mem s x) \<and>
    (\<forall>b. kmap (s\<lparr>phys_mem := m'\<rparr>) pt b = (if \<exists>n \<in> set (node_addrs pt). same_page n b
       then map_option locked_entry (kmap s pt b) else kmap s pt b))"
    and "\<exists>m'. unlock_table B pt (phys_mem s) = Inr m' \<and> pt_inv (s\<lparr>phys_mem := m'\<rparr>) pt \<and>
    (\<forall>x. page_of x \<notin> set (node_addrs pt) \<longrightarrow> m' x = phys_mem s x) \<and>
    (\<forall>b. kmap (s\<lparr>phys_mem := m'\<rparr>) pt b = (if \<exists>n \<in> set (node_addrs pt). same_page n b
       then map_option unlocked_entry (kmap s pt b) else kmap s pt b))"
proof -
  note sh = pt_invD(5) [OF inv]
  have al: "\<forall>n \<in> set (node_addrs pt). page_aligned n \<and> kmap s pt n \<noteq> None"
    using nm pt_shapeD(2) [OF sh] by (auto simp: nodes_mapped_def)
  have ap: "sorted_wrt (\<lambda>m n. \<not> same_page m n) (node_addrs pt)"
    using nm al pt_invD(3) [OF inv] by (intro nodes_apart) (auto simp: nodes_mapped_def)
  note ch = relock_pages_char [OF ap]
  show "\<exists>m'. lock_table B pt (phys_mem s) = Inr m' \<and> pt_inv (s\<lparr>phys_mem := m'\<rparr>) pt \<and>
    (\<forall>x. page_of x \<notin> set (node_addrs pt) \<longrightarrow> m' x = phys_mem s x) \<and>
    (\<forall>b. kmap (s\<lparr>phys_mem := m'\<rparr>) pt b = (if \<exists>n \<in> set (node_addrs pt). same_page n b
       then map_option locked_entry (kmap s pt b) else kmap s pt b))"
    using relock_loop [OF B locked_entry_def _ inv al] locked_decodes
    unfolding lock_table_def lock_change(1) [OF B] ch pt_invD(2) [OF inv, symmetric]
    by (auto simp: fun_eq_iff ch)
  show "\<exists>m'. unlock_table B pt (phys_mem s) = Inr m' \<and> pt_inv (s\<lparr>phys_mem := m'\<rparr>) pt \<and>
    (\<forall>x. page_of x \<notin> set (node_addrs pt) \<longrightarrow> m' x = phys_mem s x) \<and>
    (\<forall>b. kmap (s\<lparr>phys_mem := m'\<rparr>) pt b = (if \<exists>n \<in> set (node_addrs pt). same_page n b
       then map_option unlocked_entry (kmap s pt b) else kmap s pt b))"
    using relock_loop [OF B unlocked_entry_def _ inv al] locked_decodes
    unfolding unlock_table_def lock_change(2) [OF B] ch pt_invD(2) [OF inv, symmetric]
    by (auto simp: fun_eq_iff ch)
qed

text \<open>What locking does to an entry made by the kernel, and that unlocking undoes it.\<close>

lemma locked_entry_for:
  assumes "f AND NOT (mask 9) = 0"
  shows "locked_entry (entry_for pa f) = entry_for (page_of pa) (f AND NOT 4)"
    and "unlocked_entry (entry_for pa f) = entry_for (page_of pa) (f OR 4)"
proof -
  have "f AND (NOT 4 AND mask 9) = f AND NOT 4"
  proof (rule bit_word_eqI)
    fix n assume "n < LENGTH(16)"
    then show "bit (f AND (NOT 4 AND mask 9)) n = bit (f AND NOT 4) n"
      using bit_small_flags [OF assms, of n] by (auto simp: bit_simps)
  qed
  then show "locked_entry (entry_for pa f) = entry_for (page_of pa) (f AND NOT 4)"
    and "unlocked_entry (entry_for pa f) = entry_for (page_of pa) (f OR 4)"
    using assms
    by (simp_all add: locked_entry_def unlocked_entry_def PTE2PA_entry_for entry_flags_def entry_for_flags)
qed

end
