(* ===== verification/Heap_Allocator.thy ===== *)
theory Heap_Allocator
  imports Memory
begin

text \<open>
  \<^verbatim>\<open>kernel/src/allocator/heap_allocator.rs\<close>: the kernel heap, a region of \<^verbatim>\<open>.bss\<close> that the crate
  \<^verbatim>\<open>buddy_system_allocator\<close> manages for the collections of Rust.  The allocator itself is not part of the
  source; what the kernel does is to check and hand over the region and to print the counters that
  the allocator keeps.
\<close>

text \<open>The region that the allocator is given: its start and its size.\<close>

definition heap_allocator_init :: "usize \<Rightarrow> (usize \<times> usize) result" where
  "heap_allocator_init start =
     (if \<not> pa_is_page_aligned (PhysAddr start)
      then Panic (ExplicitPanic ''heap_allocator::init: heap start address not page aligned!'')
      else Ok (start, KERNEL_HEAP_SIZE))"

definition handle_alloc_error :: "'a result" where
  "handle_alloc_error = Panic (ExplicitPanic (''HEAP_ALLOCATOR: kernel heap allocation failed'' @ [CHR 0x0A]))"

record heap_stats =
  stats_alloc_actual :: usize
  stats_alloc_user :: usize
  stats_total_bytes :: usize

definition kernel_heap_status :: "heap_stats \<Rightarrow> usize \<times> usize \<times> usize" where
  "kernel_heap_status allocator =
     (let actual = stats_alloc_actual allocator;
          user = stats_alloc_user allocator;
          total = stats_total_bytes allocator
      in (actual, user, total))"

text \<open>The numbers that are printed: the usage in percent, and the two sizes in KB.\<close>

definition print_kernel_heap_status :: "heap_stats \<Rightarrow> (usize \<times> usize \<times> usize) result" where
  "print_kernel_heap_status allocator =
     (let (actual, _, total) = kernel_heap_status allocator
      in and_then (checked_mul actual 100) (\<lambda>a.
         and_then (checked_div a total) (\<lambda>percent.
         and_then (checked_div actual 1024) (\<lambda>used_kb.
         and_then (checked_div total 1024) (\<lambda>total_kb.
           Ok (percent, used_kb, total_kb))))))"

text \<open>What the documentation of the allocator says of its counters after \<open>init\<close>.\<close>

definition heap_stats_ok :: "heap_stats \<Rightarrow> bool" where
  "heap_stats_ok st \<longleftrightarrow> stats_total_bytes st = KERNEL_HEAP_SIZE \<and> stats_alloc_actual st \<le> stats_total_bytes st"

lemma print_heap_status_ok:
  assumes "heap_stats_ok st"
  shows "\<exists>percent used_kb total_kb. print_kernel_heap_status st = Inr (percent, used_kb, total_kb) \<and>
    percent \<le> 100 \<and> used_kb \<le> total_kb \<and> total_kb = 1024"
proof -
  let ?a = "stats_alloc_actual st"
  have a: "unat ?a \<le> 0x100000" and t: "stats_total_bytes st = 0x100000"
    using assms by (auto simp: heap_stats_ok_def KERNEL_HEAP_SIZE_def word_le_nat_alt)
  then have u: "unat (?a * 100) = unat ?a * 100" by (simp add: unat_word_ariths(2))
  have "unat (?a * 100 div 0x100000) \<le> 100" "unat (?a div 1024) \<le> 1024"
    using a u by (simp_all add: unat_div div_le_mono [of _ "0x100000 * 100" "0x100000", simplified]
        div_le_mono [of _ "0x100000" "1024", simplified])
  then have "?a * 100 div 0x100000 \<le> 100" "?a div 1024 \<le> 1024"
    by (simp_all add: word_le_nat_alt)
  then show ?thesis
    using a t by (simp add: print_kernel_heap_status_def kernel_heap_status_def checked_mul_def checked_div_def Let_def)
qed

end
