(* ===== verification/Address_Space.thy ===== *)
theory Address_Space
  imports Page_Life Heap_Allocator
begin

text \<open>
  \<open>AddrSpace\<close> of \<^verbatim>\<open>kernel/src/mm/address_space.rs\<close>, and the initialisation of the memory
  subsystem of \<^verbatim>\<open>kernel/src/mm/mod.rs\<close>.

  The register \<^verbatim>\<open>satp\<close> is written by the crate \<^verbatim>\<open>riscv\<close>: the encoding that \<^verbatim>\<open>satp::set\<close> writes
  is the argument \<open>S\<close> of the definitions (mode, address space id, page number of the root), and
  \<open>satp_set_ok\<close> is what the privileged architecture fixes about it.
\<close>

section \<open>Address spaces\<close>

record addr_space =
  page_table :: page_table_guard
  virt_areas :: "virt_area list"

type_synonym satp_encoding = "usize \<Rightarrow> usize \<Rightarrow> usize \<Rightarrow> usize"

definition satp_set_ok :: "satp_encoding \<Rightarrow> bool" where
  "satp_set_ok S \<longleftrightarrow>
     (\<forall>mode asid ppn. unat mode < 2 ^ 4 \<longrightarrow> unat asid < 2 ^ 16 \<longrightarrow> unat ppn < 2 ^ 44 \<longrightarrow>
        S mode asid ppn = (push_bit 60 mode OR push_bit 44 asid) OR ppn)"

text \<open>The mode \<^verbatim>\<open>Sv39\<close> of \<^verbatim>\<open>satp\<close>.\<close>

definition satp_Sv39 :: usize where "satp_Sv39 = 8"

text \<open>The state of a hart and of the kernel's statics that the memory subsystem uses.\<close>

record mm_state =
  kern :: kstate
  csr_satp :: usize
  csr_sscratch :: usize
  KERNEL_HEAP_ALLOCATOR :: "(usize \<times> usize) option"   \<comment> \<open>the region given to the allocator; \<open>None\<close> while empty\<close>
  KERNEL_ADDRESS_SPACE :: "addr_space option"   \<comment> \<open>\<open>None\<close> until the lazy static is forced\<close>

definition addr_space_load :: "satp_encoding \<Rightarrow> addr_space \<Rightarrow> 'a mm_state_scheme \<Rightarrow> 'a mm_state_scheme result" where
  "addr_space_load S space h =
     and_then (get_root_frame (page_table space)) (\<lambda>f.
       Ok (h\<lparr>csr_satp := S satp_Sv39 0 (frame_number f)\<rparr>))"

definition addr_space_verify :: "bitflags_ops \<Rightarrow> addr_space \<Rightarrow> pmem \<Rightarrow> unit result" where
  "addr_space_verify B space m =
     for_each (rev (virt_areas space))
       (\<lambda>area _. verify_virt_area_mapping B (page_table space) area m) ()"

definition addr_space_make_satp :: "addr_space \<Rightarrow> usize" where
  "addr_space_make_satp space = make_satp (page_table space)"

definition addr_space_translate ::
  "bitflags_ops \<Rightarrow> addr_space \<Rightarrow> virt_addr \<Rightarrow> pmem \<Rightarrow> (phys_addr \<times> page_flags) option result" where
  "addr_space_translate B space va m =
     and_then (pt_translate B (page_table space) va m) (\<lambda>r.
       Ok (case r of None \<Rightarrow> None | Some (pa, f) \<Rightarrow> Some (pa, page_flags_from f)))"

section \<open>The kernel address space\<close>

text \<open>One of the blocks \<open>virt_areas.push({ ... })\<close> for identically mapped memory.\<close>

definition push_identical ::
  "usize \<Rightarrow> usize \<Rightarrow> page_flags \<Rightarrow> string \<Rightarrow> virt_area list \<Rightarrow> virt_area list result" where
  "push_identical pa_begin pa_end perms name areas =
     and_then (identically_mapped (PhysAddr pa_begin) (PhysAddr pa_end) perms) (\<lambda>area0.
       let area = set_name area0 name
       in and_then (print_info area) (\<lambda>_. Ok (areas @ [area])))"

definition make_kernel ::
  "bitflags_ops \<Rightarrow> linker_symbols \<Rightarrow> kstate \<Rightarrow> (addr_space \<times> kstate) result" where
  "make_kernel B L s =
     (let rw = page_flags_or B PAGE_READABLE PAGE_WRITABLE;
          rx = page_flags_or B PAGE_READABLE PAGE_EXECUTABLE
      in and_then (make_trampoline B L s) (\<lambda>(trampoline, s1).
         and_then (print_info trampoline) (\<lambda>_.
         and_then (push_identical (ld_heap_start L) (ld_heap_end L) rw ''heap'' [trampoline]) (\<lambda>a1.
         and_then (push_identical (ld_kernel_stack_start L) (ld_kernel_stack_end L) rw
                     ''kernel boot stack'' a1) (\<lambda>a2.
         and_then (push_identical (ld_bss_start L) (ld_bss_end L) rw ''.bss (+kernel heap)'' a2) (\<lambda>a3.
         and_then (push_identical (ld_data_start L) (ld_data_end L) rw ''.data'' a3) (\<lambda>a4.
         and_then (push_identical (ld_rodata_start L) (ld_rodata_end L) PAGE_READABLE ''.rodata'' a4) (\<lambda>a5.
         and_then (push_identical (ld_text_start L) (ld_text_end L) rx ''.text'' a5) (\<lambda>a6.
         and_then (checked_add VIRTIO_BASE VIRTIO_SIZE) (\<lambda>virtio_end.
         and_then (push_identical VIRTIO_BASE virtio_end rw ''virtio'' a6) (\<lambda>a7.
         and_then (checked_add UART_BASE UART_SIZE) (\<lambda>uart_end.
         and_then (push_identical UART_BASE uart_end rw ''uart'' a7) (\<lambda>a8.
         and_then (checked_add PLIC_BASE PLIC_SIZE) (\<lambda>plic_end.
         and_then (push_identical PLIC_BASE plic_end rw ''plic'' a8) (\<lambda>a9.
         and_then (checked_add CLINT_BASE CLINT_SIZE) (\<lambda>clint_end.
         and_then (push_identical CLINT_BASE clint_end rw ''clint'' a9) (\<lambda>areas.
         and_then (page_table_allocate s1) (\<lambda>(pt, s2).
         and_then (for_each areas (map_virt_area_allocate B) (pt, s2)) (\<lambda>(pt', s3).
           Ok (\<lparr>page_table = pt', virt_areas = areas\<rparr>, s3))))))))))))))))))))"

section \<open>The address space of the first process\<close>

text \<open>
  \<open>init_text\<close> is the program that the build compiles into the kernel binary, and \<open>vps\<close> the
  constant \<open>PAGE_SIZE\<close> of \<^verbatim>\<open>virtio_drivers\<close>.
\<close>

definition make_init ::
  "bitflags_ops \<Rightarrow> linker_symbols \<Rightarrow> usize \<Rightarrow> u8 list \<Rightarrow> kstate \<Rightarrow> (addr_space \<times> kstate) result" where
  "make_init B L vps init_text s =
     (let text_va_begin = VirtAddr TEXT_BASE_USER_VA
      in and_then (va_add text_va_begin (of_nat (length init_text))) (\<lambda>e.
         and_then (va_align_up e) (\<lambda>text_va_end.
         and_then (va_add text_va_end vps) (\<lambda>user_stack_va.
         and_then (make_trampoline B L s) (\<lambda>(trampoline, s1).
         and_then (print_info trampoline) (\<lambda>_.
         and_then (make_initial_user_stack B vps user_stack_va s1) (\<lambda>((stack, _), s2).
         and_then (print_info stack) (\<lambda>_.
         let perms = page_flags_or B (page_flags_or B PAGE_READABLE PAGE_EXECUTABLE) PAGE_USER
         in and_then (virt_area_new text_va_begin text_va_end perms) (\<lambda>text0.
         and_then (allocate_with_data init_text s2) (\<lambda>(phys_frame, s3).
         and_then (track_frame text0 text_va_begin (ExclusivelyAllocated phys_frame) s3) (\<lambda>(text1, s4).
         let text = set_name text1 ''.text'';
             areas = [trampoline, stack, text]
         in and_then (print_info text) (\<lambda>_.
         and_then (page_table_allocate s4) (\<lambda>(pt, s5).
         and_then (for_each areas (map_virt_area_allocate B) (pt, s5)) (\<lambda>(pt', s6).
           Ok (\<lparr>page_table = pt', virt_areas = areas\<rparr>, s6)))))))))))))))"

definition init_trapframe ::
  "bitflags_ops \<Rightarrow> addr_space \<Rightarrow> kstate \<Rightarrow> ((phys_addr \<times> addr_space) \<times> kstate) result" where
  "init_trapframe B space s =
     and_then (make_trapframe B s) (\<lambda>((area, pa), s1).
     and_then (print_info area) (\<lambda>_.
     and_then (map_virt_area_allocate B area (page_table space, s1)) (\<lambda>(pt', s2).
       Ok ((pa, \<lparr>page_table = pt', virt_areas = virt_areas space @ [area]\<rparr>), s2))))"

text \<open>
  Dropping a space runs its \<open>Drop\<close>, which only prints, and then drops its fields in the order of
  their declaration: the page table, and the areas with the guards of their frames.
\<close>

definition virt_area_drop :: "virt_area \<Rightarrow> kstate \<Rightarrow> kstate result" where
  "virt_area_drop area s = for_each (map snd (virt_frames area)) virt_frame_guard_drop s"

definition addr_space_drop :: "addr_space \<Rightarrow> kstate \<Rightarrow> kstate result" where
  "addr_space_drop space s =
     and_then (get_root_frame (page_table space)) (\<lambda>f.
     and_then (frame_get_base_phys_addr f) (\<lambda>_.
     and_then (page_table_drop (page_table space) s) (\<lambda>s1.
       for_each (virt_areas space) virt_area_drop s1)))"

definition lock_space ::
  "bitflags_ops \<Rightarrow> linker_symbols \<Rightarrow> satp_encoding \<Rightarrow> addr_space \<Rightarrow> 'a mm_state_scheme
     \<Rightarrow> 'a mm_state_scheme result" where
  "lock_space B L S space h =
     and_then (make_kernel B L (kern h)) (\<lambda>(another_space, s1).
     and_then (addr_space_load S another_space (h\<lparr>kern := s1\<rparr>)) (\<lambda>h1.
     and_then (lock_table B (page_table space) (phys_mem (kern h1))) (\<lambda>m.
     and_then (addr_space_load S space (h1\<lparr>kern := (kern h1)\<lparr>phys_mem := m\<rparr>\<rparr>)) (\<lambda>h2.
     and_then (addr_space_drop another_space (kern h2)) (\<lambda>s2.
       Ok (h2\<lparr>kern := s2\<rparr>))))))"

definition unlock_space ::
  "bitflags_ops \<Rightarrow> linker_symbols \<Rightarrow> satp_encoding \<Rightarrow> addr_space \<Rightarrow> 'a mm_state_scheme
     \<Rightarrow> 'a mm_state_scheme result" where
  "unlock_space B L S space h =
     and_then (make_kernel B L (kern h)) (\<lambda>(another_space, s1).
     and_then (addr_space_load S another_space (h\<lparr>kern := s1\<rparr>)) (\<lambda>h1.
     and_then (unlock_table B (page_table space) (phys_mem (kern h1))) (\<lambda>m.
     and_then (addr_space_load S space (h1\<lparr>kern := (kern h1)\<lparr>phys_mem := m\<rparr>\<rparr>)) (\<lambda>h2.
     and_then (addr_space_drop another_space (kern h2)) (\<lambda>s2.
       Ok (h2\<lparr>kern := s2\<rparr>))))))"

section \<open>The kernel's own space\<close>

text \<open>Forcing the lazy static builds and verifies the kernel's address space once.\<close>

definition KERNEL_ADDRESS_SPACE_force ::
  "bitflags_ops \<Rightarrow> linker_symbols \<Rightarrow> 'a mm_state_scheme \<Rightarrow> (addr_space \<times> 'a mm_state_scheme) result" where
  "KERNEL_ADDRESS_SPACE_force B L h =
     (case KERNEL_ADDRESS_SPACE h of
        Some space \<Rightarrow> Ok (space, h)
      | None \<Rightarrow>
          and_then (make_kernel B L (kern h)) (\<lambda>(kernel_space, s').
          and_then (addr_space_verify B kernel_space (phys_mem s')) (\<lambda>_.
            Ok (kernel_space, h\<lparr>kern := s', KERNEL_ADDRESS_SPACE := Some kernel_space\<rparr>))))"

text \<open>\<^verbatim>\<open>allocator::init\<close>: the kernel heap first, then the lazy static of the frame allocator.\<close>

definition allocator_init :: "linker_symbols \<Rightarrow> 'a mm_state_scheme \<Rightarrow> 'a mm_state_scheme result" where
  "allocator_init L h =
     and_then (heap_allocator_init (ld_kernel_heap_space L)) (\<lambda>region.
       Ok (h\<lparr>kern := (kern h)\<lparr>FRAME_ALLOCATOR := FRAME_ALLOCATOR_init L\<rparr>, KERNEL_HEAP_ALLOCATOR := Some region\<rparr>))"

definition mm_init :: "bitflags_ops \<Rightarrow> linker_symbols \<Rightarrow> 'a mm_state_scheme \<Rightarrow> 'a mm_state_scheme result" where
  "mm_init B L h =
     and_then (allocator_init L h) (\<lambda>h1.
     and_then (KERNEL_ADDRESS_SPACE_force B L h1) (\<lambda>(_, h2). Ok h2))"

definition mm_hart_init ::
  "bitflags_ops \<Rightarrow> linker_symbols \<Rightarrow> satp_encoding \<Rightarrow> 'a mm_state_scheme \<Rightarrow> 'a mm_state_scheme result" where
  "mm_hart_init B L S h =
     and_then (KERNEL_ADDRESS_SPACE_force B L h) (\<lambda>(space, h1).
     and_then (addr_space_load S space h1) (\<lambda>h2.
       let h3 = h2\<lparr>csr_sscratch := TRAPFRAME_BASE_USER_VA\<rparr>
       in and_then (rust_assert '''' (csr_sscratch h3 = TRAPFRAME_BASE_USER_VA)) (\<lambda>_. Ok h3)))"

end
