(* ===== verification/Space_Map.thy ===== *)
theory Space_Map
  imports Address_Space
begin

text \<open>
  Facts that every address space shares: a page table is not affected by writes outside its
  nodes, mapping a list of areas adds the pages of each of them to the map, and the areas that
  the constructors of \<open>VirtArea\<close> build.
\<close>

section \<open>Writes outside a page table\<close>

lemma load_frame:
  assumes "page_aligned t" and "t \<in> N" and "unat i < 512" and "\<And>x. page_of x \<in> N \<Longrightarrow> m' x = m x"
  shows "load_usize m' (cell t i) = load_usize m (cell t i)"
proof (rule load_usize_cong)
  fix k :: nat assume "k < 8"
  then have "page_of (cell t i + of_nat k) \<in> N"
    using page_of_cell_byte [OF assms(1,3)] assms(2) by simp
  then show "m' (cell t i + of_nat k) = m (cell t i + of_nat k)"
    by (rule assms(4))
qed

lemma walk_frame:
  assumes sh: "pt_shape m root N" and fr: "\<And>x. page_of x \<in> N \<Longrightarrow> m' x = m x" and "node_path p"
  shows "walk m' root p = walk m root p"
  using assms(3)
proof (induction p rule: rev_induct)
  case (snoc i p)
  then have p: "node_path p" "unat i < 512" by (auto dest: node_path_snocD)
  show ?case
  proof (cases "walk m root p")
    case (Some t)
    have "t \<in> N" "page_aligned t"
      using pt_shapeD(2,3) [OF sh] p(1) Some by blast+
    then show ?thesis
      using snoc.IH [OF p(1)] Some load_frame [OF _ _ p(2) fr, of t]
      by (simp add: walk_snoc child_def)
  qed (use snoc.IH [OF p(1)] in \<open>simp add: walk_snoc\<close>)
qed simp

lemma pt_frame:
  assumes inv: "pt_inv s pt" and fr: "\<And>x. page_of x \<in> set (node_addrs pt) \<Longrightarrow> phys_mem s' x = phys_mem s x"
    and wf: "kstate_wf s'" and us: "set (node_addrs pt) \<subseteq> kused s'"
  shows "pt_inv s' pt" and "kmap s' pt = kmap s pt" and "kpaths s' pt = kpaths s pt"
proof -
  note sh = pt_invD(5) [OF inv]
  have w: "walk (phys_mem s') (pt_root pt) p = walk (phys_mem s) (pt_root pt) p" if "node_path p" for p
    by (rule walk_frame [OF sh _ that]) (rule fr)
  have ld: "load_usize (phys_mem s') (cell t i) = load_usize (phys_mem s) (cell t i)"
    if "t \<in> set (node_addrs pt)" "unat i < 512" for t i
    by (rule load_frame [OF pt_shapeD(2) [OF sh that(1)] that]) (rule fr)
  have "pt_shape (phys_mem s') (pt_root pt) (set (node_addrs pt))"
  proof (rule pt_shapeI)
    show "pt_root pt \<in> set (node_addrs pt)" by (rule pt_shapeD(1) [OF sh])
    show "page_aligned t" if "t \<in> set (node_addrs pt)" for t by (rule pt_shapeD(2) [OF sh that])
    show "t \<in> set (node_addrs pt)" if "node_path p" "walk (phys_mem s') (pt_root pt) p = Some t" for p t
      using that pt_shapeD(3) [OF sh] by (simp add: w)
    show "p = q" if "node_path p" "node_path q" "walk (phys_mem s') (pt_root pt) p = Some t"
        "walk (phys_mem s') (pt_root pt) q = Some t" for p q t
      using that pt_shapeD(4) [OF sh that(1,2)] by (simp add: w)
    show "\<not> bit (load_usize (phys_mem s') (cell t i)) 9" if "t \<in> set (node_addrs pt)" "unat i < 512" for t i
      using pt_shapeD(5) [OF sh that] ld [OF that] by simp
    show "pointer_entry (load_usize (phys_mem s') (cell t i))"
      if "node_path p" "length p \<le> 1" "walk (phys_mem s') (pt_root pt) p = Some t" "unat i < 512" for p t i
      using that pt_shapeD(3) [OF sh that(1)] pt_shapeD(6) [OF sh that(1,2) _ that(4)] by (simp add: w ld)
  qed
  then show "pt_inv s' pt"
    using inv wf us by (simp add: pt_inv_def)
  show "kmap s' pt = kmap s pt"
  proof
    fix b
    show "kmap s' pt b = kmap s pt b"
    proof (cases "walk (phys_mem s) (pt_root pt) (va_path b)")
      case None
      then show ?thesis by (simp add: pt_map_def leaf_addr_def w)
    next
      case (Some t)
      then have "t \<in> set (node_addrs pt)"
        using pt_shapeD(3) [OF sh node_path_va] by blast
      then show ?thesis
        using Some by (simp add: pt_map_leaf w ld unat_vpn_index)
    qed
  qed
  show "kpaths s' pt = kpaths s pt"
    by (auto simp: node_paths_def w)
qed

section \<open>Mapping a list of areas\<close>

fun add_areas :: "virt_area list \<Rightarrow> (usize \<Rightarrow> usize option) \<Rightarrow> usize \<Rightarrow> usize option" where
  "add_areas [] M = M"
| "add_areas (a # as) M = add_areas as (add_pages (area_flags a) (area_pages a) M)"

definition all_pages :: "virt_area list \<Rightarrow> (usize \<times> usize) list" where
  "all_pages areas = concat (map area_pages areas)"

lemma all_pages_simps [simp]:
  "all_pages [] = []" "all_pages (a # as) = area_pages a @ all_pages as"
  by (simp_all add: all_pages_def)

definition areas_ok :: "virt_area list \<Rightarrow> bool" where
  "areas_ok areas \<longleftrightarrow> (\<forall>a \<in> set areas. area_ok a \<and> area_flags a AND NOT (mask 9) = 0) \<and>
     pages_apart (all_pages areas)"

lemma areas_ok_Cons:
  "areas_ok (a # as) \<longleftrightarrow> area_ok a \<and> area_flags a AND NOT (mask 9) = 0 \<and> areas_ok as \<and>
     pages_apart (area_pages a) \<and>
     (\<forall>x \<in> set (area_pages a). \<forall>y \<in> set (all_pages as). \<not> same_page (fst x) (fst y))"
  by (auto simp: areas_ok_def pages_apart_def sorted_wrt_append)

lemma map_areas_spec:
  assumes B: "bitflags_ok B" and "pt_inv s pt" and "areas_ok areas"
    and "\<forall>x \<in> set (all_pages areas). kmap s pt (fst x) = None"
    and "card (kpaths s pt \<union> area_paths (all_pages areas)) \<le> pt_budget s pt"
  shows "\<exists>pt' s'. for_each areas (map_virt_area_allocate B) (pt, s) = Inr (pt', s') \<and>
     pt_inv s' pt' \<and> pt_grows s pt s' pt' \<and> kmap s' pt' = add_areas areas (kmap s pt) \<and>
     kpaths s' pt' = kpaths s pt \<union> area_paths (all_pages areas) \<and> pt_budget s' pt' = pt_budget s pt"
  using assms(2-)
proof (induction areas arbitrary: s pt)
  case Nil
  then show ?case by simp
next
  case (Cons a as)
  have a: "area_ok a" "area_flags a AND NOT (mask 9) = 0" "pages_apart (area_pages a)" "areas_ok as"
    and dis: "\<forall>x \<in> set (area_pages a). \<forall>y \<in> set (all_pages as). \<not> same_page (fst x) (fst y)"
    using Cons.prems(2) by (auto simp: areas_ok_Cons)
  have un: "\<forall>(va, pa) \<in> set (area_pages a). page_aligned pa \<and> kmap s pt va = None"
    using Cons.prems(3) by (auto dest: area_pages_aligned(2) [OF a(1)] bspec)
  have "card (kpaths s pt \<union> area_paths (area_pages a)) \<le>
      card (kpaths s pt \<union> area_paths (all_pages (a # as)))"
    by (rule card_mono) auto
  then have bud: "card (kpaths s pt \<union> area_paths (area_pages a)) \<le> pt_budget s pt"
    using Cons.prems(4) by linarith
  obtain pt1 s1 where one: "map_pages B (area_flags a) (area_pages a) (pt, s) = Inr (pt1, s1)"
    "pt_inv s1 pt1" "pt_grows s pt s1 pt1" "kmap s1 pt1 = add_pages (area_flags a) (area_pages a) (kmap s pt)"
    "kpaths s1 pt1 = kpaths s pt \<union> area_paths (area_pages a)" "pt_budget s1 pt1 = pt_budget s pt"
    using map_pages_spec [OF B a(2) Cons.prems(1) a(3) un bud] by blast
  have "\<forall>y \<in> set (all_pages as). kmap s1 pt1 (fst y) = None"
    using dis Cons.prems(3) by (auto simp: one(4) add_pages_other)
  moreover have "card (kpaths s1 pt1 \<union> area_paths (all_pages as)) \<le> pt_budget s1 pt1"
    using Cons.prems(4) by (simp add: one(5,6) Un_assoc)
  ultimately obtain pt' s' where rest: "for_each as (map_virt_area_allocate B) (pt1, s1) = Inr (pt', s')"
    "pt_inv s' pt'" "pt_grows s1 pt1 s' pt'" "kmap s' pt' = add_areas as (kmap s1 pt1)"
    "kpaths s' pt' = kpaths s1 pt1 \<union> area_paths (all_pages as)" "pt_budget s' pt' = pt_budget s1 pt1"
    using Cons.IH [OF one(2) a(4)] by blast
  then show ?case
    using one(1,4-6) pt_grows_trans [OF one(3) rest(3)]
    by (auto simp: map_virt_area_char [OF a(1)] Un_assoc)
qed

lemma add_areas_other:
  "\<forall>x \<in> set (all_pages areas). \<not> same_page (fst x) b \<Longrightarrow> add_areas areas M b = M b"
  by (induction areas arbitrary: M) (auto simp: add_pages_other)

lemma add_areas_in:
  assumes "areas_ok areas" and "a \<in> set areas" and "(va, pa) \<in> set (area_pages a)" and "same_page va b"
  shows "add_areas areas M b = Some (entry_for pa (area_flags a OR 1))"
  using assms
proof (induction areas arbitrary: M)
  case (Cons c cs)
  show ?case
  proof (cases "a = c")
    case True
    then have "\<forall>y \<in> set (all_pages cs). \<not> same_page (fst y) b"
      using Cons.prems by (fastforce simp: areas_ok_Cons same_page_def)
    then show ?thesis
      using Cons.prems True by (auto simp: areas_ok_Cons add_areas_other intro: add_pages_in)
  next
    case False
    then show ?thesis
      using Cons by (auto simp: areas_ok_Cons)
  qed
qed simp

text \<open>Every page of every area passes the verification of the space.\<close>

lemma addr_space_verify_ok:
  assumes "bitflags_ok B" and "pt_inv s (page_table space)" and "areas_ok (virt_areas space)"
    and "kmap s (page_table space) = add_areas (virt_areas space) M"
  shows "addr_space_verify B space (phys_mem s) = Inr ()"
  using assms
  by (auto simp: addr_space_verify_def for_each_checks areas_ok_def
      intro!: verify_mapped add_areas_in [OF assms(3)])

section \<open>Building a table\<close>

text \<open>
  The end of \<open>make_kernel\<close> and of \<open>make_init\<close>: a new table in which the areas are mapped one
  after the other.  It takes one frame for each path that the areas need.
\<close>

definition build :: "bitflags_ops \<Rightarrow> virt_area list \<Rightarrow> kstate \<Rightarrow> (addr_space \<times> kstate) result" where
  "build B areas s =
     and_then (page_table_allocate s) (\<lambda>(pt, s').
     and_then (for_each areas (map_virt_area_allocate B) (pt, s')) (\<lambda>(pt', s'').
       Inr (\<lparr>page_table = pt', virt_areas = areas\<rparr>, s'')))"

lemma nodes_count:
  assumes "set ns \<subseteq> kfree s" and "distinct ns" and "kfree s' = kfree s - set ns"
  shows "card (kfree s') + length ns = card (kfree s)"
  using assms card_Diff_subset [of "set ns" "kfree s"] card_mono [OF finite_free_pages assms(1)]
    distinct_card [OF assms(2)] by simp

lemma build_spec:
  assumes B: "bitflags_ok B" and wf: "kstate_wf s" and ok: "areas_ok areas"
    and free: "card ({[]} \<union> area_paths (all_pages areas)) \<le> card (kfree s)"
  shows "\<exists>pt s'. build B areas s = Inr (\<lparr>page_table = pt, virt_areas = areas\<rparr>, s') \<and> pt_inv s' pt \<and>
     kmap s' pt = add_areas areas (\<lambda>_. None) \<and> set (node_addrs pt) \<subseteq> kfree s \<and>
     length (node_addrs pt) = card ({[]} \<union> area_paths (all_pages areas)) \<and>
     kused s' = kused s \<union> set (node_addrs pt) \<and> kfree s' = kfree s - set (node_addrs pt) \<and>
     same_heap (FRAME_ALLOCATOR s) (FRAME_ALLOCATOR s') \<and>
     (\<forall>x. page_of x \<notin> set (node_addrs pt) \<longrightarrow> phys_mem s' x = phys_mem s x)"
proof -
  have "0 < card ({[]} \<union> area_paths (all_pages areas))" by (simp add: card_gt_0_iff)
  then have ne: "kfree s \<noteq> {}" using free by auto
  from page_table_allocate_spec [OF wf ne] obtain pt s1 a where
    t: "page_table_allocate s = Inr (pt, s1)" "pt_inv s1 pt" "a \<in> kfree s" "node_addrs pt = [a]"
    "kfree s1 = kfree s - {a}" "kused s1 = insert a (kused s)"
    "same_heap (FRAME_ALLOCATOR s) (FRAME_ALLOCATOR s1)" "\<forall>b. kmap s1 pt b = None"
    "phys_mem s1 = store_bytes 4096 (\<lambda>_. 0) a (phys_mem s)" "kpaths s1 pt = {[]}"
    by (elim exE conjE) (rule that; assumption)
  have bs: "pt_budget s1 pt = card (kfree s)"
    using t(5,10) card_free_remove [OF t(3)] by (simp add: pt_budget_def)
  have bud: "card (kpaths s1 pt \<union> area_paths (all_pages areas)) \<le> pt_budget s1 pt"
    using bs free t(10) by simp
  obtain pt' s' where m: "for_each areas (map_virt_area_allocate B) (pt, s1) = Inr (pt', s')"
    "pt_inv s' pt'" "pt_grows s1 pt s' pt'" "kmap s' pt' = add_areas areas (kmap s1 pt)"
    "kpaths s' pt' = kpaths s1 pt \<union> area_paths (all_pages areas)" "pt_budget s' pt' = pt_budget s1 pt"
    using map_areas_spec [OF B t(2) ok _ bud] t(8) by blast
  from m(3) obtain new where new: "node_addrs pt' = a # new" "set new \<subseteq> kfree s1"
    "kfree s' = kfree s1 - set new" "kused s' = kused s1 \<union> set new"
    "\<And>x. page_of x \<notin> set (node_addrs pt') \<Longrightarrow> phys_mem s' x = phys_mem s1 x"
    "same_heap (FRAME_ALLOCATOR s1) (FRAME_ALLOCATOR s')"
    unfolding pt_grows_def using t(4) by auto
  have sub: "set (node_addrs pt') \<subseteq> kfree s" and kf: "kfree s' = kfree s - set (node_addrs pt')"
    using t(3,5) new(1-3) by auto
  have "length (node_addrs pt') = card ({[]} \<union> area_paths (all_pages areas))"
    using nodes_count [OF sub pt_invD(3) [OF m(2)] kf] m(5,6) bs t(10) by (simp add: pt_budget_def)
  moreover have "phys_mem s' x = phys_mem s x" if "page_of x \<notin> set (node_addrs pt')" for x
  proof -
    have "page_aligned a" "page_of x \<noteq> a"
      using pt_shapeD(2) [OF pt_invD(5) [OF t(2)]] t(4) that new(1) by auto
    then show ?thesis
      using new(5) [OF that] t(9) by (simp add: store_bytes_page)
  qed
  moreover have "kmap s1 pt = (\<lambda>_. None)" using t(8) by blast
  moreover have "same_heap (FRAME_ALLOCATOR s) (FRAME_ALLOCATOR s')"
    using t(7) new(6) by (simp add: same_heap_def)
  moreover have "kused s' = kused s \<union> set (node_addrs pt')"
    using t(6) new(1,4) by auto
  ultimately show ?thesis
    using t(1) m(1,2,4) sub kf by (intro exI [of _ pt'] exI [of _ s']) (simp add: build_def)
qed

end
