(* ===== verification/Kernel_Space.thy ===== *)
theory Kernel_Space
  imports Space_Map
begin

text \<open>
  The address space that \<open>make_kernel\<close> builds.  Under the layout of the linker script the pages
  of its eleven areas are pairwise different, the table needs at most 73 nodes, and the map it
  ends with is the one the areas describe.
\<close>

section \<open>The layout in page numbers\<close>

definition pno :: "usize \<Rightarrow> nat" where
  "pno a = unat a div 4096"

lemma page_at_pno: "page_aligned a \<Longrightarrow> page_at (pno a) = a"
  by (simp add: page_at_def pno_def page_aligned_def word_unat_eq_iff flip: of_nat_mult)

lemma pno_page_at: "n < 2 ^ 52 \<Longrightarrow> pno (page_at n) = n"
  by (simp add: pno_def page_at)

lemma drop_bit_pno: "unat (drop_bit 12 a) = pno a"
  by (simp add: pno_def unat_drop_bit_page)

lemma pno_mono: "a \<le> b \<Longrightarrow> pno a \<le> pno b"
  by (simp add: pno_def word_le_nat_alt div_le_mono)

lemma linker_aligned:
  assumes "linker_ok L"
  shows "page_aligned (ld_text_start L)" "page_aligned (ld_text_end L)"
    "page_aligned (ld_rodata_start L)" "page_aligned (ld_rodata_end L)"
    "page_aligned (ld_data_start L)" "page_aligned (ld_data_end L)"
    "page_aligned (ld_bss_start L)" "page_aligned (ld_bss_end L)"
    "page_aligned (ld_kernel_stack_start L)" "page_aligned (ld_heap_end L)"
    "page_aligned (ld_trampoline_start L)"
  using assms unfolding linker_ok_def
  by (simp_all add: page_aligned_def KERNEL_BASE_def PHYS_TOP_def)

lemma linker_stack:
  assumes "linker_ok L"
  shows "unat (ld_kernel_stack_end L) = unat (ld_bss_end L) + 0x80000"
    and "unat (ld_bss_end L) + 0x80000 \<le> 0x88000000"
proof -
  have b: "ld_bss_end L \<le> 0x87F80000" and e: "ld_kernel_stack_end L = ld_bss_end L + 0x80000"
    using assms unfolding linker_ok_def PHYS_TOP_def KERNEL_BASE_def by simp_all
  from b have n: "unat (ld_bss_end L) \<le> 0x87F80000"
    unfolding word_le_nat_alt by simp
  then show "unat (ld_bss_end L) + 0x80000 \<le> 0x88000000" by simp
  show "unat (ld_kernel_stack_end L) = unat (ld_bss_end L) + 0x80000"
    unfolding e using n by (subst unat_add_lem [THEN iffD1]) simp_all
qed

lemma linker_pnos:
  assumes "linker_ok L"
  shows "pno (ld_text_start L) = 0x80000" and "pno (ld_text_start L) \<le> pno (ld_text_end L)"
    and "ld_rodata_start L = ld_text_end L" and "pno (ld_rodata_start L) \<le> pno (ld_rodata_end L)"
    and "ld_data_start L = ld_rodata_end L" and "pno (ld_data_start L) \<le> pno (ld_data_end L)"
    and "ld_bss_start L = ld_data_end L" and "pno (ld_bss_start L) \<le> pno (ld_bss_end L)"
    and "ld_kernel_stack_start L = ld_bss_end L"
    and "pno (ld_kernel_stack_end L) = pno (ld_bss_end L) + 128"
    and "ld_heap_start L = ld_kernel_stack_end L" and "pno (ld_heap_start L) \<le> pno (ld_heap_end L)"
    and "pno (ld_heap_end L) = 0x88000" and "page_aligned (ld_heap_start L)"
    and "page_aligned (ld_kernel_stack_end L)"
proof -
  note l = assms [unfolded linker_ok_def]
  show t: "pno (ld_text_start L) = 0x80000" and h: "pno (ld_heap_end L) = 0x88000"
    using l by (simp_all add: pno_def KERNEL_BASE_def PHYS_TOP_def)
  show "pno (ld_text_start L) \<le> pno (ld_text_end L)"
    using l by (meson order_trans pno_mono)
  show "ld_rodata_start L = ld_text_end L" "ld_data_start L = ld_rodata_end L"
    "ld_bss_start L = ld_data_end L" "ld_kernel_stack_start L = ld_bss_end L"
    and hs: "ld_heap_start L = ld_kernel_stack_end L"
    using l by simp_all
  show "pno (ld_rodata_start L) \<le> pno (ld_rodata_end L)" "pno (ld_data_start L) \<le> pno (ld_data_end L)"
    "pno (ld_bss_start L) \<le> pno (ld_bss_end L)"
    using l by (auto intro!: pno_mono)
  show k: "pno (ld_kernel_stack_end L) = pno (ld_bss_end L) + 128"
    unfolding pno_def linker_stack(1) [OF assms] by simp
  show "page_aligned (ld_kernel_stack_end L)"
    using linker_aligned(8) [OF assms] unfolding page_aligned_def linker_stack(1) [OF assms] by simp
  then show "page_aligned (ld_heap_start L)" using hs by simp
  have "pno (ld_kernel_stack_end L) \<le> 0x88000"
    unfolding pno_def linker_stack(1) [OF assms] using linker_stack(2) [OF assms] by simp
  then show "pno (ld_heap_start L) \<le> pno (ld_heap_end L)"
    unfolding hs h .
qed

text \<open>The same as a chain of page numbers.\<close>

lemma linker_chain:
  assumes "linker_ok L"
  shows "pno (ld_text_start L) = 0x80000" and "pno (ld_rodata_start L) = pno (ld_text_end L)"
    and "pno (ld_data_start L) = pno (ld_rodata_end L)" and "pno (ld_bss_start L) = pno (ld_data_end L)"
    and "pno (ld_kernel_stack_start L) = pno (ld_bss_end L)"
    and "pno (ld_kernel_stack_end L) = pno (ld_bss_end L) + 128"
    and "pno (ld_heap_start L) = pno (ld_bss_end L) + 128" and "pno (ld_heap_end L) = 0x88000"
    and "0x80000 \<le> pno (ld_text_end L)" and "pno (ld_text_end L) \<le> pno (ld_rodata_end L)"
    and "pno (ld_rodata_end L) \<le> pno (ld_data_end L)" and "pno (ld_data_end L) \<le> pno (ld_bss_end L)"
    and "pno (ld_bss_end L) + 128 \<le> 0x88000"
  using linker_pnos [OF assms] by metis+

section \<open>The areas\<close>

definition ident_area :: "string \<Rightarrow> u16 \<Rightarrow> usize \<Rightarrow> usize \<Rightarrow> virt_area" where
  "ident_area name f b e =
     \<lparr>virt_frame_range = simple_range_new (VirtFrame (drop_bit 12 b)) (VirtFrame (drop_bit 12 e)),
      virt_frames = [], area_permissions = PageFlags f, is_identically_mapped = True,
      area_name = name\<rparr>"

lemma page_aligned_up:
  assumes "page_aligned e"
  shows "(e + mask 12) AND NOT (mask 12) = e"
proof -
  have "page_of (e + of_nat 4095) = e"
    by (rule page_of_add [OF assms]) simp
  then show ?thesis
    by (simp add: page_of_def mask_eq_exp_minus_1)
qed

lemma push_identical_aligned:
  assumes "page_aligned b" and "page_aligned e" and "pno e \<le> 0x88000"
  shows "push_identical b e (PageFlags f) name areas = Inr (areas @ [ident_area name f b e])"
  using assms
  by (simp add: pno_def push_identical_def identically_mapped_def pa_align_up_def page_aligned_up
      ident_area_def virt_range_from_identical_def simple_range_new_def set_name_def print_info_def
      virt_frame_from_identical_def drop_bit_page_of)

definition tramp_area :: "linker_symbols \<Rightarrow> virt_area" where
  "tramp_area L =
     \<lparr>virt_frame_range = simple_range_new (VirtFrame (drop_bit 12 TRAMPOLINE_BASE_VA))
        (VirtFrame (drop_bit 12 MAX_VA)),
      virt_frames = [(VirtAddr TRAMPOLINE_BASE_VA, PhysBorrowed (Frame (drop_bit 12 (ld_trampoline_start L))))],
      area_permissions = PageFlags 10, is_identically_mapped = False, area_name = ''trampoline''\<rparr>"

lemma perm_values:
  assumes "bitflags_ok B"
  shows "page_flags_or B PAGE_READABLE PAGE_WRITABLE = PageFlags 6"
    and "page_flags_or B PAGE_READABLE PAGE_EXECUTABLE = PageFlags 10"
    and "page_flags_or B (PageFlags 6) PAGE_USER = PageFlags 22"
    and "page_flags_or B (PageFlags 10) PAGE_USER = PageFlags 26"
    and "PAGE_READABLE = PageFlags 2"
  using assms
  by (simp_all add: page_flags_or_def bitflags_okD PAGE_READABLE_def PAGE_WRITABLE_def
      PAGE_EXECUTABLE_def PAGE_USER_def)

lemma TRAMPOLINE_aligned [simp]: "page_aligned TRAMPOLINE_BASE_VA" "page_aligned MAX_VA"
  by (simp_all add: page_aligned_def TRAMPOLINE_BASE_VA_value MAX_VA_value)

lemma make_trampoline_eq:
  assumes "bitflags_ok B"
  shows "make_trampoline B L s = Inr (tramp_area L, s)"
  using assms
  by (simp add: make_trampoline_def perm_values(2) virt_area_new_def va_align_up_def page_aligned_up
      page_aligned_page_of track_frame_def tramp_area_def set_name_def MAX_VA_value [THEN arg_cong, of unat])

definition kernel_regions :: "linker_symbols \<Rightarrow> (string \<times> u16 \<times> usize \<times> usize) list" where
  "kernel_regions L =
     [(''heap'', 6, ld_heap_start L, ld_heap_end L),
      (''kernel boot stack'', 6, ld_kernel_stack_start L, ld_kernel_stack_end L),
      (''.bss (+kernel heap)'', 6, ld_bss_start L, ld_bss_end L),
      (''.data'', 6, ld_data_start L, ld_data_end L),
      (''.rodata'', 2, ld_rodata_start L, ld_rodata_end L),
      (''.text'', 10, ld_text_start L, ld_text_end L),
      (''virtio'', 6, VIRTIO_BASE, VIRTIO_BASE + VIRTIO_SIZE),
      (''uart'', 6, UART_BASE, UART_BASE + UART_SIZE),
      (''plic'', 6, PLIC_BASE, PLIC_BASE + PLIC_SIZE),
      (''clint'', 6, CLINT_BASE, CLINT_BASE + CLINT_SIZE)]"

definition kernel_areas :: "linker_symbols \<Rightarrow> virt_area list" where
  "kernel_areas L = tramp_area L # map (\<lambda>(name, f, b, e). ident_area name f b e) (kernel_regions L)"

lemma make_kernel_eq:
  assumes B: "bitflags_ok B" and L: "linker_ok L"
  shows "make_kernel B L s = build B (kernel_areas L) s"
proof -
  note n = linker_pnos [OF L] and al = linker_aligned [OF L]
  have ends: "pno (ld_heap_end L) \<le> 0x88000" "pno (ld_kernel_stack_end L) \<le> 0x88000"
    "pno (ld_bss_end L) \<le> 0x88000" "pno (ld_data_end L) \<le> 0x88000" "pno (ld_rodata_end L) \<le> 0x88000"
    "pno (ld_text_end L) \<le> 0x88000"
    using n by simp_all
  have dev: "page_aligned VIRTIO_BASE" "page_aligned (VIRTIO_BASE + VIRTIO_SIZE)"
    "page_aligned UART_BASE" "page_aligned (UART_BASE + UART_SIZE)"
    "page_aligned PLIC_BASE" "page_aligned (PLIC_BASE + PLIC_SIZE)"
    "page_aligned CLINT_BASE" "page_aligned (CLINT_BASE + CLINT_SIZE)"
    "pno (VIRTIO_BASE + VIRTIO_SIZE) \<le> 0x88000" "pno (UART_BASE + UART_SIZE) \<le> 0x88000"
    "pno (PLIC_BASE + PLIC_SIZE) \<le> 0x88000" "pno (CLINT_BASE + CLINT_SIZE) \<le> 0x88000"
    "checked_add VIRTIO_BASE VIRTIO_SIZE = Inr (VIRTIO_BASE + VIRTIO_SIZE)"
    "checked_add UART_BASE UART_SIZE = Inr (UART_BASE + UART_SIZE)"
    "checked_add PLIC_BASE PLIC_SIZE = Inr (PLIC_BASE + PLIC_SIZE)"
    "checked_add CLINT_BASE CLINT_SIZE = Inr (CLINT_BASE + CLINT_SIZE)"
    by (simp_all add: layout_defs page_aligned_def checked_add_def pno_def)
  have pr: "print_info (tramp_area L) = Inr ()"
    by (simp add: print_info_def tramp_area_def simple_range_new_def)
  show ?thesis
    unfolding make_kernel_def build_def perm_values(1,2) [OF B] Let_def
    unfolding perm_values(5) [OF B]
    by (simp add: make_trampoline_eq [OF B] pr
        push_identical_aligned al n(14,15) ends dev kernel_areas_def kernel_regions_def del: for_each.simps)
qed

section \<open>The pages of the areas\<close>

lemma area_pages_ident: "area_pages (ident_area name f b e) = identical_pages (pno b) (pno e)"
  by (simp add: area_pages_def ident_area_def simple_range_new_def drop_bit_pno)

lemma area_flags_ident [simp]: "area_flags (ident_area name f b e) = f"
  by (simp add: area_flags_def ident_area_def)

lemma area_ok_ident: "b \<le> e \<Longrightarrow> area_ok (ident_area name f b e)"
  using unat_usize_less [of e]
  by (simp add: area_ok_def ident_area_def simple_range_new_def less_eq_virt_frame_def
      word_le_nat_alt unat_drop_bit_page div_le_mono)

lemma area_pages_tramp:
  assumes "page_aligned (ld_trampoline_start L)"
  shows "area_pages (tramp_area L) = [(TRAMPOLINE_BASE_VA, ld_trampoline_start L)]"
  using assms by (simp add: area_pages_def tramp_area_def push_bit_drop_bit_page page_aligned_page_of)

lemma area_flags_tramp [simp]: "area_flags (tramp_area L) = 10"
  by (simp add: area_flags_def tramp_area_def)

lemma area_ok_tramp: "page_aligned (ld_trampoline_start L) \<Longrightarrow> area_ok (tramp_area L)"
  by (auto simp: area_ok_def tramp_area_def)

definition tramp_pno :: nat where "tramp_pno = 0x3FFFFFF"

lemma tramp_page: "TRAMPOLINE_BASE_VA = page_at tramp_pno"
  by (simp add: TRAMPOLINE_BASE_VA_value page_at_def tramp_pno_def)

definition kernel_pnos :: "linker_symbols \<Rightarrow> nat list" where
  "kernel_pnos L = tramp_pno # concat (map (\<lambda>(name, f, b, e). [pno b..<pno e]) (kernel_regions L))"

lemma map_fst_identical: "map fst (identical_pages b e) = map page_at [b..<e]"
  by (simp add: identical_pages_def)

lemma kernel_pages_pnos:
  assumes "linker_ok L"
  shows "map fst (all_pages (kernel_areas L)) = map page_at (kernel_pnos L)"
  using linker_aligned(11) [OF assms]
  by (simp add: kernel_areas_def kernel_pnos_def all_pages_def area_pages_ident area_pages_tramp
      map_fst_identical tramp_page map_concat split_def comp_def)

lemma device_pnos:
  "pno VIRTIO_BASE = 0x10001" "pno (VIRTIO_BASE + VIRTIO_SIZE) = 0x10002"
  "pno UART_BASE = 0x10000" "pno (UART_BASE + UART_SIZE) = 0x10001"
  "pno PLIC_BASE = 0xc000" "pno (PLIC_BASE + PLIC_SIZE) = 0xc400"
  "pno CLINT_BASE = 0x2000" "pno (CLINT_BASE + CLINT_SIZE) = 0x2010"
  by (simp_all add: pno_def layout_defs)

lemma kernel_pnos_distinct:
  assumes "linker_ok L"
  shows "distinct (kernel_pnos L)" and "\<forall>n \<in> set (kernel_pnos L). n < 2 ^ 27"
  using linker_pnos [OF assms]
  by (auto simp: kernel_pnos_def kernel_regions_def device_pnos tramp_pno_def simp del: upt_rec_numeral)

lemma pages_apart_pnos:
  assumes "map fst xs = map page_at ns" and "distinct ns" and "\<forall>n \<in> set ns. n < 2 ^ 27"
  shows "pages_apart xs"
proof -
  have "sorted_wrt (\<lambda>m n. \<not> same_page (page_at m) (page_at n)) ns"
    using assms(2,3) by (induction ns) (auto simp: same_page_at)
  then have "sorted_wrt (\<lambda>x y. \<not> same_page x y) (map fst xs)"
    by (simp add: assms(1) sorted_wrt_map)
  then show ?thesis
    by (simp add: pages_apart_def sorted_wrt_map)
qed

lemma kernel_areas_ok:
  assumes L: "linker_ok L"
  shows "areas_ok (kernel_areas L)"
proof -
  note n = linker_pnos [OF L] and al = linker_aligned [OF L]
  have le: "a \<le> b" if "page_aligned a" "page_aligned b" "pno a \<le> pno b" for a b :: usize
    using that by (auto simp: word_le_nat_alt pno_def page_aligned_def)
  have dev: "VIRTIO_BASE \<le> VIRTIO_BASE + VIRTIO_SIZE" "UART_BASE \<le> UART_BASE + UART_SIZE"
    "PLIC_BASE \<le> PLIC_BASE + PLIC_SIZE" "CLINT_BASE \<le> CLINT_BASE + CLINT_SIZE"
    by (simp_all add: layout_defs)
  have fl: "(6 :: u16) AND NOT (mask 9) = 0" "(2 :: u16) AND NOT (mask 9) = 0" "(10 :: u16) AND NOT (mask 9) = 0"
    by (simp_all add: mask_eq_exp_minus_1)
  have "pages_apart (all_pages (kernel_areas L))"
    by (rule pages_apart_pnos [OF kernel_pages_pnos [OF L] kernel_pnos_distinct [OF L]])
  moreover have "area_ok a \<and> area_flags a AND NOT (mask 9) = 0" if "a \<in> set (kernel_areas L)" for a
    using that n al fl dev
    by (auto simp: kernel_areas_def kernel_regions_def area_ok_tramp intro!: area_ok_ident le)
  ultimately show ?thesis
    by (auto simp: areas_ok_def)
qed

section \<open>The nodes that the table needs\<close>

lemma paths_of_page_at:
  assumes "n < 2 ^ 27"
  shows "paths_of (page_at n) = {[], [of_nat (n div 2 ^ 18)], [of_nat (n div 2 ^ 18), of_nat (n div 2 ^ 9 mod 512)]}"
proof -
  have "unat (vpn_index (page_at n) 2) = n div 2 ^ 18" "unat (vpn_index (page_at n) 1) = n div 2 ^ 9 mod 512"
    using assms by (simp_all add: unat_vpn_index_eq page_at)
  then have "vpn_index (page_at n) 2 = of_nat (n div 2 ^ 18)"
    "vpn_index (page_at n) 1 = of_nat (n div 2 ^ 9 mod 512)"
    using assms by (simp_all add: word_unat_eq_iff unat_of_nat)
  then show ?thesis
    by (simp add: paths_of_def va_path_def)
qed

definition kernel_paths :: "usize list set" where
  "kernel_paths = {[], [0], [2], [255], [255, 511], [0, 128], [0, 96], [0, 97], [0, 16]} \<union>
     (\<lambda>i. [2, of_nat i]) ` {..<64}"

lemma card_kernel_paths: "card kernel_paths \<le> 73"
proof -
  have "card ((\<lambda>i. [2, of_nat i :: usize]) ` {..<64 :: nat}) \<le> 64"
    using card_image_le [of "{..<64 :: nat}"] by fastforce
  moreover have "card {[], [0], [2], [255], [255, 511], [0, 128], [0, 96], [0, 97], [0, 16 :: usize]} \<le> 9"
    by (simp add: card_insert_if)
  ultimately show ?thesis
    unfolding kernel_paths_def by (intro order_trans [OF card_Un_le]) simp
qed

lemma kernel_paths_subset:
  assumes "linker_ok L"
  shows "area_paths (all_pages (kernel_areas L)) \<subseteq> kernel_paths"
proof -
  have "paths_of (page_at n) \<subseteq> kernel_paths" if "n \<in> set (kernel_pnos L)" for n
  proof -
    have lt: "n < 2 ^ 27" using kernel_pnos_distinct(2) [OF assms] that by blast
    from that consider "n = tramp_pno" | "0x80000 \<le> n" "n < 0x88000" | "n = 0x10001" | "n = 0x10000"
      | "0xc000 \<le> n" "n < 0xc400" | "0x2000 \<le> n" "n < 0x2010"
      using linker_pnos [OF assms]
      by (fastforce simp: kernel_pnos_def kernel_regions_def device_pnos simp del: upt_rec_numeral)
    then show ?thesis
    proof cases
      case 2
      then have "n div 2 ^ 18 = 2" "1024 \<le> n div 2 ^ 9" "n div 2 ^ 9 < 1088"
        using div_le_mono [of "0x80000" n 512] by (auto intro!: div_nat_eqI less_mult_imp_div_less)
      then have "n div 2 ^ 18 = 2" "n div 2 ^ 9 mod 512 < 64"
        by (simp_all add: le_mod_geq)
      then show ?thesis
        unfolding paths_of_page_at [OF lt] by (auto simp: kernel_paths_def)
    next
      case 5
      then have "n div 2 ^ 18 = 0" "96 \<le> n div 2 ^ 9" "n div 2 ^ 9 < 98"
        using div_le_mono [of "0xc000" n 512] by (auto intro!: less_mult_imp_div_less)
      then have "n div 2 ^ 18 = 0" "n div 2 ^ 9 mod 512 = 96 \<or> n div 2 ^ 9 mod 512 = 97"
        by auto
      then show ?thesis
        unfolding paths_of_page_at [OF lt] by (auto simp: kernel_paths_def)
    next
      case 6
      then have "n div 2 ^ 18 = 0" "n div 2 ^ 9 = 16"
        by (auto intro!: div_nat_eqI)
      then have "n div 2 ^ 18 = 0" "n div 2 ^ 9 mod 512 = 16"
        by simp_all
      then show ?thesis
        unfolding paths_of_page_at [OF lt] by (auto simp: kernel_paths_def)
    qed (simp_all add: paths_of_page_at kernel_paths_def tramp_pno_def)
  qed
  then have "paths_of (fst x) \<subseteq> kernel_paths" if "x \<in> set (all_pages (kernel_areas L))" for x
    using that kernel_pages_pnos [OF assms] by (metis image_eqI image_iff list.set_map)
  then show ?thesis
    by (auto simp: area_paths_def)
qed

section \<open>The map of the kernel's space\<close>

text \<open>The number of the page of a virtual address, and the entry the layout asks for there.\<close>

definition vpn :: "usize \<Rightarrow> nat" where
  "vpn a = unat a mod 2 ^ 39 div 4096"

definition kernel_perms :: "linker_symbols \<Rightarrow> nat \<Rightarrow> u16 option" where
  "kernel_perms L n =
     (if pno (ld_text_start L) \<le> n \<and> n < pno (ld_text_end L) then Some 11
      else if pno (ld_rodata_start L) \<le> n \<and> n < pno (ld_rodata_end L) then Some 3
      else if pno (ld_data_start L) \<le> n \<and> n < pno (ld_heap_end L) then Some 7
      else if (pno VIRTIO_BASE \<le> n \<and> n < pno (VIRTIO_BASE + VIRTIO_SIZE)) \<or>
              (pno UART_BASE \<le> n \<and> n < pno (UART_BASE + UART_SIZE)) \<or>
              (pno PLIC_BASE \<le> n \<and> n < pno (PLIC_BASE + PLIC_SIZE)) \<or>
              (pno CLINT_BASE \<le> n \<and> n < pno (CLINT_BASE + CLINT_SIZE)) then Some 7
      else None)"

definition kernel_map :: "linker_symbols \<Rightarrow> usize \<Rightarrow> usize option" where
  "kernel_map L a =
     (if vpn a = tramp_pno then Some (entry_for (ld_trampoline_start L) 11)
      else map_option (entry_for (page_at (vpn a))) (kernel_perms L (vpn a)))"

lemma same_page_vpn: "n < 2 ^ 27 \<Longrightarrow> same_page (page_at n) b \<longleftrightarrow> n = vpn b"
  by (simp add: same_page_iff page_at vpn_def)

lemma same_page_vpn_self: "same_page (page_at (vpn x)) x"
  by (subst same_page_vpn) (simp_all add: vpn_def less_mult_imp_div_less)

text \<open>The pages of a region have the permissions of the region.\<close>

lemma region_perms:
  assumes L: "linker_ok L" and r: "(name, f, b, e) \<in> set (kernel_regions L)"
    and n: "pno b \<le> n" "n < pno e"
  shows "kernel_perms L n = Some (f OR 1)" and "n \<noteq> tramp_pno"
proof -
  note c = linker_chain [OF L]
  have cases: "(f = 6 \<and> pno (ld_rodata_end L) \<le> n \<and> n < 0x88000) \<or>
      (f = 2 \<and> pno (ld_text_end L) \<le> n \<and> n < pno (ld_rodata_end L)) \<or>
      (f = 10 \<and> 0x80000 \<le> n \<and> n < pno (ld_text_end L)) \<or>
      (f = 6 \<and> (n = 0x10001 \<or> n = 0x10000 \<or> (0xc000 \<le> n \<and> n < 0xc400) \<or> (0x2000 \<le> n \<and> n < 0x2010)))"
    using r n c(9-13) unfolding kernel_regions_def
    by (simp add: c(1-8) device_pnos) (elim disjE; simp add: c(1-8) device_pnos)
  then show "n \<noteq> tramp_pno"
    using c(10-13) by (elim disjE conjE) (simp_all add: tramp_pno_def)
  from cases show "kernel_perms L n = Some (f OR 1)"
    using c(9-13) by (elim disjE conjE) (simp_all add: kernel_perms_def c(1-8) device_pnos)
qed

lemma kernel_perms_None:
  assumes L: "linker_ok L" and "n \<notin> set (kernel_pnos L)"
  shows "kernel_perms L n = None"
proof -
  note c = linker_chain [OF L]
  have "\<not> (pno b \<le> n \<and> n < pno e)" if "(name, f, b, e) \<in> set (kernel_regions L)" for name f b e
    using assms(2) that by (fastforce simp: kernel_pnos_def)
  then have "\<forall>(name, f, b, e) \<in> set (kernel_regions L). \<not> (pno b \<le> n \<and> n < pno e)"
    by blast
  then show ?thesis
    unfolding kernel_regions_def kernel_perms_def using c(9-13) by (simp add: c(1-8)) linarith
qed

lemma kernel_map_None:
  assumes L: "linker_ok L" and n: "vpn x \<notin> set (kernel_pnos L)"
  shows "add_areas (kernel_areas L) M x = M x"
proof (rule add_areas_other, intro ballI)
  fix y assume "y \<in> set (all_pages (kernel_areas L))"
  then have "fst y \<in> page_at ` set (kernel_pnos L)"
    using kernel_pages_pnos [OF L] by (metis image_eqI list.set_map)
  then show "\<not> same_page (fst y) x"
    using n kernel_pnos_distinct(2) [OF L] by (auto simp: same_page_vpn)
qed

lemma kernel_map_eq:
  assumes L: "linker_ok L"
  shows "add_areas (kernel_areas L) (\<lambda>_. None) x = kernel_map L x"
proof -
  note ent = add_areas_in [OF kernel_areas_ok [OF L]]
  consider "vpn x \<notin> set (kernel_pnos L)" | "vpn x = tramp_pno"
    | name f b e where "(name, f, b, e) \<in> set (kernel_regions L)" "pno b \<le> vpn x" "vpn x < pno e"
    by (fastforce simp: kernel_pnos_def)
  then show ?thesis
  proof cases
    case 1
    then show ?thesis
      using kernel_map_None [OF L 1] kernel_perms_None [OF L 1]
      by (auto simp: kernel_map_def kernel_pnos_def)
  next
    case 2
    have "add_areas (kernel_areas L) (\<lambda>_. None) x =
        Some (entry_for (ld_trampoline_start L) (area_flags (tramp_area L) OR 1))"
      using same_page_vpn_self [of x] linker_aligned(11) [OF L] 2
      by (intro ent [of _ TRAMPOLINE_BASE_VA])
         (simp_all add: kernel_areas_def area_pages_tramp tramp_page)
    then show ?thesis
      using 2 by (simp add: kernel_map_def)
  next
    case 3
    have "ident_area name f b e \<in> set (kernel_areas L)"
      using 3(1) by (force simp: kernel_areas_def image_iff)
    then have "add_areas (kernel_areas L) (\<lambda>_. None) x =
        Some (entry_for (page_at (vpn x)) (area_flags (ident_area name f b e) OR 1))"
      using 3 same_page_vpn_self [of x]
      by (intro ent [of _ "page_at (vpn x)"])
         (auto simp: area_pages_ident identical_pages_def)
    then show ?thesis
      using region_perms [OF L 3] by (simp add: kernel_map_def)
  qed
qed

section \<open>Building the space\<close>

text \<open>The heap of the allocator is the one the linker script leaves.\<close>

definition heap_ok :: "linker_symbols \<Rightarrow> kstate \<Rightarrow> bool" where
  "heap_ok L s \<longleftrightarrow> kstate_wf s \<and> same_heap (FRAME_ALLOCATOR_init L) (FRAME_ALLOCATOR s)"

definition space_ok :: "linker_symbols \<Rightarrow> addr_space \<Rightarrow> kstate \<Rightarrow> bool" where
  "space_ok L space s \<longleftrightarrow> pt_inv s (page_table space) \<and> virt_areas space = kernel_areas L \<and>
     kmap s (page_table space) = kernel_map L"

lemma make_kernel_spec:
  assumes B: "bitflags_ok B" and L: "linker_ok L" and wf: "kstate_wf s" and free: "73 \<le> card (kfree s)"
  shows "\<exists>space s'. make_kernel B L s = Inr (space, s') \<and> space_ok L space s' \<and>
     same_heap (FRAME_ALLOCATOR s) (FRAME_ALLOCATOR s') \<and>
     set (node_addrs (page_table space)) \<subseteq> kfree s \<and> length (node_addrs (page_table space)) \<le> 73 \<and>
     kfree s' = kfree s - set (node_addrs (page_table space)) \<and>
     kused s' = kused s \<union> set (node_addrs (page_table space)) \<and>
     (\<forall>x. page_of x \<notin> set (node_addrs (page_table space)) \<longrightarrow> phys_mem s' x = phys_mem s x)"
proof -
  have "card ({[]} \<union> area_paths (all_pages (kernel_areas L))) \<le> card kernel_paths"
    using kernel_paths_subset [OF L] by (intro card_mono) (auto simp: kernel_paths_def)
  then have few: "card ({[]} \<union> area_paths (all_pages (kernel_areas L))) \<le> 73"
    using card_kernel_paths by linarith
  have "card ({[]} \<union> area_paths (all_pages (kernel_areas L))) \<le> card (kfree s)"
    using few free by linarith
  from build_spec [OF B wf kernel_areas_ok [OF L] this] obtain pt s' where
    b: "build B (kernel_areas L) s = Inr (\<lparr>page_table = pt, virt_areas = kernel_areas L\<rparr>, s')"
    "pt_inv s' pt" "kmap s' pt = add_areas (kernel_areas L) (\<lambda>_. None)" "set (node_addrs pt) \<subseteq> kfree s"
    "length (node_addrs pt) = card ({[]} \<union> area_paths (all_pages (kernel_areas L)))"
    "kused s' = kused s \<union> set (node_addrs pt)" "kfree s' = kfree s - set (node_addrs pt)"
    "same_heap (FRAME_ALLOCATOR s) (FRAME_ALLOCATOR s')"
    "\<forall>x. page_of x \<notin> set (node_addrs pt) \<longrightarrow> phys_mem s' x = phys_mem s x"
    by (elim exE conjE) (rule that; assumption)
  have "kmap s' pt = kernel_map L"
    using b(3) kernel_map_eq [OF L] by auto
  then show ?thesis
    using b few
    by (intro exI [of _ "\<lparr>page_table = pt, virt_areas = kernel_areas L\<rparr>"] exI [of _ s'])
       (simp add: make_kernel_eq [OF B L] space_ok_def)
qed

end
