(* ===== verification/Kernel_Boot.thy ===== *)
theory Kernel_Boot
  imports Kernel_Space
begin

text \<open>
  The memory subsystem at boot: the initial allocator, \<open>mm::init\<close> and \<open>mm::hart_init\<close>, and the
  locking of the kernel's page table, which builds and drops a second address space.
\<close>

section \<open>The initial heap\<close>

definition heap_pages :: "linker_symbols \<Rightarrow> nat" where
  "heap_pages L = pno (ld_heap_end L) - pno (ld_heap_start L)"

lemma heap_init:
  assumes L: "linker_ok L"
  shows "page_allocated (FRAME_ALLOCATOR_init L) = replicate (heap_pages L) 0"
    and "base_addr (FRAME_ALLOCATOR_init L) = ld_heap_start L" and "fa_wf (FRAME_ALLOCATOR_init L)"
proof -
  note n = linker_pnos [OF L]
  have al: "page_aligned (ld_heap_start L)" "page_aligned (ld_heap_end L)"
    using n(14) linker_aligned(10) [OF L] by simp_all
  have le: "ld_heap_start L \<le> ld_heap_end L"
    using al n(12) by (auto simp: word_le_nat_alt pno_def page_aligned_def)
  have "ld_heap_size L = ld_heap_end L - ld_heap_start L"
    using L by (simp add: linker_ok_def)
  then have sz: "unat (ld_heap_size L) = unat (ld_heap_end L) - unat (ld_heap_start L)"
    using le by (simp add: unat_sub)
  have "unat (ld_heap_size L div PAGE_SIZE) = heap_pages L"
    using al by (auto simp: unat_div sz heap_pages_def pno_def page_aligned_def simp flip: diff_mult_distrib2)
  then show pa: "page_allocated (FRAME_ALLOCATOR_init L) = replicate (heap_pages L) 0"
    and ba: "base_addr (FRAME_ALLOCATOR_init L) = ld_heap_start L"
    by (simp_all add: FRAME_ALLOCATOR_init_def frame_allocator_new_def Let_def)
  have "unat (ld_heap_start L) + 4096 * heap_pages L \<le> 2 ^ 64"
    using al n(12) unat_usize_less [of "ld_heap_end L"]
    by (auto simp: heap_pages_def pno_def page_aligned_def simp flip: distrib_left)
  then show "fa_wf (FRAME_ALLOCATOR_init L)"
    unfolding fa_wf_def pa ba using al(1) by auto
qed

lemma heap_init_free:
  assumes L: "linker_ok L"
  shows "card (free_pages (FRAME_ALLOCATOR_init L)) = heap_pages L"
    and "used_pages (FRAME_ALLOCATOR_init L) = {}"
proof -
  let ?fa = "FRAME_ALLOCATOR_init L"
  have "free_pages ?fa = page_addr ?fa ` {..<heap_pages L}"
    by (auto simp: free_pages_def heap_init(1) [OF L])
  moreover have "inj_on (page_addr ?fa) {..<heap_pages L}"
    using page_addr_inj [OF heap_init(3) [OF L]] by (auto simp: inj_on_def heap_init(1) [OF L])
  ultimately show "card (free_pages ?fa) = heap_pages L"
    by (simp add: card_image)
  show "used_pages ?fa = {}"
    by (auto simp: used_pages_def heap_init(1) [OF L])
qed

text \<open>The frames of the heap are mapped, readable and writable, at their own address.\<close>

lemma heap_frames_mapped:
  assumes L: "linker_ok L" and h: "heap_ok L s" and a: "a \<in> kfree s \<union> kused s"
  shows "pno (ld_heap_start L) \<le> pno a" and "pno a < 0x88000" and "page_aligned a"
    and "kernel_map L a = Some (entry_for a 7)"
proof -
  let ?fa = "FRAME_ALLOCATOR s"
  have wf: "fa_wf ?fa" and b: "base_addr ?fa = ld_heap_start L"
    and len: "length (page_allocated ?fa) = heap_pages L"
    using h by (auto simp: heap_ok_def kstate_wf_def same_heap_def heap_init [OF L])
  obtain i where i: "i < heap_pages L" "a = page_addr ?fa i"
    using a by (auto simp: free_pages_def used_pages_def len)
  have "unat a = unat (ld_heap_start L) + 4096 * i"
    using unat_page_addr [OF wf] i by (simp add: len b)
  then have p: "pno a = pno (ld_heap_start L) + i"
    by (simp add: pno_def)
  then show lo: "pno (ld_heap_start L) \<le> pno a" and hi: "pno a < 0x88000"
    using i(1) linker_chain(8) [OF L] by (simp_all add: heap_pages_def)
  show al: "page_aligned a"
    using pages_aligned [OF wf a] .
  have v: "vpn a = pno a"
    using hi by (simp add: vpn_def pno_def)
  have "(''heap'', 6, ld_heap_start L, ld_heap_end L) \<in> set (kernel_regions L)"
    by (simp add: kernel_regions_def)
  from region_perms [OF L this lo] hi have "kernel_perms L (pno a) = Some 7" "pno a \<noteq> tramp_pno"
    by (simp_all add: linker_chain(8) [OF L])
  then show "kernel_map L a = Some (entry_for a 7)"
    by (simp add: kernel_map_def v page_at_pno [OF al])
qed

lemma heap_cards:
  assumes L: "linker_ok L" and h: "heap_ok L s"
  shows "heap_pages L \<le> card (kfree s) + card (kused s)"
proof -
  let ?fa = "FRAME_ALLOCATOR s"
  have wf: "fa_wf ?fa" and len: "length (page_allocated ?fa) = heap_pages L"
    using h by (auto simp: heap_ok_def kstate_wf_def same_heap_def heap_init [OF L])
  have "kfree s \<union> kused s = page_addr ?fa ` {..<heap_pages L}"
    by (auto simp: free_pages_def used_pages_def len)
  moreover have "inj_on (page_addr ?fa) {..<heap_pages L}"
    using page_addr_inj [OF wf] by (auto simp: inj_on_def len)
  ultimately have "card (kfree s \<union> kused s) = heap_pages L"
    by (simp add: card_image)
  then show ?thesis using card_Un_le [of "kfree s" "kused s"] by simp
qed

section \<open>The register satp\<close>

lemma load_satp:
  assumes S: "satp_set_ok S" and r: "page_aligned (pt_root (page_table space))"
    "unat (pt_root (page_table space)) < 2 ^ 56"
  shows "addr_space_load S space h = Inr (h\<lparr>csr_satp := addr_space_make_satp space\<rparr>)"
proof -
  let ?r = "pt_root (page_table space)"
  have "unat (drop_bit 12 ?r) < 2 ^ 44"
    using r(2) by (simp add: unat_drop_bit_page less_mult_imp_div_less)
  then have "S satp_Sv39 0 (drop_bit 12 ?r) = push_bit 60 8 OR drop_bit 12 ?r"
    using S by (simp add: satp_set_ok_def satp_Sv39_def)
  then show ?thesis
    by (simp add: addr_space_load_def get_root_frame_def root_node_eq addr_space_make_satp_def
        make_satp_def)
qed

section \<open>Initialisation\<close>

lemma kernel_root_small:
  assumes L: "linker_ok L" and "heap_ok L s" and "pt_inv s pt"
  shows "page_aligned (pt_root pt)" and "unat (pt_root pt) < 2 ^ 39"
    and "n \<in> set (node_addrs pt) \<Longrightarrow> page_aligned n \<and> unat n < 2 ^ 39"
proof -
  have u: "page_aligned n \<and> unat n < 2 ^ 39" if "n \<in> set (node_addrs pt)" for n
  proof -
    have "n \<in> kused s" using that pt_invD(4) [OF assms(3)] by blast
    then have "pno n < 0x88000" "page_aligned n"
      using heap_frames_mapped(2,3) [OF L assms(2)] by auto
    then show ?thesis by (auto simp: pno_def page_aligned_def)
  qed
  then show "n \<in> set (node_addrs pt) \<Longrightarrow> page_aligned n \<and> unat n < 2 ^ 39" .
  have "pt_root pt \<in> set (node_addrs pt)"
    using pt_shapeD(1) [OF pt_invD(5) [OF assms(3)]] .
  then show "page_aligned (pt_root pt)" and "unat (pt_root pt) < 2 ^ 39"
    using u by blast+
qed

lemma mm_init_spec:
  assumes B: "bitflags_ok B" and L: "linker_ok L" and free: "73 \<le> heap_pages L"
    and none: "KERNEL_ADDRESS_SPACE h = None"
  shows "\<exists>space s'. mm_init B L h = Inr (h\<lparr>kern := s', KERNEL_HEAP_ALLOCATOR := Some (ld_kernel_heap_space L, KERNEL_HEAP_SIZE), KERNEL_ADDRESS_SPACE := Some space\<rparr>) \<and>
     space_ok L space s' \<and> heap_ok L s' \<and> kused s' = set (node_addrs (page_table space)) \<and>
     length (node_addrs (page_table space)) \<le> 73"
proof -
  let ?s = "(kern h)\<lparr>FRAME_ALLOCATOR := FRAME_ALLOCATOR_init L\<rparr>"
  have wf: "kstate_wf ?s" by (simp add: kstate_wf_def heap_init(3) [OF L])
  have "73 \<le> card (kfree ?s)" using free by (simp add: heap_init_free [OF L])
  from make_kernel_spec [OF B L wf this] obtain space s' where
    m: "make_kernel B L ?s = Inr (space, s')" "space_ok L space s'"
      "same_heap (FRAME_ALLOCATOR ?s) (FRAME_ALLOCATOR s')"
      "length (node_addrs (page_table space)) \<le> 73"
      "kused s' = kused ?s \<union> set (node_addrs (page_table space))"
    by blast
  have inv: "pt_inv s' (page_table space)"
    using m(2) by (simp add: space_ok_def)
  have "addr_space_verify B space (phys_mem s') = Inr ()"
    using m(2) kernel_areas_ok [OF L] kernel_map_eq [OF L]
    by (intro addr_space_verify_ok [OF B inv, of "\<lambda>_. None"]) (auto simp: space_ok_def)
  then have "mm_init B L h = Inr (h\<lparr>kern := s', KERNEL_HEAP_ALLOCATOR := Some (ld_kernel_heap_space L, KERNEL_HEAP_SIZE), KERNEL_ADDRESS_SPACE := Some space\<rparr>)"
    using m(1) none L by (simp add: mm_init_def allocator_init_def heap_allocator_init_def linker_ok_def
        KERNEL_ADDRESS_SPACE_force_def)
  moreover have "heap_ok L s'"
    using m(3) pt_invD(1) [OF inv] by (simp add: heap_ok_def)
  ultimately show ?thesis
    using m by (intro exI [of _ space] exI [of _ s']) (simp add: heap_init_free [OF L])
qed

lemma mm_hart_init_spec:
  assumes L: "linker_ok L" and S: "satp_set_ok S"
    and sp: "KERNEL_ADDRESS_SPACE h = Some space" and inv: "pt_inv (kern h) (page_table space)"
    and hp: "heap_ok L (kern h)"
  shows "mm_hart_init B L S h =
     Inr (h\<lparr>csr_satp := addr_space_make_satp space, csr_sscratch := TRAPFRAME_BASE_USER_VA\<rparr>)"
  using kernel_root_small(1,2) [OF L hp inv] sp
  by (simp add: mm_hart_init_def KERNEL_ADDRESS_SPACE_force_def load_satp [OF S])

section \<open>Locking the kernel's table\<close>

text \<open>The areas of a kernel space own no frame, so dropping it drops its table only.\<close>

lemma kernel_areas_drop: "for_each (kernel_areas L) virt_area_drop s = Inr s"
  by (simp add: kernel_areas_def kernel_regions_def virt_area_drop_def tramp_area_def ident_area_def)

lemma kernel_space_drop:
  assumes "kstate_wf s0" and "space_ok L space s" and "same_heap (FRAME_ALLOCATOR s0) (FRAME_ALLOCATOR s)"
    and "kused s = kused s0 \<union> set (node_addrs (page_table space))"
    and "kused s0 \<inter> set (node_addrs (page_table space)) = {}"
  shows "addr_space_drop space s = Inr (s\<lparr>FRAME_ALLOCATOR := FRAME_ALLOCATOR s0\<rparr>)"
proof -
  have inv: "pt_inv s (page_table space)" and ar: "virt_areas space = kernel_areas L"
    using assms(2) by (simp_all add: space_ok_def)
  show ?thesis
    using page_table_drop_restores [OF assms(1) inv assms(3-5)]
    by (simp add: addr_space_drop_def get_root_frame_def root_node_eq ar kernel_areas_drop)
qed

lemma space_ok_frame:
  assumes "space_ok L space s" and "\<And>x. page_of x \<in> set (node_addrs (page_table space)) \<Longrightarrow> m x = phys_mem s x"
  shows "space_ok L space (s\<lparr>phys_mem := m\<rparr>)"
  using assms pt_frame [of s "page_table space" "s\<lparr>phys_mem := m\<rparr>"]
    pt_invD(1,4) [of s "page_table space"]
  by (auto simp: space_ok_def kstate_wf_def)

lemma lock_space_spec:
  assumes B: "bitflags_ok B" and L: "linker_ok L" and S: "satp_set_ok S"
    and hp: "heap_ok L (kern h)" and free: "73 \<le> card (kfree (kern h))"
    and inv: "pt_inv (kern h) (page_table space)" and nm: "nodes_mapped (kern h) (page_table space)"
  shows "\<exists>m. lock_space B L S space h = Inr (h\<lparr>kern := (kern h)\<lparr>phys_mem := m\<rparr>,
       csr_satp := addr_space_make_satp space\<rparr>) \<and>
     pt_inv ((kern h)\<lparr>phys_mem := m\<rparr>) (page_table space) \<and>
     (\<forall>x. page_of x \<notin> set (node_addrs (page_table space)) \<union> kfree (kern h) \<longrightarrow>
        m x = phys_mem (kern h) x) \<and>
     (\<forall>b. kmap ((kern h)\<lparr>phys_mem := m\<rparr>) (page_table space) b =
        (if \<exists>n \<in> set (node_addrs (page_table space)). same_page n b
         then map_option locked_entry (kmap (kern h) (page_table space) b)
         else kmap (kern h) (page_table space) b))"
proof -
  let ?pt = "page_table space" and ?s = "kern h"
  have wf: "kstate_wf ?s" using pt_invD(1) [OF inv] .
  obtain sp2 s1 where mk: "make_kernel B L ?s = Inr (sp2, s1)" "space_ok L sp2 s1"
    "same_heap (FRAME_ALLOCATOR ?s) (FRAME_ALLOCATOR s1)" "set (node_addrs (page_table sp2)) \<subseteq> kfree ?s"
    "kfree s1 = kfree ?s - set (node_addrs (page_table sp2))"
    "kused s1 = kused ?s \<union> set (node_addrs (page_table sp2))"
    "\<And>x. page_of x \<notin> set (node_addrs (page_table sp2)) \<Longrightarrow> phys_mem s1 x = phys_mem ?s x"
    using make_kernel_spec [OF B L wf free] by blast
  have dis: "set (node_addrs ?pt) \<inter> set (node_addrs (page_table sp2)) = {}"
    using pt_invD(4) [OF inv] mk(4) free_used_disjoint [of "FRAME_ALLOCATOR ?s"] wf
    by (auto simp: kstate_wf_def)
  have inv2: "pt_inv s1 (page_table sp2)" using mk(2) by (simp add: space_ok_def)
  have fr: "phys_mem s1 x = phys_mem ?s x" if "page_of x \<in> set (node_addrs ?pt)" for x
    using that mk(7) dis by blast
  have us: "set (node_addrs ?pt) \<subseteq> kused s1"
    using pt_invD(4) [OF inv] mk(6) by blast
  have inv1: "pt_inv s1 ?pt"
    by (rule pt_frame(1) [OF inv _ pt_invD(1) [OF inv2] us]) (rule fr)
  have km1: "kmap s1 ?pt = kmap ?s ?pt"
    by (rule pt_frame(2) [OF inv _ pt_invD(1) [OF inv2] us]) (rule fr)
  have hp1: "heap_ok L s1"
    using hp mk(3) pt_invD(1) [OF inv1] by (simp add: heap_ok_def same_heap_def)
  have nm1: "nodes_mapped s1 ?pt" using nm km1 by (simp add: nodes_mapped_def)
  obtain m where lk: "lock_table B ?pt (phys_mem s1) = Inr m" "pt_inv (s1\<lparr>phys_mem := m\<rparr>) ?pt"
    "\<And>x. page_of x \<notin> set (node_addrs ?pt) \<Longrightarrow> m x = phys_mem s1 x"
    "\<And>b. kmap (s1\<lparr>phys_mem := m\<rparr>) ?pt b = (if \<exists>n \<in> set (node_addrs ?pt). same_page n b
       then map_option locked_entry (kmap s1 ?pt b) else kmap s1 ?pt b)"
    using lock_table_spec(1) [OF B inv1 nm1] by blast
  have ok2: "space_ok L sp2 (s1\<lparr>phys_mem := m\<rparr>)"
    using space_ok_frame [OF mk(2), of m] lk(3) dis by auto
  have eq: "s1\<lparr>phys_mem := m, FRAME_ALLOCATOR := FRAME_ALLOCATOR ?s\<rparr> = ?s\<lparr>phys_mem := m\<rparr>"
    by (rule kstate.equality) simp_all
  have "addr_space_drop sp2 (s1\<lparr>phys_mem := m\<rparr>) =
      Inr (s1\<lparr>phys_mem := m, FRAME_ALLOCATOR := FRAME_ALLOCATOR ?s\<rparr>)"
    using kernel_space_drop [OF wf ok2] mk(3,4,6) free_used_disjoint [of "FRAME_ALLOCATOR ?s"] wf
    by (auto simp: kstate_wf_def)
  then have "lock_space B L S space h =
      Inr (h\<lparr>kern := ?s\<lparr>phys_mem := m\<rparr>, csr_satp := addr_space_make_satp space\<rparr>)"
    using mk(1) lk(1) kernel_root_small(1,2) [OF L hp inv] kernel_root_small(1,2) [OF L hp1 inv2] eq
    by (simp add: lock_space_def load_satp [OF S])
  moreover have "pt_inv (?s\<lparr>phys_mem := m\<rparr>) ?pt"
    using lk(2) inv by (simp add: pt_inv_def kstate_wf_def)
  moreover have "m x = phys_mem ?s x" if "page_of x \<notin> set (node_addrs ?pt) \<union> kfree ?s" for x
    using that lk(3) mk(4,7) by (metis UnI1 UnI2 subsetD)
  ultimately show ?thesis
    using lk(4) km1 by (intro exI [of _ m]) simp
qed

text \<open>The nodes of a kernel space are in the heap, which the space maps.\<close>

lemma space_nodes_mapped:
  assumes L: "linker_ok L" and hp: "heap_ok L s" and ok: "space_ok L space s"
  shows "nodes_mapped s (page_table space)"
proof -
  have inv: "pt_inv s (page_table space)" and km: "kmap s (page_table space) = kernel_map L"
    using ok by (simp_all add: space_ok_def)
  show ?thesis
    using kernel_root_small(3) [OF L hp inv] heap_frames_mapped(4) [OF L hp] pt_invD(4) [OF inv]
    by (auto simp: nodes_mapped_def km)
qed

end
