(* ===== verification/Mmu.thy ===== *)
theory Mmu
  imports Kernel_Boot
begin

text \<open>
  Address translation by the hardware, as the privileged architecture defines it for the mode
  \<^verbatim>\<open>Sv39\<close>: three levels, entries with a valid bit, and leaves with permissions.  The kernel's page
  tables, modelled from its source by walks over the same memory, are here compared with what the
  hardware makes of them.  The accessed and dirty bits, which the hardware may set in a leaf, are
  not modelled; \<^verbatim>\<open>sstatus.SUM\<close> and \<^verbatim>\<open>sstatus.MXR\<close> are clear, as the kernel never sets them.
\<close>

section \<open>The walk of the hardware\<close>

datatype privilege = UserMode | SupervisorMode | MachineMode
datatype mem_access = Fetch | Load | Store

definition hw_ppn :: "usize \<Rightarrow> usize" where
  "hw_ppn e = push_bit 12 (drop_bit 10 e AND mask 44)"

definition hw_permits :: "privilege \<Rightarrow> mem_access \<Rightarrow> usize \<Rightarrow> bool" where
  "hw_permits mode acc e \<longleftrightarrow>
     (case acc of Fetch \<Rightarrow> bit e 3 | Load \<Rightarrow> bit e 1 | Store \<Rightarrow> bit e 2) \<and>
     (bit e 4 \<longleftrightarrow> mode = UserMode)"

text \<open>The leaf that the walk from a node of some level ends at, and the level of the leaf.\<close>

fun hw_walk :: "pmem \<Rightarrow> usize \<Rightarrow> usize \<Rightarrow> nat \<Rightarrow> (usize \<times> nat) option" where
  "hw_walk m va t level =
     (let e = load_usize m (cell t (vpn_index va level))
      in if \<not> bit e 0 \<or> \<not> bit e 1 \<and> bit e 2 \<or> e AND NOT (mask 54) \<noteq> 0 then None
         else if bit e 1 \<or> bit e 3 then
           (if hw_ppn e AND mask (12 + 9 * level) = 0 then Some (e, level) else None)
         else case level of 0 \<Rightarrow> None | Suc l \<Rightarrow> hw_walk m va (hw_ppn e) l)"

declare hw_walk.simps [simp del]

text \<open>
  An address of \<^verbatim>\<open>Sv39\<close> has 39 bits; the bits above must be copies of bit 38, and an address where they are
  not is a fault.
\<close>

definition canonical :: "usize \<Rightarrow> bool" where
  "canonical va \<longleftrightarrow> signed_take_bit 38 va = va"

definition hw_translate :: "usize \<Rightarrow> privilege \<Rightarrow> pmem \<Rightarrow> mem_access \<Rightarrow> usize \<Rightarrow> usize option" where
  "hw_translate satp mode m acc va =
     (if mode = MachineMode \<or> drop_bit 60 satp = 0 then Some va
      else if drop_bit 60 satp \<noteq> 8 \<or> \<not> canonical va then None
      else case hw_walk m va (push_bit 12 (satp AND mask 44)) 2 of
             None \<Rightarrow> None
           | Some (e, level) \<Rightarrow>
               if hw_permits mode acc e then Some (hw_ppn e OR (va AND mask (12 + 9 * level))) else None)"

section \<open>Agreement with the tables of the kernel\<close>

lemma bit_below: "unat (a :: usize) < 2 ^ k \<Longrightarrow> bit a n \<Longrightarrow> n < k"
proof (rule ccontr)
  assume a: "unat a < 2 ^ k" "bit a n" "\<not> n < k"
  then have "(2 :: nat) ^ k \<le> 2 ^ n" by simp
  with a(1) have "unat a < 2 ^ n" by linarith
  moreover have "bit (unat a) n" using a(2) by (simp add: bit_unsigned_iff)
  ultimately show False by (simp add: bit_iff_odd)
qed

lemma bit_below_56: "a < 2 ^ 56 \<Longrightarrow> bit (a :: usize) n \<Longrightarrow> n < 56"
  using bit_below [of a 56 n] by (simp add: word_less_nat_alt)

text \<open>The lower half of the addresses, where the kernel maps everything.\<close>

lemma canonical_low:
  assumes "va < 2 ^ 38"
  shows "canonical va"
proof -
  have hi: "bit va n \<Longrightarrow> n < 38" for n
    using bit_below [of va 38 n] assms by (simp add: word_less_nat_alt)
  show ?thesis
    unfolding canonical_def
    by (rule bit_word_eqI) (use hi in \<open>force simp: bit_signed_take_bit_iff min_def\<close>)
qed

lemma hw_entry:
  assumes "a < 2 ^ 56" and "f AND NOT (mask 9) = 0"
  shows "hw_ppn (entry_for a f) = page_of a" and "entry_for a f AND NOT (mask 54) = 0"
proof -
  note hi = bit_below_56 [OF assms(1)] and fl = bit_small_flags [OF assms(2)]
  show "hw_ppn (entry_for a f) = page_of a"
  proof (rule bit_word_eqI)
    fix n assume "n < LENGTH(64)"
    then show "bit (hw_ppn (entry_for a f)) n = bit (page_of a) n"
      using hi [of n] fl [of "n - 2"] by (auto simp: hw_ppn_def entry_for_def page_of_def bit_simps)
  qed
  show "entry_for a f AND NOT (mask 54) = 0"
  proof (rule bit_word_eqI)
    fix n assume "n < LENGTH(64)"
    then show "bit (entry_for a f AND NOT (mask 54)) n = bit 0 n"
      using hi [of "n + 2"] fl [of n] by (auto simp: entry_for_def bit_simps)
  qed
qed

lemma hw_walk_pointer:
  assumes sh: "pt_shape m root N" and small: "\<forall>n \<in> N. n < 2 ^ 56"
    and p: "node_path p" "length p \<le> 1" "walk m root p = Some t"
  shows "hw_walk m va t (Suc l) =
    (case child m t (vpn_index va (Suc l)) of None \<Rightarrow> None | Some t' \<Rightarrow> hw_walk m va t' l)"
proof (cases "bit (load_usize m (cell t (vpn_index va (Suc l)))) 0")
  case False
  then show ?thesis by (simp add: hw_walk.simps [of m va t] child_def Let_def)
next
  case True
  let ?i = "vpn_index va (Suc l)"
  let ?e = "load_usize m (cell t ?i)"
  have e: "?e = entry_for (PTE2PA ?e) 1"
    using pt_shapeD(6) [OF sh p unat_vpn_index] True by (simp add: pointer_entry_def)
  have c: "child m t ?i = Some (PTE2PA ?e)" using True by (simp add: child_def)
  have "node_path (p @ [?i])" "walk m root (p @ [?i]) = Some (PTE2PA ?e)"
    using p c by (auto simp: node_path_def unat_vpn_index walk_snoc)
  then have t': "PTE2PA ?e \<in> N" by (rule pt_shapeD(3) [OF sh])
  then have "PTE2PA ?e < 2 ^ 56" "page_of (PTE2PA ?e) = PTE2PA ?e"
    using small pt_shapeD(2) [OF sh t'] by (simp_all add: page_aligned_page_of)
  moreover have "(1 :: u16) AND NOT (mask 9) = 0" by (simp add: mask_eq_exp_minus_1)
  ultimately have "hw_ppn ?e = PTE2PA ?e" "?e AND NOT (mask 54) = 0"
    using hw_entry [of "PTE2PA ?e" 1] e by simp_all
  moreover have "\<not> bit ?e 1" "\<not> bit ?e 2" "\<not> bit ?e 3"
    by (subst e, simp add: bit_entry_for)+
  ultimately show ?thesis
    using True c by (simp add: hw_walk.simps [of m va t])
qed

definition hw_leaf :: "usize \<Rightarrow> bool" where
  "hw_leaf e \<longleftrightarrow> (bit e 1 \<or> bit e 3 \<and> \<not> bit e 2) \<and> e AND NOT (mask 54) = 0"

lemma hw_ppn_aligned: "hw_ppn e AND mask 12 = 0"
  by (rule bit_word_eqI) (auto simp: hw_ppn_def bit_simps)

text \<open>For a table in good shape, the walk of the hardware ends at the entry of the table's map.\<close>

lemma hw_walk_map:
  assumes sh: "pt_shape m root N" and small: "\<forall>n \<in> N. n < 2 ^ 56"
  shows "hw_walk m va root 2 =
    (case pt_map m root va of None \<Rightarrow> None | Some e \<Rightarrow> if hw_leaf e then Some (e, 0) else None)"
proof -
  have 2: "hw_walk m va root 2 =
      (case child m root (vpn_index va 2) of None \<Rightarrow> None | Some t \<Rightarrow> hw_walk m va t 1)"
    using hw_walk_pointer [OF sh small, of "[]" root va 1] by (simp add: numeral_2_eq_2)
  show ?thesis
  proof (cases "child m root (vpn_index va 2)")
    case (Some t)
    have p: "node_path [vpn_index va 2]" "walk m root [vpn_index va 2] = Some t"
      using Some by (simp_all add: node_path_def unat_vpn_index)
    have 1: "hw_walk m va t 1 =
        (case child m t (vpn_index va 1) of None \<Rightarrow> None | Some u \<Rightarrow> hw_walk m va u 0)"
      using hw_walk_pointer [OF sh small p(1) _ p(2), of va 0] by simp
    have w: "walk m root (va_path va) = child m t (vpn_index va 1)"
      using Some by (simp add: va_path_def split: option.split)
    show ?thesis
      using 2 Some 1 w hw_ppn_aligned
      by (auto simp: pt_map_def leaf_addr_def hw_walk.simps [of m va _ 0] hw_leaf_def Let_def split: option.split)
  qed (simp add: 2 pt_map_def leaf_addr_def va_path_def)
qed

text \<open>The value of \<^verbatim>\<open>satp\<close> that selects a table.\<close>

lemma satp_fields:
  assumes "root < 2 ^ 56" and "page_aligned root"
  defines "satp \<equiv> push_bit 60 8 OR drop_bit 12 root"
  shows "drop_bit 60 satp = 8" and "push_bit 12 (satp AND mask 44) = root"
proof -
  note hi = bit_below_56 [OF assms(1)]
  have satp: "satp = push_bit 63 1 OR drop_bit 12 root"
    by (simp add: satp_def)
  note bits = bit_or_iff bit_push_bit_iff bit_drop_bit_eq bit_1_iff comp_apply bit_and_iff bit_mask_iff
    possible_bit_word
  have "drop_bit 60 satp = push_bit 3 1"
  proof (rule bit_word_eqI)
    fix n assume "n < LENGTH(64)"
    moreover have "\<not> bit root (12 + (60 + n))" using hi [of "12 + (60 + n)"] by auto
    ultimately show "bit (drop_bit 60 satp) n = bit (push_bit 3 (1 :: usize)) n"
      unfolding satp bits by auto
  qed
  then show "drop_bit 60 satp = 8" by simp
  have "satp AND mask 44 = drop_bit 12 root"
  proof (rule bit_word_eqI)
    fix n assume "n < LENGTH(64)"
    moreover have "bit root (12 + n) \<Longrightarrow> n < 44" using hi [of "12 + n"] by auto
    ultimately show "bit (satp AND mask 44) n = bit (drop_bit 12 root) n"
      unfolding satp bits by auto
  qed
  then show "push_bit 12 (satp AND mask 44) = root"
    using assms(2) by (simp add: push_bit_drop_bit_page page_aligned_page_of)
qed

lemma hw_translate_map:
  assumes inv: "pt_inv s pt" and small: "\<forall>n \<in> set (node_addrs pt). n < 2 ^ 56" and va: "canonical va"
    and mode: "mode \<noteq> MachineMode"
  shows "hw_translate (make_satp pt) mode (phys_mem s) acc va =
    (case kmap s pt va of
       None \<Rightarrow> None
     | Some e \<Rightarrow> if hw_leaf e \<and> hw_permits mode acc e then Some (hw_ppn e OR (va AND mask 12)) else None)"
proof -
  note sh = pt_invD(5) [OF inv]
  have root: "pt_root pt < 2 ^ 56" "page_aligned (pt_root pt)"
    using pt_shapeD(1,2) [OF sh] small by auto
  have satp: "make_satp pt = push_bit 60 8 OR drop_bit 12 (pt_root pt)"
    by (simp add: make_satp_def pt_root_def)
  show ?thesis
    using va mode satp_fields [OF root] hw_walk_map [OF sh small, of va]
    by (auto simp: hw_translate_def satp split: option.split)
qed

text \<open>An entry written by the kernel, with a frame below \<open>2^56\<close>, translates as it says.\<close>

lemma hw_translate_entry:
  assumes "pt_inv s pt" and "\<forall>n \<in> set (node_addrs pt). n < 2 ^ 56" and "va < 2 ^ 38"
    and "mode \<noteq> MachineMode" and "kmap s pt va = Some (entry_for a f)" and "a < 2 ^ 56"
    and "f AND NOT (mask 9) = 0" and "bit f 1" and "hw_permits mode acc (ucast f)"
  shows "hw_translate (make_satp pt) mode (phys_mem s) acc va = Some (page_of a OR (va AND mask 12))"
proof -
  have "hw_permits mode acc (entry_for a f) = hw_permits mode acc (ucast f)"
    by (auto simp: hw_permits_def bit_entry_for bit_simps split: mem_access.split)
  then show ?thesis
    using hw_translate_map [OF assms(1,2) canonical_low [OF assms(3)] assms(4), of acc] assms(5-9) hw_entry [OF assms(6,7)]
    by (simp add: hw_leaf_def bit_entry_for)
qed

end
