(* ===== verification/Hart.thy ===== *)
theory Hart
  imports Mmu
begin

text \<open>
  The registers of a hart, the functions of \<^verbatim>\<open>kernel/src/arch.rs\<close>, and the instructions that the
  kernel's assembly files use.

  A hart has its general registers \<open>x0\<close> to \<open>x31\<close>, of which \<open>tp\<close> (\<open>x4\<close>) holds the number
  of the hart, and its control and status registers.  The crate \<^verbatim>\<open>riscv\<close> reads and writes the
  latter: what its functions compute is the argument \<open>R\<close> of the definitions, and
  \<open>riscv_ok\<close> states what the privileged architecture fixes about it.
\<close>

section \<open>Traps\<close>

datatype interrupt = SupervisorSoft | SupervisorTimer | SupervisorExternal | UnknownInterrupt

text \<open>The exceptions that the source names; the others are told apart by their code.\<close>

datatype exception_cause =
    UserEnvCall | InstructionPageFault | LoadPageFault | OtherException usize

datatype trap = Interrupt interrupt | Exception exception_cause

record riscv_ops =
  stvec_direct :: "usize \<Rightarrow> usize"             \<comment> \<open>\<^verbatim>\<open>stvec::write(a, Direct)\<close>, \<^verbatim>\<open>mtvec::write(a, Direct)\<close>\<close>
  set_spp_user :: "usize \<Rightarrow> usize"              \<comment> \<open>on \<^verbatim>\<open>sstatus\<close>\<close>
  set_spie :: "usize \<Rightarrow> usize"
  set_sie :: "usize \<Rightarrow> usize"
  clear_sie :: "usize \<Rightarrow> usize"
  set_mpp_supervisor :: "usize \<Rightarrow> usize"        \<comment> \<open>on \<^verbatim>\<open>mstatus\<close>\<close>
  set_mie :: "usize \<Rightarrow> usize"
  set_mtimer :: "usize \<Rightarrow> usize"                \<comment> \<open>on \<^verbatim>\<open>mie\<close>\<close>
  scause_cause :: "usize \<Rightarrow> trap"

definition riscv_ok :: "riscv_ops \<Rightarrow> bool" where
  "riscv_ok R \<longleftrightarrow>
     (\<forall>a. a AND 3 = 0 \<longrightarrow> stvec_direct R a = a) \<and>
     (\<forall>x. set_spp_user R x = unset_bit 8 x) \<and> (\<forall>x. set_spie R x = set_bit 5 x) \<and>
     (\<forall>x. set_sie R x = set_bit 1 x) \<and> (\<forall>x. clear_sie R x = unset_bit 1 x) \<and>
     (\<forall>x. set_mpp_supervisor R x = set_bit 11 (unset_bit 12 x)) \<and> (\<forall>x. set_mie R x = set_bit 3 x) \<and>
     (\<forall>x. set_mtimer R x = set_bit 7 x) \<and>
     scause_cause R 8 = Exception UserEnvCall \<and> scause_cause R 12 = Exception InstructionPageFault \<and>
     scause_cause R 13 = Exception LoadPageFault \<and>
     scause_cause R (2 ^ 63 + 1) = Interrupt SupervisorSoft \<and>
     scause_cause R (2 ^ 63 + 5) = Interrupt SupervisorTimer \<and>
     scause_cause R (2 ^ 63 + 9) = Interrupt SupervisorExternal"

lemma riscv_okD:
  assumes "riscv_ok R"
  shows "a AND 3 = 0 \<Longrightarrow> stvec_direct R a = a" and "set_spp_user R x = unset_bit 8 x"
    and "set_spie R x = set_bit 5 x" and "set_sie R x = set_bit 1 x" and "clear_sie R x = unset_bit 1 x"
    and "set_mpp_supervisor R x = set_bit 11 (unset_bit 12 x)" and "set_mie R x = set_bit 3 x"
    and "set_mtimer R x = set_bit 7 x"
    and "scause_cause R 8 = Exception UserEnvCall" "scause_cause R 12 = Exception InstructionPageFault"
    and "scause_cause R (2 ^ 63 + 1) = Interrupt SupervisorSoft"
  using assms unfolding riscv_ok_def by blast+

text \<open>An implementation of these functions, for the witnesses.\<close>

definition plain_cause :: "usize \<Rightarrow> trap" where
  "plain_cause c =
     (if c = 8 then Exception UserEnvCall else if c = 12 then Exception InstructionPageFault
      else if c = 13 then Exception LoadPageFault
      else if c = 2 ^ 63 + 1 then Interrupt SupervisorSoft
      else if c = 2 ^ 63 + 5 then Interrupt SupervisorTimer
      else if c = 2 ^ 63 + 9 then Interrupt SupervisorExternal
      else if bit c 63 then Interrupt UnknownInterrupt else Exception (OtherException c))"

definition plain_riscv :: riscv_ops where
  "plain_riscv = \<lparr>stvec_direct = (\<lambda>a. a), set_spp_user = unset_bit 8, set_spie = set_bit 5,
     set_sie = set_bit 1, clear_sie = unset_bit 1, set_mpp_supervisor = (\<lambda>x. set_bit 11 (unset_bit 12 x)),
     set_mie = set_bit 3, set_mtimer = set_bit 7, scause_cause = plain_cause\<rparr>"

lemma plain_riscv_ok: "riscv_ok plain_riscv"
  by (simp add: riscv_ok_def plain_riscv_def plain_cause_def)

section \<open>Registers\<close>

record hart = mm_state +
  gpr :: "nat \<Rightarrow> usize"
  pc :: usize
  mode :: privilege
  csr_stvec :: usize
  csr_sepc :: usize
  csr_scause :: usize
  csr_stval :: usize
  csr_sstatus :: usize
  csr_sie :: usize
  csr_sip :: usize
  csr_mhartid :: usize
  csr_mstatus :: usize
  csr_mepc :: usize
  csr_medeleg :: usize
  csr_mideleg :: usize
  csr_mie :: usize
  csr_mtvec :: usize
  csr_mscratch :: usize

text \<open>A hart with all registers zero, for the witnesses.\<close>

definition zero_hart :: hart where
  "zero_hart = \<lparr>kern = \<lparr>phys_mem = (\<lambda>_. 0), FRAME_ALLOCATOR = FRAME_ALLOCATOR_init sample_linker\<rparr>,
     csr_satp = 0, csr_sscratch = 0, KERNEL_HEAP_ALLOCATOR = None, KERNEL_ADDRESS_SPACE = None,
     gpr = (\<lambda>_. 0), pc = 0, mode = MachineMode, csr_stvec = 0, csr_sepc = 0, csr_scause = 0, csr_stval = 0,
     csr_sstatus = 0, csr_sie = 0, csr_sip = 0, csr_mhartid = 0, csr_mstatus = 0, csr_mepc = 0,
     csr_medeleg = 0, csr_mideleg = 0, csr_mie = 0, csr_mtvec = 0, csr_mscratch = 0\<rparr>"

abbreviation hmem :: "'a hart_scheme \<Rightarrow> pmem" where
  "hmem h \<equiv> phys_mem (kern h)"

definition set_hmem :: "pmem \<Rightarrow> 'a hart_scheme \<Rightarrow> 'a hart_scheme" where
  "set_hmem m h = h\<lparr>kern := (kern h)\<lparr>phys_mem := m\<rparr>\<rparr>"

definition reg :: "'a hart_scheme \<Rightarrow> nat \<Rightarrow> usize" where
  "reg h i = (if i = 0 then 0 else gpr h i)"

definition set_reg :: "nat \<Rightarrow> usize \<Rightarrow> 'a hart_scheme \<Rightarrow> 'a hart_scheme" where
  "set_reg i v h = (if i = 0 then h else h\<lparr>gpr := (gpr h)(i := v)\<rparr>)"

section \<open>\<^verbatim>\<open>arch.rs\<close>\<close>

definition hart_id :: "'a hart_scheme \<Rightarrow> usize" where
  "hart_id h = reg h 4"

definition intr_off :: "riscv_ops \<Rightarrow> 'a hart_scheme \<Rightarrow> 'a hart_scheme" where
  "intr_off R h = h\<lparr>csr_sstatus := clear_sie R (csr_sstatus h)\<rparr>"

definition intr_on :: "riscv_ops \<Rightarrow> 'a hart_scheme \<Rightarrow> 'a hart_scheme" where
  "intr_on R h = h\<lparr>csr_sstatus := set_sie R (csr_sstatus h)\<rparr>"

section \<open>Instructions\<close>

text \<open>
  The instructions of the assembly files.  A load or a store translates its address; \<open>None\<close> is
  a page fault.  \<^verbatim>\<open>sfence.vma\<close> only orders memory accesses, which are in program order here.
\<close>

datatype csr = Sscratch | Satp | Sepc | Sip | Mscratch | Mhartid

datatype instr =
    Sd nat usize nat        \<comment> \<open>\<^verbatim>\<open>sd rs2, off(rs1)\<close>\<close>
  | Ld nat usize nat        \<comment> \<open>\<^verbatim>\<open>ld rd, off(rs1)\<close>\<close>
  | Addi nat nat usize
  | Add nat nat nat
  | Mul nat nat nat
  | Mv nat nat
  | Li nat usize
  | Csrrw nat csr nat
  | Csrr nat csr
  | Csrw csr nat
  | SfenceVma
  | Jr nat
  | Sret
  | Mret

fun csr_read :: "csr \<Rightarrow> 'a hart_scheme \<Rightarrow> usize" where
  "csr_read Sscratch h = csr_sscratch h"
| "csr_read Satp h = csr_satp h"
| "csr_read Sepc h = csr_sepc h"
| "csr_read Sip h = csr_sip h"
| "csr_read Mscratch h = csr_mscratch h"
| "csr_read Mhartid h = csr_mhartid h"

text \<open>
  \<^verbatim>\<open>mhartid\<close> is read-only; no code of the kernel writes it.  Of \<^verbatim>\<open>sip\<close> only the software interrupt, bit 1, can be
  written.  \<^verbatim>\<open>sepc\<close> takes every address: those of instructions are even, so that its lowest bit, which the
  hardware keeps clear, does not matter.
\<close>

fun csr_write :: "csr \<Rightarrow> usize \<Rightarrow> 'a hart_scheme \<Rightarrow> 'a hart_scheme" where
  "csr_write Sscratch v h = h\<lparr>csr_sscratch := v\<rparr>"
| "csr_write Satp v h = h\<lparr>csr_satp := v\<rparr>"
| "csr_write Sepc v h = h\<lparr>csr_sepc := v\<rparr>"
| "csr_write Sip v h = h\<lparr>csr_sip := (if bit v 1 then set_bit 1 else unset_bit 1) (csr_sip h)\<rparr>"
| "csr_write Mscratch v h = h\<lparr>csr_mscratch := v\<rparr>"
| "csr_write Mhartid v h = h"

abbreviation xlate :: "'a hart_scheme \<Rightarrow> mem_access \<Rightarrow> usize \<Rightarrow> usize option" where
  "xlate h acc va \<equiv> hw_translate (csr_satp h) (mode h) (hmem h) acc va"

text \<open>
  The return from a trap: \<open>SPP\<close> is bit 8 of \<^verbatim>\<open>sstatus\<close>, \<open>SPIE\<close> bit 5 and \<open>SIE\<close> bit 1; in
  \<^verbatim>\<open>mstatus\<close>, \<open>MPP\<close> is bits 11 and 12, \<open>MPIE\<close> bit 7 and \<open>MIE\<close> bit 3.
\<close>

definition sret_status :: "usize \<Rightarrow> usize" where
  "sret_status x = unset_bit 8 (set_bit 5 (if bit x 5 then set_bit 1 x else unset_bit 1 x))"

definition mret_mode :: "usize \<Rightarrow> privilege" where
  "mret_mode x = (if bit x 12 then MachineMode else if bit x 11 then SupervisorMode else UserMode)"

definition mret_status :: "usize \<Rightarrow> usize" where
  "mret_status x = unset_bit 12 (unset_bit 11 (set_bit 7 (if bit x 7 then set_bit 3 x else unset_bit 3 x)))"

fun step :: "instr \<Rightarrow> 'a hart_scheme \<Rightarrow> 'a hart_scheme option" where
  "step (Sd rs off rb) h =
     map_option (\<lambda>pa. set_hmem (store_usize (hmem h) pa (reg h rs)) h) (xlate h Store (reg h rb + off))"
| "step (Ld rd off rb) h =
     map_option (\<lambda>pa. set_reg rd (load_usize (hmem h) pa) h) (xlate h Load (reg h rb + off))"
| "step (Addi rd rs v) h = Some (set_reg rd (reg h rs + v) h)"
| "step (Add rd rs rt) h = Some (set_reg rd (reg h rs + reg h rt) h)"
| "step (Mul rd rs rt) h = Some (set_reg rd (reg h rs * reg h rt) h)"
| "step (Mv rd rs) h = Some (set_reg rd (reg h rs) h)"
| "step (Li rd v) h = Some (set_reg rd v h)"
| "step (Csrrw rd c rs) h = Some (set_reg rd (csr_read c h) (csr_write c (reg h rs) h))"
| "step (Csrr rd c) h = Some (set_reg rd (csr_read c h) h)"
| "step (Csrw c rs) h = Some (csr_write c (reg h rs) h)"
| "step SfenceVma h = Some h"
| "step (Jr rs) h = Some (h\<lparr>pc := reg h rs\<rparr>)"
| "step Sret h = Some (h\<lparr>pc := csr_sepc h, csr_sstatus := sret_status (csr_sstatus h),
     mode := if bit (csr_sstatus h) 8 then SupervisorMode else UserMode\<rparr>)"
| "step Mret h = Some (h\<lparr>pc := csr_mepc h, mode := mret_mode (csr_mstatus h),
     csr_mstatus := mret_status (csr_mstatus h)\<rparr>)"

text \<open>
  Code that runs at the virtual page \<open>cva\<close> and lies in the physical page \<open>cpa\<close>: every instruction
  is fetched through the translation in force when it runs.
\<close>

fun exec_page :: "usize \<Rightarrow> usize \<Rightarrow> instr list \<Rightarrow> 'a hart_scheme \<Rightarrow> 'a hart_scheme option" where
  "exec_page cva cpa [] h = Some h"
| "exec_page cva cpa (i # is) h =
     (if xlate h Fetch cva = Some cpa
      then case step i h of None \<Rightarrow> None | Some h' \<Rightarrow> exec_page cva cpa is h' else None)"

text \<open>Code in memory that is mapped at its own address, or runs without translation.\<close>

fun exec :: "instr list \<Rightarrow> 'a hart_scheme \<Rightarrow> 'a hart_scheme option" where
  "exec [] h = Some h"
| "exec (i # is) h = (case step i h of None \<Rightarrow> None | Some h' \<Rightarrow> exec is h')"

lemma exec_page_append:
  "exec_page cva cpa (xs @ ys) h =
     (case exec_page cva cpa xs h of None \<Rightarrow> None | Some h' \<Rightarrow> exec_page cva cpa ys h')"
  by (induction xs arbitrary: h) (auto split: option.split)

lemma exec_append: "exec (xs @ ys) h = (case exec xs h of None \<Rightarrow> None | Some h' \<Rightarrow> exec ys h')"
  by (induction xs arbitrary: h) (auto split: option.split)

lemma hart_updates [simp]:
  "csr_satp (set_reg i v h) = csr_satp h" "csr_sscratch (set_reg i v h) = csr_sscratch h"
  "kern (set_reg i v h) = kern h" "mode (set_reg i v h) = mode h" "csr_sepc (set_reg i v h) = csr_sepc h"
  "csr_sstatus (set_reg i v h) = csr_sstatus h" "pc (set_reg i v h) = pc h"
  "KERNEL_ADDRESS_SPACE (set_reg i v h) = KERNEL_ADDRESS_SPACE h"
  "csr_satp (set_hmem m h) = csr_satp h" "csr_sscratch (set_hmem m h) = csr_sscratch h"
  "hmem (set_hmem m h) = m" "FRAME_ALLOCATOR (kern (set_hmem m h)) = FRAME_ALLOCATOR (kern h)"
  "mode (set_hmem m h) = mode h" "csr_sepc (set_hmem m h) = csr_sepc h" "gpr (set_hmem m h) = gpr h"
  "csr_sstatus (set_hmem m h) = csr_sstatus h" "pc (set_hmem m h) = pc h"
  "KERNEL_ADDRESS_SPACE (set_hmem m h) = KERNEL_ADDRESS_SPACE h"
  by (simp_all add: set_reg_def set_hmem_def)

lemma reg_set_reg: "reg (set_reg i v h) j = (if j = i \<and> i \<noteq> 0 then v else reg h j)"
  by (simp add: reg_def set_reg_def)

lemma reg_set_hmem [simp]: "reg (set_hmem m h) = reg h"
  by (simp add: reg_def fun_eq_iff)

lemma set_hmem_simps [simp]: "set_hmem m (set_hmem m' h) = set_hmem m h" "set_hmem (hmem h) h = h"
  by (simp_all add: set_hmem_def)

section \<open>Taking a trap\<close>

text \<open>
  What the hardware does on a trap to supervisor mode: it saves the program counter and the cause,
  moves \<open>SIE\<close> (bit 1 of \<^verbatim>\<open>sstatus\<close>) to \<open>SPIE\<close> (bit 5), records the mode in \<open>SPP\<close> (bit 8)
  and jumps to the handler.
\<close>

definition trap_status :: "privilege \<Rightarrow> usize \<Rightarrow> usize" where
  "trap_status p x =
     (let y = unset_bit 1 (if bit x 1 then set_bit 5 x else unset_bit 5 x)
      in if p = UserMode then unset_bit 8 y else set_bit 8 y)"

definition take_trap :: "usize \<Rightarrow> usize \<Rightarrow> 'a hart_scheme \<Rightarrow> 'a hart_scheme" where
  "take_trap cause tval h =
     h\<lparr>csr_sepc := pc h, csr_scause := cause, csr_stval := tval,
       csr_sstatus := trap_status (mode h) (csr_sstatus h), mode := SupervisorMode, pc := csr_stvec h\<rparr>"

end
