(* ===== verification/Context.thy ===== *)
theory Context
  imports Hart
begin

text \<open>
  \<^verbatim>\<open>kernel/src/process/context.rs\<close>: the trap context, the page in which a process leaves its
  registers when it enters the kernel.  The structure is \<^verbatim>\<open>repr(C)\<close>, 37 words in the order of its
  fields; the assembly code addresses them by number.
\<close>

section \<open>The context\<close>

record trap_context =
  user_regs :: "usize list"      \<comment> \<open>an array of 32\<close>
  kernel_satp :: usize
  kernel_sp :: usize
  kernel_hardid :: usize
  context_sepc :: usize
  trap_handler :: usize

definition TP :: nat where "TP = 4"
definition SP :: nat where "SP = 2"
definition A0 :: nat where "A0 = 10"

text \<open>The context that starts at an address, and storing one there.\<close>

definition context_at :: "pmem \<Rightarrow> usize \<Rightarrow> trap_context" where
  "context_at m p =
     \<lparr>user_regs = map (\<lambda>i. load_usize m (cell p (of_nat i))) [0..<32],
      kernel_satp = load_usize m (cell p 32), kernel_sp = load_usize m (cell p 33),
      kernel_hardid = load_usize m (cell p 34), context_sepc = load_usize m (cell p 35),
      trap_handler = load_usize m (cell p 36)\<rparr>"

definition context_words :: "trap_context \<Rightarrow> usize list" where
  "context_words c =
     user_regs c @ [kernel_satp c, kernel_sp c, kernel_hardid c, context_sepc c, trap_handler c]"

definition put_context :: "pmem \<Rightarrow> usize \<Rightarrow> trap_context \<Rightarrow> pmem" where
  "put_context m p c =
     fold (\<lambda>(i, v) m. store_usize m (cell p (of_nat i)) v) (enumerate 0 (context_words c)) m"

definition set_tp :: "trap_context \<Rightarrow> usize \<Rightarrow> trap_context" where
  "set_tp c tp = c\<lparr>user_regs := (user_regs c)[TP := tp]\<rparr>"

definition set_trap_handler :: "trap_context \<Rightarrow> virt_addr \<Rightarrow> trap_context" where
  "set_trap_handler c addr = c\<lparr>trap_handler := va_as_usize addr\<rparr>"

definition set_user_space_pc :: "trap_context \<Rightarrow> virt_addr \<Rightarrow> trap_context" where
  "set_user_space_pc c addr = c\<lparr>context_sepc := va_as_usize addr\<rparr>"

definition get_user_space_pc :: "trap_context \<Rightarrow> virt_addr \<Rightarrow> trap_context" where
  "get_user_space_pc c addr = c\<lparr>context_sepc := va_as_usize addr\<rparr>"

definition incr_user_space_pc :: "trap_context \<Rightarrow> usize \<Rightarrow> trap_context result" where
  "incr_user_space_pc c diff =
     and_then (checked_add (context_sepc c) diff) (\<lambda>pc. Ok (c\<lparr>context_sepc := pc\<rparr>))"

text \<open>\<open>PAGE_SIZE\<close> is again the constant \<open>vps\<close> of the crate \<^verbatim>\<open>virtio_drivers\<close>.\<close>

definition set_user_stack :: "usize \<Rightarrow> trap_context \<Rightarrow> phys_addr \<Rightarrow> trap_context result" where
  "set_user_stack vps c base =
     and_then (rust_assert ''base_addr.is_page_aligned()'' (pa_is_page_aligned base)) (\<lambda>_.
     and_then (checked_add (pa_as_usize base) vps) (\<lambda>top.
       Ok (c\<lparr>user_regs := (user_regs c)[SP := top]\<rparr>)))"

definition set_kernel_stack :: "usize \<Rightarrow> trap_context \<Rightarrow> phys_addr \<Rightarrow> trap_context result" where
  "set_kernel_stack vps c base =
     and_then (rust_assert ''base_addr.is_page_aligned()'' (pa_is_page_aligned base)) (\<lambda>_.
     and_then (checked_add (pa_as_usize base) vps) (\<lambda>top. Ok (c\<lparr>kernel_sp := top\<rparr>)))"

definition set_kernel_page_table :: "trap_context \<Rightarrow> usize \<Rightarrow> trap_context" where
  "set_kernel_page_table c satp = c\<lparr>kernel_satp := satp\<rparr>"

definition get_kernel_page_table :: "trap_context \<Rightarrow> usize" where
  "get_kernel_page_table c = kernel_satp c"

definition get_arg :: "trap_context \<Rightarrow> usize \<Rightarrow> usize result" where
  "get_arg c idx =
     (if idx \<le> 7 then vec_index (user_regs c) (A0 + unat idx)
      else Panic (ExplicitPanic ''TrapContext::get_arg: out of bounds''))"

section \<open>System calls\<close>

text \<open>
  The macro \<^verbatim>\<open>primitive_enum\<close> generates the enumeration of \<^verbatim>\<open>trap/syscall.rs\<close> and the function
  \<open>Syscall::from\<close>, here the argument \<open>Q\<close>: it returns the variant with the number it is given.
\<close>

datatype syscall =
    SysFork | SysExit | SysWait | SysPipe | SysRead | SysWrite | SysClose | SysKill | SysExec
  | SysOpen | SysMknod | SysUnlink | SysFstat | SysLink | SysMkdir | SysChdir | SysDup
  | SysGetpid | SysSbrk | SysSleep | SysUptime

definition syscalls :: "syscall list" where
  "syscalls = [SysFork, SysExit, SysWait, SysPipe, SysRead, SysWrite, SysClose, SysKill, SysExec,
     SysOpen, SysMknod, SysUnlink, SysFstat, SysLink, SysMkdir, SysChdir, SysDup, SysGetpid, SysSbrk,
     SysSleep, SysUptime]"

definition syscall_from_ok :: "(usize \<Rightarrow> syscall option) \<Rightarrow> bool" where
  "syscall_from_ok Q \<longleftrightarrow>
     (\<forall>n. Q n = (if unat n < length syscalls then Some (syscalls ! unat n) else None))"

text \<open>An implementation, for the witnesses.\<close>

definition plain_syscalls :: "usize \<Rightarrow> syscall option" where
  "plain_syscalls n = (if unat n < length syscalls then Some (syscalls ! unat n) else None)"

lemma plain_syscalls_ok: "syscall_from_ok plain_syscalls"
  by (simp add: syscall_from_ok_def plain_syscalls_def)

definition get_syscall :: "(usize \<Rightarrow> syscall option) \<Rightarrow> trap_context \<Rightarrow> syscall option result" where
  "get_syscall Q c = and_then (get_arg c 7) (\<lambda>n. Ok (Q n))"

section \<open>The context in memory\<close>

lemma context_at_ext:
  assumes "\<And>i. i < 37 \<Longrightarrow> load_usize m (cell p (of_nat i)) = load_usize m' (cell p (of_nat i))"
  shows "context_at m p = context_at m' p"
proof -
  have "load_usize m (cell p 32) = load_usize m' (cell p 32)" "load_usize m (cell p 33) = load_usize m' (cell p 33)"
    "load_usize m (cell p 34) = load_usize m' (cell p 34)" "load_usize m (cell p 35) = load_usize m' (cell p 35)"
    "load_usize m (cell p 36) = load_usize m' (cell p 36)"
    using assms [of 32] assms [of 33] assms [of 34] assms [of 35] assms [of 36] by simp_all
  then show ?thesis
    using assms by (simp add: context_at_def)
qed

lemma context_cell: "i < 37 \<Longrightarrow> unat (of_nat i :: usize) < 512" "i < 512 \<Longrightarrow> unat (of_nat i :: usize) = i"
  by (simp_all add: unat_of_nat)

lemma context_at_page:
  assumes "page_aligned p" and "\<And>x. page_of x = p \<Longrightarrow> m x = m' x"
  shows "context_at m p = context_at m' p"
proof (rule context_at_ext)
  fix n :: nat assume n: "n < 37"
  show "load_usize m (cell p (of_nat n)) = load_usize m' (cell p (of_nat n))"
    using page_of_cell_byte [OF assms(1) context_cell(1) [OF n]]
    by (intro load_usize_cong assms(2)) simp
qed

text \<open>The words of the context, by the number that the assembly code uses.\<close>

definition context_word :: "trap_context \<Rightarrow> nat \<Rightarrow> usize" where
  "context_word c i = context_words c ! i"

lemma length_context_words [simp]: "length (context_words c) = length (user_regs c) + 5"
  by (simp add: context_words_def)

lemma context_word_at:
  assumes "i < 37"
  shows "context_word (context_at m p) i = load_usize m (cell p (of_nat i))"
proof -
  have "i < 32 \<or> i = 32 \<or> i = 33 \<or> i = 34 \<or> i = 35 \<or> i = 36" using assms by auto
  then show ?thesis
    by (auto simp: context_word_def context_words_def context_at_def nth_append simp del: upt_rec_numeral)
qed

lemma load_put_words:
  assumes p: "page_aligned p" and n: "k + length ws \<le> 512" and i: "i < 512"
  shows "load_usize (fold (\<lambda>(i, v) m. store_usize m (cell p (of_nat i)) v) (enumerate k ws) m) (cell p (of_nat i)) =
     (if k \<le> i \<and> i < k + length ws then ws ! (i - k) else load_usize m (cell p (of_nat i)))"
  using n
proof (induction ws arbitrary: k m)
  case (Cons w ws)
  have "load_usize (store_usize m (cell p (of_nat k)) w) (cell p (of_nat i)) =
      (if i = k then w else load_usize m (cell p (of_nat i)))"
    using Cons.prems i p load_store_cell [of p "of_nat k" p "of_nat i" m w]
    by (auto simp: context_cell(2) word_unat_eq_iff)
  then show ?case
    using Cons.IH [of "Suc k" "store_usize m (cell p (of_nat k)) w"] Cons.prems
    by (auto simp: nth_Cons' le_Suc_eq)
qed auto

lemma put_words_frame:
  assumes p: "page_aligned p" and n: "k + length ws \<le> 512" and x: "page_of x \<noteq> p"
  shows "fold (\<lambda>(i, v) m. store_usize m (cell p (of_nat i)) v) (enumerate k ws) m x = m x"
  using n
proof (induction ws arbitrary: k m)
  case (Cons w ws)
  then show ?case
    using store_usize_other_page [OF p _ x, of "of_nat k"] by (simp add: context_cell(2))
qed simp

lemma context_roundtrip:
  assumes "page_aligned p" and "length (user_regs c) = 32"
  shows "context_at (put_context m p c) p = c"
proof -
  have ld: "load_usize (put_context m p c) (cell p (of_nat i)) = context_word c i" if "i < 37" for i
    using load_put_words [OF assms(1), of 0 "context_words c" i m] that assms(2)
    by (simp add: put_context_def context_word_def)
  have "user_regs (context_at (put_context m p c) p) = user_regs c"
    using ld assms(2)
    by (intro nth_equalityI)
       (auto simp: context_at_def context_word_def context_words_def nth_append simp del: upt_rec_numeral)
  moreover have "context_word c 32 = kernel_satp c" "context_word c 33 = kernel_sp c"
    "context_word c 34 = kernel_hardid c" "context_word c 35 = context_sepc c" "context_word c 36 = trap_handler c"
    using assms(2) by (simp_all add: context_word_def context_words_def nth_append)
  ultimately show ?thesis
    using ld [of 32] ld [of 33] ld [of 34] ld [of 35] ld [of 36]
    by (intro trap_context.equality) (simp_all add: context_at_def)
qed

lemma put_context_frame:
  assumes "page_aligned p" and "length (user_regs c) = 32" and "page_of x \<noteq> p"
  shows "put_context m p c x = m x"
  using put_words_frame [OF assms(1) _ assms(3), of 0 "context_words c"] assms(2)
  by (simp add: put_context_def)

lemma length_user_regs [simp]: "length (user_regs (context_at m p)) = 32"
  by (simp add: context_at_def)

lemma setters_length [simp]:
  "length (user_regs (set_tp c tp)) = length (user_regs c)"
  "length (user_regs (set_trap_handler c va)) = length (user_regs c)"
  "length (user_regs (set_user_space_pc c va)) = length (user_regs c)"
  "length (user_regs (set_kernel_page_table c v)) = length (user_regs c)"
  by (simp_all add: set_tp_def set_trap_handler_def set_user_space_pc_def set_kernel_page_table_def)

end
