(* ===== verification/User_Space.thy ===== *)
theory User_Space
  imports Kernel_Boot
begin

text \<open>
  The address space of the first process: \<open>make_init\<close> and \<open>init_trapframe\<close> of
  \<^verbatim>\<open>kernel/src/mm/address_space.rs\<close>.  The frames a space owns, the nodes of its table and the
  frames of its areas, are what dropping it returns; the map of the space has the trampoline, the
  trap frame, the stack and one page of text.
\<close>

section \<open>The frames of a space\<close>

fun guard_owned :: "virt_frame_guard \<Rightarrow> usize list" where
  "guard_owned (ExclusivelyAllocated g) = [guard_addr g]"
| "guard_owned (CowShared g n) = []"
| "guard_owned (PhysBorrowed f) = []"

definition area_owned :: "virt_area \<Rightarrow> usize list" where
  "area_owned area = concat (map (guard_owned \<circ> snd) (virt_frames area))"

definition space_frames :: "addr_space \<Rightarrow> usize list" where
  "space_frames space =
     node_addrs (page_table space) @ concat (map area_owned (virt_areas space))"

definition space_inv :: "kstate \<Rightarrow> addr_space \<Rightarrow> bool" where
  "space_inv s space \<longleftrightarrow> pt_inv s (page_table space) \<and> areas_ok (virt_areas space) \<and>
     (\<forall>area \<in> set (virt_areas space). \<forall>g \<in> snd ` set (virt_frames area). guard_ok g) \<and>
     kmap s (page_table space) = add_areas (virt_areas space) (\<lambda>_. None) \<and>
     distinct (space_frames space) \<and> set (space_frames space) \<subseteq> kused s"

lemma guard_drop_owned:
  assumes "guard_ok g"
  shows "virt_frame_guard_drop g s = for_each (map guard_at (guard_owned g)) frame_guard_drop s"
  using assms by (cases g) (auto simp: and_then_def split: sum.split)

lemma for_each_concat:
  "for_each (concat xss) body s = for_each xss (\<lambda>xs. for_each xs body) s"
  by (induction xss arbitrary: s) (auto simp: for_each_append intro: and_then_cong)

lemma area_drop_owned:
  assumes "\<forall>g \<in> snd ` set (virt_frames area). guard_ok g"
  shows "virt_area_drop area s = for_each (map guard_at (area_owned area)) frame_guard_drop s"
  using assms
  by (auto simp: virt_area_drop_def area_owned_def map_concat for_each_concat for_each_map
      guard_drop_owned intro!: for_each_cong)

lemma space_drop_eq:
  assumes "pt_inv s1 (page_table space)"
    and "\<forall>area \<in> set (virt_areas space). \<forall>g \<in> snd ` set (virt_frames area). guard_ok g"
  shows "addr_space_drop space s = for_each (map guard_at (space_frames space)) frame_guard_drop s"
proof -
  have "for_each (virt_areas space) virt_area_drop s' =
      for_each (map guard_at (concat (map area_owned (virt_areas space)))) frame_guard_drop s'" for s'
    using assms(2)
    by (auto simp: map_concat for_each_concat for_each_map area_drop_owned intro!: for_each_cong)
  then have "for_each (virt_areas space) virt_area_drop =
      for_each (map guard_at (concat (map area_owned (virt_areas space)))) frame_guard_drop"
    by blast
  then show ?thesis
    by (simp add: addr_space_drop_def get_root_frame_def root_node_eq page_table_drop_def
        space_frames_def for_each_append pt_invD(2) [OF assms(1), symmetric])
qed

text \<open>Dropping a space that owns exactly the frames taken since \<open>s0\<close> restores its allocator.\<close>

lemma space_drop_restores:
  assumes "kstate_wf s0" and "space_inv s space" and "same_heap (FRAME_ALLOCATOR s0) (FRAME_ALLOCATOR s)"
    and "kused s = kused s0 \<union> set (space_frames space)" and "kused s0 \<inter> set (space_frames space) = {}"
  shows "addr_space_drop space s = Inr (s\<lparr>FRAME_ALLOCATOR := FRAME_ALLOCATOR s0\<rparr>)"
proof -
  have inv: "pt_inv s (page_table space)"
    and g: "\<forall>area \<in> set (virt_areas space). \<forall>g \<in> snd ` set (virt_frames area). guard_ok g"
    and d: "distinct (space_frames space)"
    using assms(2) by (simp_all add: space_inv_def)
  show ?thesis
    using guards_drop_restores [OF assms(1) pt_invD(1) [OF inv] assms(3-5) d]
    by (simp add: space_drop_eq [OF inv g])
qed

section \<open>The areas of a process\<close>

definition frame_area :: "string \<Rightarrow> u16 \<Rightarrow> usize \<Rightarrow> usize \<Rightarrow> usize \<Rightarrow> virt_area" where
  "frame_area name f b e a =
     \<lparr>virt_frame_range = simple_range_new (VirtFrame (drop_bit 12 b)) (VirtFrame (drop_bit 12 e)),
      virt_frames = [(VirtAddr b, ExclusivelyAllocated (guard_at a))], area_permissions = PageFlags f,
      is_identically_mapped = False, area_name = name\<rparr>"

lemma frame_area_facts:
  assumes "page_aligned b" and "page_aligned a"
  shows "area_ok (frame_area name f b e a)" and "area_flags (frame_area name f b e a) = f"
    and "area_pages (frame_area name f b e a) = [(b, a)]" and "area_owned (frame_area name f b e a) = [a]"
    and "\<forall>g \<in> snd ` set (virt_frames (frame_area name f b e a)). guard_ok g"
    and "print_info (frame_area name f b e a) = Inr ()"
  using assms
  by (auto simp: frame_area_def area_ok_def area_flags_def area_pages_def area_owned_def
      print_info_def simple_range_new_def)

lemma virt_area_new_aligned:
  assumes "page_aligned b" and "page_aligned e" and "unat e + 4095 < 2 ^ 64"
  shows "virt_area_new (VirtAddr b) (VirtAddr e) (PageFlags f) =
    Inr \<lparr>virt_frame_range = simple_range_new (VirtFrame (drop_bit 12 b)) (VirtFrame (drop_bit 12 e)),
         virt_frames = [], area_permissions = PageFlags f, is_identically_mapped = False, area_name = ''''\<rparr>"
  using assms by (simp add: virt_area_new_def va_align_up_def page_aligned_up page_aligned_page_of)

lemma track_first_frame:
  "track_frame (\<lparr>virt_frame_range = r, virt_frames = [], area_permissions = p,
      is_identically_mapped = False, area_name = n\<rparr>) va g s =
    Inr (\<lparr>virt_frame_range = r, virt_frames = [(va, g)], area_permissions = p,
      is_identically_mapped = False, area_name = n\<rparr>, s)"
  by (simp add: track_frame_def)

section \<open>The space of the first process\<close>

definition text_pages :: "nat \<Rightarrow> nat" where
  "text_pages len = (len + 4095) div 4096"

definition stack_va :: "nat \<Rightarrow> usize" where
  "stack_va len = page_at (17 + text_pages len)"

lemma text_pages_less: "len < 2 ^ 30 \<Longrightarrow> text_pages len \<le> 2 ^ 18"
  by (simp add: text_pages_def less_mult_imp_div_less)

lemma TEXT_BASE: "TEXT_BASE_USER_VA = page_at 16"
  by (simp add: TEXT_BASE_USER_VA_def page_at_def)

lemma page_at_add: "page_at m + page_at n = page_at (m + n)"
  by (simp add: page_at_def distrib_left)

lemma text_end:
  assumes "len < 2 ^ 30"
  shows "and_then (va_add (VirtAddr TEXT_BASE_USER_VA) (of_nat len)) va_align_up =
    Inr (VirtAddr (page_at (16 + text_pages len)))"
proof -
  let ?e = "TEXT_BASE_USER_VA + of_nat len"
  have l: "unat (of_nat len :: usize) = len"
    by (rule unat_of_nat_small) (use assms in simp)
  have e: "unat ?e = 65536 + len"
    using l assms by (simp add: unat_word_ariths TEXT_BASE_USER_VA_def)
  have "unat (?e + mask 12) = 65536 + len + 4095"
    using e assms by (simp add: unat_word_ariths unat_mask_word)
  then have "unat ((?e + mask 12) AND NOT (mask 12)) = (65536 + len + 4095) div 4096 * 4096"
    by (simp only: unat_and_not_mask) simp
  also have "(65536 + len + 4095) div 4096 = 16 + text_pages len"
    using div_mult_self1 [of 4096 "len + 4095" 16] by (simp add: text_pages_def add_ac)
  also have "(16 + text_pages len) * 4096 = 4096 * (16 + text_pages len)"
    by simp
  also have "\<dots> = unat (page_at (16 + text_pages len))"
    using text_pages_less [OF assms] by (simp add: page_at)
  finally have "(?e + mask 12) AND NOT (mask 12) = page_at (16 + text_pages len)"
    by (simp add: word_unat_eq_iff)
  then show ?thesis
    using l e assms
    by (simp add: va_add_def va_align_up_def checked_add_def TEXT_BASE_USER_VA_def)
qed

definition init_areas :: "linker_symbols \<Rightarrow> nat \<Rightarrow> usize \<Rightarrow> usize \<Rightarrow> virt_area list" where
  "init_areas L len st tx =
     [tramp_area L,
      frame_area ''user stack'' 22 (stack_va len) (page_at (18 + text_pages len)) st,
      frame_area ''.text'' 26 TEXT_BASE_USER_VA (page_at (16 + text_pages len)) tx]"

lemma stack_area_eq:
  assumes B: "bitflags_ok B" and len: "len < 2 ^ 30" and al: "allocate_zeroed s = Inr (guard_at a, s')"
    and a: "page_aligned a"
  shows "make_initial_user_stack B 0x1000 (VirtAddr (stack_va len)) s =
    Inr ((frame_area ''user stack'' 22 (stack_va len) (page_at (18 + text_pages len)) a, PhysAddr a), s')"
proof -
  note tp = text_pages_less [OF len]
  have "unat (stack_va len) + 4096 < 2 ^ 64"
    using tp by (simp add: stack_va_def page_at)
  then have "va_add (VirtAddr (stack_va len)) 0x1000 = Inr (VirtAddr (page_at (18 + text_pages len)))"
    using page_at_add [of "17 + text_pages len" 1]
    by (simp add: va_add_def checked_add_def stack_va_def) (simp add: page_at_def)
  moreover have "page_aligned (stack_va len)" "page_aligned (page_at (18 + text_pages len))"
    "unat (page_at (18 + text_pages len)) + 4095 < 2 ^ 64"
    using tp by (simp_all add: stack_va_def page_at)
  ultimately show ?thesis
    using al a
    by (simp add: make_initial_user_stack_def perm_values(1,3) [OF B] virt_area_new_aligned
        track_first_frame frame_area_def set_name_def get_frame_def page_aligned_page_of)
       (simp add: guard_at_def page_aligned_page_of)
qed

lemma make_init_eq:
  assumes B: "bitflags_ok B" and len: "length init_text < 2 ^ 30"
    and st: "allocate_zeroed s = Inr (guard_at st, s1)" "page_aligned st"
    and tx: "allocate_with_data init_text s1 = Inr (guard_at tx, s2)" "page_aligned tx"
  shows "make_init B L 0x1000 init_text s = build B (init_areas L (length init_text) st tx) s2"
proof -
  let ?n = "length init_text" and ?tp = "text_pages (length init_text)"
  note tp = text_pages_less [OF len]
  have "unat (page_at (16 + ?tp)) + 4096 < 2 ^ 64"
    using tp by (simp add: page_at)
  then have va: "va_add (VirtAddr (page_at (16 + ?tp))) 0x1000 = Inr (VirtAddr (stack_va ?n))"
    using page_at_add [of "16 + ?tp" 1]
    by (simp add: va_add_def checked_add_def stack_va_def) (simp add: page_at_def)
  have al: "page_aligned TEXT_BASE_USER_VA" "page_aligned (page_at (16 + ?tp))" "page_aligned (stack_va ?n)"
    "unat (page_at (16 + ?tp)) + 4095 < 2 ^ 64"
    using tp by (simp_all add: TEXT_BASE page_at stack_va_def)
  obtain e where e: "va_add (VirtAddr TEXT_BASE_USER_VA) (of_nat ?n) = Inr e"
    "va_align_up e = Inr (VirtAddr (page_at (16 + ?tp)))"
    using text_end [OF len] by (auto simp: and_then_eq_Ok)
  have tr: "print_info (tramp_area L) = Inr ()"
    by (simp add: print_info_def tramp_area_def simple_range_new_def)
  show ?thesis
    unfolding make_init_def build_def Let_def perm_values(2,4) [OF B] e(1) and_then_Ok e(2) va
      make_trampoline_eq [OF B] tr split stack_area_eq [OF B len st] frame_area_facts(6) [OF al(3) st(2)]
      virt_area_new_aligned [OF al(1,2,4)] tx(1) track_first_frame
    using frame_area_facts(6) [OF al(1) tx(2)]
    by (simp add: init_areas_def frame_area_def set_name_def del: for_each.simps)
qed

section \<open>Building a space\<close>

lemma card_area_paths:
  assumes "[] \<in> P" and "finite P"
  shows "card (P \<union> area_paths xs) \<le> card P + 2 * length xs"
proof (induction xs)
  case (Cons x xs)
  have "P \<union> area_paths (x # xs) = (P \<union> area_paths xs) \<union> {[vpn_index (fst x) 2], va_path (fst x)}"
    using assms(1) by (cases x) (auto simp: paths_of_def)
  then have "card (P \<union> area_paths (x # xs)) \<le>
      card (P \<union> area_paths xs) + card {[vpn_index (fst x) 2], va_path (fst x)}"
    by (metis card_Un_le)
  moreover have "card {[vpn_index (fst x) 2], va_path (fst x)} \<le> 2"
    by (simp add: card_insert_if)
  ultimately show ?case
    using Cons.IH by simp
qed simp

text \<open>A new table for areas whose frames are in use makes a space that owns its frames.\<close>

lemma build_space:
  assumes B: "bitflags_ok B" and wf: "kstate_wf s" and ok: "areas_ok areas"
    and g: "\<forall>area \<in> set areas. \<forall>g \<in> snd ` set (virt_frames area). guard_ok g"
    and own: "distinct (concat (map area_owned areas))" "set (concat (map area_owned areas)) \<subseteq> kused s"
    and free: "1 + 2 * length (all_pages areas) \<le> card (kfree s)"
  shows "\<exists>space s'. build B areas s = Inr (space, s') \<and>
     virt_areas space = areas \<and> space_inv s' space \<and> set (node_addrs (page_table space)) \<subseteq> kfree s \<and>
     kused s' = kused s \<union> set (node_addrs (page_table space)) \<and>
     kfree s' = kfree s - set (node_addrs (page_table space)) \<and>
     same_heap (FRAME_ALLOCATOR s) (FRAME_ALLOCATOR s') \<and>
     card (kfree s) \<le> card (kfree s') + (1 + 2 * length (all_pages areas)) \<and>
     (\<forall>x. page_of x \<notin> set (node_addrs (page_table space)) \<longrightarrow> phys_mem s' x = phys_mem s x)"
proof -
  have few: "card ({[]} \<union> area_paths (all_pages areas)) \<le> 1 + 2 * length (all_pages areas)"
    using card_area_paths [of "{[]}" "all_pages areas"] by simp
  with free have "card ({[]} \<union> area_paths (all_pages areas)) \<le> card (kfree s)" by linarith
  from build_spec [OF B wf ok this] obtain pt s' where
    b: "build B areas s = Inr (\<lparr>page_table = pt, virt_areas = areas\<rparr>, s')" "pt_inv s' pt"
    "kmap s' pt = add_areas areas (\<lambda>_. None)" "set (node_addrs pt) \<subseteq> kfree s"
    "length (node_addrs pt) = card ({[]} \<union> area_paths (all_pages areas))"
    "kused s' = kused s \<union> set (node_addrs pt)" "kfree s' = kfree s - set (node_addrs pt)"
    "same_heap (FRAME_ALLOCATOR s) (FRAME_ALLOCATOR s')"
    "\<forall>x. page_of x \<notin> set (node_addrs pt) \<longrightarrow> phys_mem s' x = phys_mem s x"
    by (elim exE conjE) (rule that; assumption)
  have "kused s \<inter> kfree s = {}"
    using free_used_disjoint wf by (auto simp: kstate_wf_def)
  then have "set (concat (map area_owned areas)) \<inter> set (node_addrs pt) = {}"
    using own(2) b(4) by blast
  then have "space_inv s' \<lparr>page_table = pt, virt_areas = areas\<rparr>"
    using b(2,3,6) ok g own pt_invD(3) [OF b(2)] by (auto simp: space_inv_def space_frames_def)
  moreover have "card (kfree s) \<le> card (kfree s') + (1 + 2 * length (all_pages areas))"
    using nodes_count [OF b(4) pt_invD(3) [OF b(2)] b(7)] few b(5) by linarith
  ultimately show ?thesis
    using b by (intro exI [of _ "\<lparr>page_table = pt, virt_areas = areas\<rparr>"] exI [of _ s']) simp
qed

text \<open>The space owns exactly the frames taken since \<open>s0\<close>, and only they were written.\<close>

definition space_since :: "kstate \<Rightarrow> kstate \<Rightarrow> addr_space \<Rightarrow> bool" where
  "space_since s0 s space \<longleftrightarrow> space_inv s space \<and>
     same_heap (FRAME_ALLOCATOR s0) (FRAME_ALLOCATOR s) \<and> set (space_frames space) \<subseteq> kfree s0 \<and>
     kused s = kused s0 \<union> set (space_frames space) \<and> kfree s = kfree s0 - set (space_frames space) \<and>
     (\<forall>x. page_of x \<notin> set (space_frames space) \<longrightarrow> phys_mem s x = phys_mem s0 x)"

lemma space_since_drop:
  assumes "kstate_wf s0" and "space_since s0 s space"
  shows "addr_space_drop space s = Inr (s\<lparr>FRAME_ALLOCATOR := FRAME_ALLOCATOR s0\<rparr>)"
  using assms free_used_disjoint [of "FRAME_ALLOCATOR s0"]
  by (intro space_drop_restores) (auto simp: space_since_def kstate_wf_def)

lemma init_areas_facts:
  assumes L: "linker_ok L" and len: "len < 2 ^ 30" and a: "page_aligned st" "page_aligned tx"
  shows "areas_ok (init_areas L len st tx)"
    and "all_pages (init_areas L len st tx) =
      [(page_at tramp_pno, ld_trampoline_start L), (page_at (17 + text_pages len), st), (page_at 16, tx)]"
    and "map area_owned (init_areas L len st tx) = [[], [st], [tx]]"
    and "\<forall>area \<in> set (init_areas L len st tx). \<forall>g \<in> snd ` set (virt_frames area). guard_ok g"
proof -
  have al: "page_aligned (stack_va len)" "page_aligned TEXT_BASE_USER_VA"
    using text_pages_less [OF len] by (simp_all add: stack_va_def TEXT_BASE page_at)
  note tr = linker_aligned(11) [OF L]
  show pg: "all_pages (init_areas L len st tx) =
      [(page_at tramp_pno, ld_trampoline_start L), (page_at (17 + text_pages len), st), (page_at 16, tx)]"
    by (simp add: init_areas_def area_pages_tramp [OF tr] frame_area_facts al a)
       (simp add: tramp_page stack_va_def TEXT_BASE)
  have "pages_apart (all_pages (init_areas L len st tx))"
    using text_pages_less [OF len]
    by (intro pages_apart_pnos [of _ "[tramp_pno, 17 + text_pages len, 16]"]) (auto simp: pg tramp_pno_def)
  then show "areas_ok (init_areas L len st tx)"
    by (auto simp: areas_ok_def init_areas_def area_ok_tramp [OF tr] frame_area_facts al a
        mask_eq_exp_minus_1)
  show "map area_owned (init_areas L len st tx) = [[], [st], [tx]]"
    by (simp add: init_areas_def frame_area_facts al a) (simp add: area_owned_def tramp_area_def)
  show "\<forall>area \<in> set (init_areas L len st tx). \<forall>g \<in> snd ` set (virt_frames area). guard_ok g"
    using tr frame_area_facts(5) [OF al(1) a(1)] frame_area_facts(5) [OF al(2) a(2)]
    by (auto simp: init_areas_def tramp_area_def)
qed

lemma make_init_spec:
  assumes B: "bitflags_ok B" and L: "linker_ok L" and wf: "kstate_wf s"
    and len: "length init_text < 2 ^ 30" and free: "9 \<le> card (kfree s)"
  shows "\<exists>space s' st tx. make_init B L 0x1000 init_text s = Inr (space, s') \<and> space_since s s' space \<and>
     virt_areas space = init_areas L (length init_text) st tx \<and> page_aligned st \<and> page_aligned tx \<and>
     (\<forall>k < 4096. phys_mem s' (st + of_nat k) = 0) \<and>
     (\<forall>k < 4096. phys_mem s' (tx + of_nat k) = (if k < length init_text then init_text ! k else 0)) \<and>
     card (kfree s) \<le> card (kfree s') + 9"
proof -
  let ?n = "length init_text"
  have "kfree s \<noteq> {}" using free by auto
  from allocate_zeroed_spec [OF wf this] obtain st s1 where st: "allocate_zeroed s = Inr (guard_at st, s1)"
    "st \<in> kfree s" "page_aligned st" "kfree s1 = kfree s - {st}" "kused s1 = insert st (kused s)"
    "kstate_wf s1" "same_heap (FRAME_ALLOCATOR s) (FRAME_ALLOCATOR s1)"
    "phys_mem s1 = store_bytes 4096 (\<lambda>_. 0) st (phys_mem s)"
    by (elim exE conjE) (rule that; assumption)
  have c1: "card (kfree s) = Suc (card (kfree s1))"
    using card_free_remove [OF st(2)] st(4) by simp
  then have "kfree s1 \<noteq> {}" using free by auto
  from allocate_with_data_frame [OF st(6) this, of init_text] obtain tx s2 where
    tx: "allocate_with_data init_text s1 = Inr (guard_at tx, s2)" "tx \<in> kfree s1" "page_aligned tx"
    "kfree s2 = kfree s1 - {tx}" "kused s2 = insert tx (kused s1)" "kstate_wf s2"
    "same_heap (FRAME_ALLOCATOR s1) (FRAME_ALLOCATOR s2)"
    "\<forall>k < 4096. phys_mem s2 (tx + of_nat k) = (if k < ?n then init_text ! k else 0)"
    "\<forall>x. page_of x \<noteq> tx \<longrightarrow> phys_mem s2 x = phys_mem s1 x"
    by (elim exE conjE) (rule that; assumption)
  have c2: "card (kfree s1) = Suc (card (kfree s2))"
    using card_free_remove [OF tx(2)] tx(4) by simp
  note ar = init_areas_facts [OF L len st(3) tx(3)]
  have ne: "st \<noteq> tx" "tx \<in> kfree s" using tx(2) st(4) by auto
  have "distinct (concat (map area_owned (init_areas L ?n st tx)))"
    "set (concat (map area_owned (init_areas L ?n st tx))) \<subseteq> kused s2"
    "1 + 2 * length (all_pages (init_areas L ?n st tx)) \<le> card (kfree s2)"
    using ne(1) st(5) tx(5) free c1 c2 by (simp_all add: ar(2,3))
  from build_space [OF B tx(6) ar(1,4) this] obtain space s' where
    b: "build B (init_areas L ?n st tx) s2 = Inr (space, s')" "virt_areas space = init_areas L ?n st tx"
    "space_inv s' space" "set (node_addrs (page_table space)) \<subseteq> kfree s2"
    "kused s' = kused s2 \<union> set (node_addrs (page_table space))"
    "kfree s' = kfree s2 - set (node_addrs (page_table space))"
    "same_heap (FRAME_ALLOCATOR s2) (FRAME_ALLOCATOR s')"
    "card (kfree s2) \<le> card (kfree s') + (1 + 2 * length (all_pages (init_areas L ?n st tx)))"
    "\<forall>x. page_of x \<notin> set (node_addrs (page_table space)) \<longrightarrow> phys_mem s' x = phys_mem s2 x"
    by (elim exE conjE) (rule that; assumption)
  have fr: "set (space_frames space) = set (node_addrs (page_table space)) \<union> {st, tx}"
    by (auto simp: space_frames_def b(2) ar(3))
  have out: "st \<notin> set (node_addrs (page_table space))" "tx \<notin> set (node_addrs (page_table space))"
    using b(4) tx(4) st(4) by auto
  have z: "phys_mem s' (st + of_nat k) = 0" if "k < 4096" for k
    using that b(9) tx(9) out ne(1) st(3,8) page_of_add [OF st(3) that]
    by (simp add: store_bytes_eq unat_of_nat_small)
  have t: "phys_mem s' (tx + of_nat k) = (if k < ?n then init_text ! k else 0)" if "k < 4096" for k
    using that b(9) tx(8) out page_of_add [OF tx(3) that] by simp
  have m: "phys_mem s' x = phys_mem s x" if "page_of x \<notin> set (space_frames space)" for x
    using that b(9) tx(9) st(3,8) by (simp add: fr store_bytes_page)
  have "space_since s s' space"
    using b(3-7) m st(2,4,5,7) tx(4,5,7) ne(2) fr by (auto simp: space_since_def same_heap_def)
  then show ?thesis
    using b(1,2,8) z t st(3) tx(3) c1 c2 ar(2)
    by (intro exI [of _ space] exI [of _ s'] exI [of _ st] exI [of _ tx])
       (simp add: make_init_eq [OF B len st(1,3) tx(1,3)])
qed

section \<open>The trap frame\<close>

definition trap_area :: "usize \<Rightarrow> virt_area" where
  "trap_area a = frame_area ''trapframe'' 6 TRAPFRAME_BASE_USER_VA (TRAPFRAME_BASE_USER_VA + 0x1000) a"

lemma trapframe_aligned: "page_aligned TRAPFRAME_BASE_USER_VA" "page_aligned (TRAPFRAME_BASE_USER_VA + 0x1000)"
  by (simp_all add: TRAPFRAME_BASE_USER_VA_value page_aligned_def)

lemmas trap_area_facts = frame_area_facts [OF trapframe_aligned(1), where name = "''trapframe''" and f = 6
  and e = "TRAPFRAME_BASE_USER_VA + 0x1000", folded trap_area_def]

lemma make_trapframe_eq:
  assumes B: "bitflags_ok B" and al: "allocate_zeroed s = Inr (guard_at a, s')" and a: "page_aligned a"
  shows "make_trapframe B s = Inr ((trap_area a, PhysAddr a), s')"
proof -
  have ck: "checked_add TRAPFRAME_BASE_USER_VA TRAPFRAME_SIZE = Inr (TRAPFRAME_BASE_USER_VA + 0x1000)"
    by (simp add: checked_add_def TRAPFRAME_BASE_USER_VA_value TRAPFRAME_SIZE_def PAGE_SIZE_def)
  have le: "unat (TRAPFRAME_BASE_USER_VA + 0x1000) + 4095 < 2 ^ 64"
    by (simp add: TRAPFRAME_BASE_USER_VA_value)
  have up: "va_align_up (VirtAddr (TRAPFRAME_BASE_USER_VA + 0x1000)) = Inr (VirtAddr (TRAPFRAME_BASE_USER_VA + 0x1000))"
    using le by (simp add: va_align_up_def page_aligned_up [OF trapframe_aligned(2)])
  show ?thesis
    unfolding make_trapframe_def Let_def perm_values(1) [OF B] ck and_then_Ok up
      virt_area_new_aligned [OF trapframe_aligned le] al split track_first_frame
    using a by (simp add: trap_area_def frame_area_def set_name_def get_frame_def guard_at_def
        page_aligned_page_of)
qed

lemma add_areas_append: "add_areas (xs @ ys) M = add_areas ys (add_areas xs M)"
  by (induction xs arbitrary: M) auto

lemma all_pages_append: "all_pages (xs @ ys) = all_pages xs @ all_pages ys"
  by (simp add: all_pages_def)

lemma areas_ok_snoc:
  assumes "areas_ok areas" and "areas_ok [a]"
    and "\<forall>x \<in> set (all_pages areas). \<forall>y \<in> set (area_pages a). \<not> same_page (fst x) (fst y)"
  shows "areas_ok (areas @ [a])"
  using assms by (auto simp: areas_ok_def all_pages_append pages_apart_def sorted_wrt_append)

lemma trap_areas_ok: "page_aligned a \<Longrightarrow> areas_ok [trap_area a]"
  by (simp add: areas_ok_def trap_area_facts mask_eq_exp_minus_1 pages_apart_def)

text \<open>Mapping one more area, whose only page is not mapped yet, extends a space.\<close>

lemma space_add_area:
  assumes B: "bitflags_ok B" and inv: "pt_inv s pt" and ok: "areas_ok [area]"
    and un: "\<forall>x \<in> set (area_pages area). kmap s pt (fst x) = None" and one: "length (area_pages area) = 1"
    and free: "2 \<le> card (kfree s)"
  shows "\<exists>pt' s'. map_virt_area_allocate B area (pt, s) = Inr (pt', s') \<and> pt_inv s' pt' \<and>
     pt_grows s pt s' pt' \<and> kmap s' pt' = add_areas [area] (kmap s pt) \<and>
     card (kfree s) \<le> card (kfree s') + 2"
proof -
  have root: "[] \<in> kpaths s pt" and fin: "finite (kpaths s pt)"
    by simp_all
  have bud: "card (kpaths s pt \<union> area_paths (all_pages [area])) \<le> pt_budget s pt"
    using card_area_paths [OF root fin, of "all_pages [area]"] one free by (simp add: pt_budget_def)
  have "\<forall>x \<in> set (all_pages [area]). kmap s pt (fst x) = None"
    using un by simp
  from map_areas_spec [OF B inv ok this bud] obtain pt' s' where
    m: "for_each [area] (map_virt_area_allocate B) (pt, s) = Inr (pt', s')" "pt_inv s' pt'"
      "pt_grows s pt s' pt'" "kmap s' pt' = add_areas [area] (kmap s pt)"
      "kpaths s' pt' = kpaths s pt \<union> area_paths (all_pages [area])" "pt_budget s' pt' = pt_budget s pt"
    by (elim exE conjE) (rule that; assumption)
  have "card (kfree s) \<le> card (kfree s') + 2"
    using m(5,6) card_area_paths [OF root fin, of "all_pages [area]"] one by (simp add: pt_budget_def)
  then show ?thesis
    using m(1-4) by (intro exI [of _ pt'] exI [of _ s']) (simp add: and_then_def split: sum.splits)
qed

lemma space_inv_unmapped:
  assumes "space_inv s space" and "\<forall>x \<in> set (all_pages (virt_areas space)). \<not> same_page (fst x) b"
  shows "kmap s (page_table space) b = None"
  using assms by (simp add: space_inv_def add_areas_other)

lemma owned_used:
  assumes "space_inv s space"
  shows "set (node_addrs (page_table space)) \<subseteq> kused s"
    and "set (concat (map area_owned (virt_areas space))) \<subseteq> kused s"
    and "set (concat (map area_owned (virt_areas space))) \<inter> set (node_addrs (page_table space)) = {}"
  using assms by (auto simp: space_inv_def space_frames_def)

text \<open>
  One more page: the frame is taken from the allocator, and the nodes that the table needs
  for it are too.
\<close>

lemma space_grow:
  assumes inv: "space_inv s space" and a: "a \<in> kfree s" "page_aligned a" "kfree s1 = kfree s - {a}"
    "kused s1 = insert a (kused s)"
    and ok: "areas_ok [area]" "area_owned area = [a]" "\<forall>g \<in> snd ` set (virt_frames area). guard_ok g"
    "\<forall>x \<in> set (all_pages (virt_areas space)). \<forall>y \<in> set (area_pages area). \<not> same_page (fst x) (fst y)"
    and m: "pt_inv s2 pt'" "pt_grows s1 (page_table space) s2 pt'"
    "kmap s2 pt' = add_areas [area] (kmap s (page_table space))"
  shows "space_inv s2 \<lparr>page_table = pt', virt_areas = virt_areas space @ [area]\<rparr>"
proof -
  from m(2) obtain new where new: "node_addrs pt' = node_addrs (page_table space) @ new" "distinct new"
    "set new \<subseteq> kfree s1" "kused s2 = kused s1 \<union> set new"
    unfolding pt_grows_def by (elim conjE exE) (rule that; assumption)
  have "kused s \<inter> kfree s = {}"
    using free_used_disjoint inv by (auto simp: space_inv_def pt_inv_def kstate_wf_def)
  then have "set (node_addrs pt') \<inter> set (concat (map area_owned (virt_areas space))) = {}"
    "a \<notin> set (node_addrs pt')" "a \<notin> set (concat (map area_owned (virt_areas space)))"
    using owned_used [OF inv] new(1,3) a(1,3) unfolding new(1) set_append by blast+
  then have "distinct (node_addrs pt' @ concat (map area_owned (virt_areas space)) @ [a])"
    using inv pt_invD(3) [OF m(1)] by (simp add: space_inv_def space_frames_def del: set_concat)
  moreover have "areas_ok (virt_areas space @ [area])"
    using inv ok(1,4) by (intro areas_ok_snoc) (auto simp: space_inv_def)
  moreover have "kmap s2 pt' = add_areas (virt_areas space @ [area]) (\<lambda>_. None)"
    using inv m(3) by (simp add: space_inv_def add_areas_append)
  moreover have "set (node_addrs pt' @ concat (map area_owned (virt_areas space)) @ [a]) \<subseteq> kused s2"
    using owned_used [OF inv] new(1,4) a(4) by auto
  ultimately show ?thesis
    using inv ok(2,3) m(1) by (auto simp: space_inv_def space_frames_def)
qed

lemma init_trapframe_spec:
  assumes B: "bitflags_ok B" and since: "space_since s0 s space"
    and ap: "\<forall>x \<in> set (all_pages (virt_areas space)). \<not> same_page (fst x) TRAPFRAME_BASE_USER_VA"
    and free: "3 \<le> card (kfree s)"
  shows "\<exists>a space' s'. init_trapframe B space s = Inr ((PhysAddr a, space'), s') \<and>
     space_since s0 s' space' \<and> virt_areas space' = virt_areas space @ [trap_area a] \<and> page_aligned a \<and>
     (\<forall>k < 4096. phys_mem s' (a + of_nat k) = 0) \<and>
     pt_root (page_table space') = pt_root (page_table space) \<and> card (kfree s) \<le> card (kfree s') + 3 \<and>
     (\<forall>x. page_of x \<in> set (concat (map area_owned (virt_areas space))) \<longrightarrow> phys_mem s' x = phys_mem s x)"
proof -
  let ?pt = "page_table space"
  have inv: "space_inv s space" and pinv: "pt_inv s ?pt"
    using since by (simp_all add: space_since_def space_inv_def)
  have ne: "kfree s \<noteq> {}" using free by auto
  from allocate_zeroed_spec [OF pt_invD(1) [OF pinv] ne] obtain a s1 where
    a: "allocate_zeroed s = Inr (guard_at a, s1)" "a \<in> kfree s" "page_aligned a"
    "kfree s1 = kfree s - {a}" "kused s1 = insert a (kused s)"
    "kstate_wf s1" "same_heap (FRAME_ALLOCATOR s) (FRAME_ALLOCATOR s1)"
    "phys_mem s1 = store_bytes 4096 (\<lambda>_. 0) a (phys_mem s)"
    by (elim exE conjE) (rule that; assumption)
  have c: "card (kfree s) = Suc (card (kfree s1))"
    using card_free_remove [OF a(2)] a(4) by simp
  have new: "a \<notin> kused s"
    using free_used_disjoint [of "FRAME_ALLOCATOR s"] pt_invD(1) [OF pinv] a(2) by (auto simp: kstate_wf_def)
  have mem: "phys_mem s1 x = phys_mem s x" if "page_of x \<noteq> a" for x
    using that a(3,8) by (simp add: store_bytes_page)
  have fr: "phys_mem s1 x = phys_mem s x" if "page_of x \<in> kused s" for x
    using that new by (intro mem) auto
  have pinv1: "pt_inv s1 ?pt" and km: "kmap s1 ?pt = kmap s ?pt"
    using owned_used(1) [OF inv] a(5)
    by (auto intro!: pt_frame [OF pinv _ a(6)] fr)
  note ar = trap_area_facts [OF a(3)] trap_areas_ok [OF a(3)]
  have un: "\<forall>x \<in> set (area_pages (trap_area a)). kmap s1 ?pt (fst x) = None"
    using space_inv_unmapped [OF inv ap] km ar(3) by simp
  from space_add_area [OF B pinv1 ar(7) un] obtain pt' s2 where
    m: "map_virt_area_allocate B (trap_area a) (?pt, s1) = Inr (pt', s2)" "pt_inv s2 pt'"
      "pt_grows s1 ?pt s2 pt'" "kmap s2 pt' = add_areas [trap_area a] (kmap s1 ?pt)"
      "card (kfree s1) \<le> card (kfree s2) + 2"
    using free c ar(3) by auto
  let ?space = "\<lparr>page_table = pt', virt_areas = virt_areas space @ [trap_area a]\<rparr>"
  have inv2: "space_inv s2 ?space"
    by (rule space_grow [OF inv a(2-5) ar(7,4,5) _ m(2,3)]) (use m(4) km ap ar(3) in simp_all)
  from m(3) obtain nw where nw: "node_addrs pt' = node_addrs ?pt @ nw"
    "set nw \<subseteq> kfree s1" "kfree s2 = kfree s1 - set nw" "kused s2 = kused s1 \<union> set nw"
    "\<forall>x. page_of x \<notin> set (node_addrs pt') \<longrightarrow> phys_mem s2 x = phys_mem s1 x"
    "same_heap (FRAME_ALLOCATOR s1) (FRAME_ALLOCATOR s2)" "pt_root pt' = pt_root ?pt"
    unfolding pt_grows_def by (elim conjE exE) (rule that; assumption)
  have frs: "set (space_frames ?space) = set (space_frames space) \<union> set nw \<union> {a}"
    by (auto simp: space_frames_def nw(1) ar(4))
  have an: "a \<notin> set (node_addrs pt')"
    using nw(1,2) a(4) new owned_used(1) [OF inv] by auto
  have z: "phys_mem s2 (a + of_nat k) = 0" if "k < 4096" for k
    using that nw(5) an a(3,8) page_of_add [OF a(3) that] by (simp add: store_bytes_eq unat_of_nat_small)
  have old: "phys_mem s2 x = phys_mem s x"
    if "page_of x \<in> set (concat (map area_owned (virt_areas space)))" for x
  proof -
    have "page_of x \<in> kused s" "page_of x \<notin> set (node_addrs pt')"
      using that owned_used [OF inv] nw(2) a(4) free_used_disjoint [of "FRAME_ALLOCATOR s"]
        pt_invD(1) [OF pinv] unfolding nw(1) set_append kstate_wf_def by blast+
    then show ?thesis using nw(5) fr by simp
  qed
  have "phys_mem s2 x = phys_mem s0 x" if "page_of x \<notin> set (space_frames ?space)" for x
    using that nw(1,5) mem since unfolding frs by (auto simp: space_since_def space_frames_def)
  then have "space_since s0 s2 ?space"
    using inv2 since a(2,4,5,7) nw(2-4,6) frs by (auto simp: space_since_def same_heap_def)
  then show ?thesis
    using m(1,5) c z old nw(7) a(3) ar(6)
    by (intro exI [of _ a] exI [of _ ?space] exI [of _ s2])
       (simp add: init_trapframe_def make_trapframe_eq [OF B a(1,3)])
qed

end
