(* ===== verification/Page_Theorems.thy ===== *)
theory Page_Theorems
  imports Page_Life
begin

text \<open>
  The properties of the page tables of \<^verbatim>\<open>kernel/src/mm/page_table.rs\<close>, stated over the operations
  of the source and the map that a table implements.
\<close>

section \<open>An example table\<close>

text \<open>A new table in the sample state, with fifteen frames left.\<close>

lemma sample_table:
  "\<exists>pt s. page_table_allocate sample_state = Inr (pt, s) \<and> pt_inv s pt \<and> card (kfree s) = 15 \<and>
     (\<forall>b. kmap s pt b = None) \<and> kpaths s pt = {[]} \<and>
     kused s = set (node_addrs pt) \<and> same_heap (FRAME_ALLOCATOR sample_state) (FRAME_ALLOCATOR s)"
proof -
  have "kfree sample_state \<noteq> {}" using sample_state_free by auto
  from page_table_allocate_spec [OF sample_state_wf this] obtain pt s a where
    t: "page_table_allocate sample_state = Inr (pt, s)" "pt_inv s pt"
    "a \<in> kfree sample_state" "node_addrs pt = [a]" "kfree s = kfree sample_state - {a}"
    "kused s = insert a (kused sample_state)" "same_heap (FRAME_ALLOCATOR sample_state) (FRAME_ALLOCATOR s)"
    "\<forall>b. kmap s pt b = None" "kpaths s pt = {[]}"
    by (elim exE conjE) (rule that; assumption)
  have "kused sample_state = {}"
    by (auto simp: used_pages_def sample_state_def)
  then have "kused s = set (node_addrs pt)"
    using t(4,6) by simp
  moreover have "card (kfree s) = 15"
    using t(5) sample_state_free card_free_remove [OF t(3)] by simp
  ultimately show ?thesis
    using t(1,2,7-9) by (intro exI [of _ pt] exI [of _ s] conjI)
qed

lemma budget_two_free: "2 \<le> card (kfree s) \<Longrightarrow> card (kpaths s pt \<union> paths_of a) \<le> pt_budget s pt"
proof -
  assume f: "2 \<le> card (kfree s)"
  have "kpaths s pt \<union> paths_of a = kpaths s pt \<union> {[vpn_index a 2], va_path a}"
    by (auto simp: paths_of_def)
  then have "card (kpaths s pt \<union> paths_of a) \<le> card (kpaths s pt) + card {[vpn_index a 2], va_path a}"
    by (metis card_Un_le)
  moreover have "card {[vpn_index a 2], va_path a} \<le> 2"
    by (simp add: card_insert_if)
  ultimately show ?thesis
    using f by (simp add: pt_budget_def)
qed

section \<open>Entries\<close>

text \<open>
  A page table entry keeps what it is made from: for an address and flags that the kernel declares,
  the entry that \<open>PageTableEntry::new\<close> makes refers to the page of the address and has exactly
  these flags; it is valid exactly when the flag \<open>VALID\<close> is among them.
\<close>

lemma pte_roundtrip:
  assumes "bitflags_ok B" and "f AND NOT (mask 9) = 0"
  shows "\<exists>e. pte_new (PhysAddr pa) (PTEFlags f) = Inr e \<and> referencing_address e = PhysAddr (page_of pa) \<and>
     pte_get_flags B e = Inr (PTEFlags f) \<and> is_valid B e = Inr (bit f 0)"
proof -
  have "\<not> bit (entry_for pa f) 9" by (rule entry_for_bit9 [OF assms(2)])
  then show ?thesis
    using assms entry_for_flags [OF assms(2)] PTE2PA_entry_for [OF assms(2)]
    by (simp add: referencing_address_def pte_flags_Ok is_valid_Ok bit_entry_for)
qed

section \<open>Mapping\<close>

text \<open>
  C3. \<open>map_one_allocate\<close> refines the update of a map: in a well-formed table, for a page that is not
  mapped, an aligned frame, declared flags and two free frames, it returns; the table stays
  well-formed; its map gains exactly that page; \<open>translate\<close> then finds the frame with the flags
  and \<open>VALID\<close>; and no byte outside the nodes of the table is written.
\<close>

theorem map_one_allocate_refines:
  assumes "bitflags_ok B" and "pt_inv s pt" and "2 \<le> card (kfree s)"
    and "f AND NOT (mask 9) = 0" and "page_aligned pa" and "kmap s pt a = None"
  shows "\<exists>pt' s'. map_one_allocate B pt (VirtAddr a) (PhysAddr pa) (PTEFlags f) s = Inr (pt', s') \<and>
     pt_inv s' pt' \<and> kmap s' pt' = add_pages f [(a, pa)] (kmap s pt) \<and>
     pt_translate B pt' (VirtAddr a) (phys_mem s') =
       Inr (Some (PhysAddr (pa OR (a AND 12)), PTEFlags (f OR 1))) \<and>
     (\<forall>x. page_of x \<notin> set (node_addrs pt') \<longrightarrow> phys_mem s' x = phys_mem s x)"
proof -
  obtain pt' s' where m: "map_one_allocate B pt (VirtAddr a) (PhysAddr pa) (PTEFlags f) s = Inr (pt', s')"
    "pt_inv s' pt'" "pt_grows s pt s' pt'"
    "\<And>b. kmap s' pt' b = (if same_page a b then Some (entry_for pa (f OR 1)) else kmap s pt b)"
    using map_one_allocate_spec [OF assms(1,2) budget_two_free [OF assms(3)] assms(4-6)] by blast
  have "kmap s' pt' a = Some (entry_for pa (f OR 1))" by (simp add: m(4))
  then obtain c where "leaf_addr (phys_mem s') (pt_root pt') a = Some c"
    "load_usize (phys_mem s') c = entry_for pa (f OR 1)"
    by (auto simp: pt_map_def split: option.splits if_splits)
  then have "pt_translate B pt' (VirtAddr a) (phys_mem s') =
      Inr (Some (PhysAddr (pa OR (a AND 12)), PTEFlags (f OR 1)))"
    using entry_for_flags PTE2PA_entry_for flags_or_valid_known [OF assms(4)] assms(5)
    by (simp add: translate_char [OF assms(1) m(2)] entry_flags_def page_aligned_page_of)
  then show ?thesis
    using m by (auto simp: pt_grows_def fun_eq_iff)
qed

theorem map_one_allocate_refines_witness:
  "\<exists>pt s pt' s'. pt_inv s pt \<and>
     map_one_allocate plain_bitflags pt (VirtAddr 0x10000) (PhysAddr 0x80000000) (PTEFlags 6) s = Inr (pt', s') \<and>
     pt_translate plain_bitflags pt' (VirtAddr 0x10000) (phys_mem s') =
       Inr (Some (PhysAddr (0x80000000 OR (0x10000 AND 12)), PTEFlags (6 OR 1)))"
proof -
  obtain pt s where t: "pt_inv s pt" "card (kfree s) = 15" "\<forall>b. kmap s pt b = None"
    using sample_table by blast
  have f: "(6 :: u16) AND NOT (mask 9) = 0" by (simp add: mask_eq_exp_minus_1)
  have al: "page_aligned 0x80000000" by (simp add: page_aligned_def)
  have "2 \<le> card (kfree s)" using t(2) by simp
  moreover have "kmap s pt 0x10000 = None" using t(3) by blast
  ultimately obtain pt' s' where
    "map_one_allocate plain_bitflags pt (VirtAddr 0x10000) (PhysAddr 0x80000000) (PTEFlags 6) s = Inr (pt', s')"
    "pt_translate plain_bitflags pt' (VirtAddr 0x10000) (phys_mem s') =
       Inr (Some (PhysAddr (0x80000000 OR (0x10000 AND 12)), PTEFlags (6 OR 1)))"
    using map_one_allocate_refines [OF plain_bitflags_ok t(1) _ f al] by blast
  with t(1) show ?thesis by blast
qed

text \<open>
  C27. A page that is mapped already is never overwritten: \<open>map_one_allocate\<close> panics with the message of
  the source, for every frame and all flags, also when no frame is free.
\<close>

theorem map_one_allocate_refuses:
  assumes "bitflags_ok B" and "pt_inv s pt" and "kmap s pt a = Some e"
  shows "map_one_allocate B pt (VirtAddr a) pa flags s =
     Inl (AssertFailed ''PageTable::map: overwritting original mapping!'')"
  by (rule map_one_allocate_mapped [OF assms])

text \<open>The example table with the page at \<open>0x10000\<close> mapped.\<close>

lemma sample_mapped:
  "\<exists>pt s. pt_inv s pt \<and> 13 \<le> card (kfree s) \<and> kmap s pt 0x10000 = Some (entry_for 0x80000000 7) \<and>
     (\<forall>b. \<not> same_page 0x10000 b \<longrightarrow> kmap s pt b = None) \<and>
     leaf_addr (phys_mem s) (pt_root pt) 0x11000 \<noteq> None"
proof -
  obtain pt s where t: "pt_inv s pt" "card (kfree s) = 15" "\<forall>b. kmap s pt b = None" "kpaths s pt = {[]}"
    using sample_table by blast
  have f: "(6 :: u16) AND NOT (mask 9) = 0" by (simp add: mask_eq_exp_minus_1)
  have al: "page_aligned 0x80000000" by (simp add: page_aligned_def)
  have two: "2 \<le> card (kfree s)" using t(2) by simp
  have un: "kmap s pt 0x10000 = None" using t(3) by blast
  obtain pt' s' where m: "pt_inv s' pt'"
    "\<And>b. kmap s' pt' b = (if same_page 0x10000 b then Some (entry_for 0x80000000 (6 OR 1)) else kmap s pt b)"
    "kpaths s' pt' = kpaths s pt \<union> paths_of 0x10000" "pt_budget s' pt' = pt_budget s pt"
    using map_one_allocate_spec [OF plain_bitflags_ok t(1) budget_two_free [OF two] f al un] by blast
  have "card (kpaths s' pt') \<le> 3"
    unfolding m(3) t(4) by (simp add: paths_of_def card_insert_if)
  then have "13 \<le> card (kfree s')"
    using m(4) t(2,4) by (simp add: pt_budget_def)
  moreover have "va_path 0x11000 = va_path 0x10000"
    by (simp add: va_path_def vpn_index_def drop_bit_eq_div)
  then have "va_path 0x11000 \<in> kpaths s' pt'"
    unfolding m(3) by (simp add: paths_of_def)
  then have "leaf_addr (phys_mem s') (pt_root pt') 0x11000 \<noteq> None"
    by (simp add: leaf_addr_def node_paths_def)
  ultimately show ?thesis
    using m t(3) by (intro exI [of _ pt'] exI [of _ s']) simp
qed

theorem map_one_allocate_refuses_witness:
  "\<exists>pt s. pt_inv s pt \<and> map_one_allocate plain_bitflags pt (VirtAddr 0x10000) (PhysAddr 0) (PTEFlags 2) s =
     Inl (AssertFailed ''PageTable::map: overwritting original mapping!'')"
proof -
  obtain pt s where "pt_inv s pt" "13 \<le> card (kfree s)" "kmap s pt 0x10000 = Some (entry_for 0x80000000 7)"
    using sample_mapped by blast
  then show ?thesis
    using map_one_allocate_refuses [OF plain_bitflags_ok, of s pt "0x10000" "entry_for 0x80000000 7"]
    by (intro exI [of _ pt] exI [of _ s]) simp
qed

text \<open>
  \<open>map_one\<close>, which never allocates, has three outcomes: it returns \<open>None\<close> and changes nothing when
  the table has no leaf node for the address, it panics when the page is mapped, and otherwise it
  adds the page to the map without touching the allocator.
\<close>

lemma map_one_outcomes:
  assumes "bitflags_ok B" and "pt_inv s pt" and "f AND NOT (mask 9) = 0"
  shows "case find B pt (VirtAddr a) (phys_mem s) of
      Inr None \<Rightarrow> map_one B pt (VirtAddr a) (PhysAddr pa) (PTEFlags f) s = Inr (None, s)
    | Inr (Some c) \<Rightarrow>
        if kmap s pt a \<noteq> None
        then map_one B pt (VirtAddr a) (PhysAddr pa) (PTEFlags f) s =
               Inl (AssertFailed ''PageTable::map: overwritting original mapping!'')
        else \<exists>s'. map_one B pt (VirtAddr a) (PhysAddr pa) (PTEFlags f) s = Inr (Some (), s') \<and>
               pt_inv s' pt \<and> FRAME_ALLOCATOR s' = FRAME_ALLOCATOR s \<and>
               kmap s' pt = add_pages f [(a, pa)] (kmap s pt)
    | Inl p \<Rightarrow> False"
  using map_one_spec [OF assms, of a pa]
  by (auto simp: find_char [OF assms(1,2)] leaf_addr_def fun_eq_iff split: option.splits)

section \<open>Translation\<close>

text \<open>
  \<open>translate\<close> never checks whether the leaf entry is valid: it returns the contents of the leaf
  entry, decoded, whenever the table has a leaf node for the address, mapped or not, and \<open>None\<close>
  otherwise.  For a page that was never mapped but shares its leaf node with a mapped one it
  answers with an address and empty flags.
\<close>

lemma translate_ignores_valid:
  assumes "bitflags_ok B" and "pt_inv s pt"
  shows "pt_translate B pt (VirtAddr a) (phys_mem s) = Inr (case leaf_addr (phys_mem s) (pt_root pt) a of
       None \<Rightarrow> None
     | Some c \<Rightarrow> Some (PhysAddr (PTE2PA (load_usize (phys_mem s) c) OR (a AND 12)),
                         PTEFlags (entry_flags (load_usize (phys_mem s) c))))"
  by (simp add: translate_char [OF assms] Let_def split: option.split)

section \<open>Areas\<close>

text \<open>
  C17. \<open>map_virt_area_allocate\<close> adds the pages of an area, and nothing else, to the map of the table,
  provided none of them is mapped yet, no two fall on the same page, and the nodes they need fit
  into the free frames; the verification of the area then succeeds.
\<close>

theorem map_virt_area_refines:
  assumes "bitflags_ok B" and "pt_inv s pt" and "area_ok area" and "area_flags area AND NOT (mask 9) = 0"
    and "pages_apart (area_pages area)" and "\<forall>(va, pa) \<in> set (area_pages area). kmap s pt va = None"
    and "card (kpaths s pt \<union> area_paths (area_pages area)) \<le> card (kpaths s pt) + card (kfree s)"
  shows "\<exists>pt' s'. map_virt_area_allocate B area (pt, s) = Inr (pt', s') \<and> pt_inv s' pt' \<and>
     kmap s' pt' = add_pages (area_flags area) (area_pages area) (kmap s pt) \<and>
     verify_virt_area_mapping B pt' area (phys_mem s') = Inr () \<and>
     (\<forall>x. page_of x \<notin> set (node_addrs pt') \<longrightarrow> phys_mem s' x = phys_mem s x)"
proof -
  have un: "\<forall>(va, pa) \<in> set (area_pages area). page_aligned pa \<and> kmap s pt va = None"
    using assms(6) by (auto dest: area_pages_aligned(2) [OF assms(3)])
  have bud: "card (kpaths s pt \<union> area_paths (area_pages area)) \<le> pt_budget s pt"
    using assms(7) by (simp add: pt_budget_def)
  obtain pt' s' where m: "map_pages B (area_flags area) (area_pages area) (pt, s) = Inr (pt', s')"
    "pt_inv s' pt'" "pt_grows s pt s' pt'"
    "kmap s' pt' = add_pages (area_flags area) (area_pages area) (kmap s pt)"
    using map_pages_spec [OF assms(1,4,2,5) un bud] by blast
  have "verify_virt_area_mapping B pt' area (phys_mem s') = Inr ()"
    using add_pages_in [OF assms(5)]
    by (intro verify_mapped [OF assms(1) m(2) assms(3,4)]) (auto simp: m(4))
  then show ?thesis
    using m map_virt_area_char [OF assms(3), of B "(pt, s)"] by (auto simp: pt_grows_def)
qed

text \<open>An area of two identically mapped pages.\<close>

definition sample_area :: virt_area where
  "sample_area = \<lparr>virt_frame_range = simple_range_new (VirtFrame 0x10) (VirtFrame 0x12), virt_frames = [],
     area_permissions = PageFlags 6, is_identically_mapped = True, area_name = ''sample''\<rparr>"

lemma sample_area_facts:
  "area_ok sample_area" "area_flags sample_area = 6"
  "area_pages sample_area = [(0x10000, 0x10000), (0x11000, 0x11000)]"
  "pages_apart (area_pages sample_area)" "(6 :: u16) AND NOT (mask 9) = 0"
proof -
  show p: "area_pages sample_area = [(0x10000, 0x10000), (0x11000, 0x11000)]"
    by (simp add: area_pages_def sample_area_def simple_range_new_def identical_pages_def page_at_def)
  show "pages_apart (area_pages sample_area)"
    unfolding p by (simp add: pages_apart_def same_page_iff)
  show "(6 :: u16) AND NOT (mask 9) = 0" by (simp add: mask_eq_exp_minus_1)
  show "area_flags sample_area = 6" by (simp add: area_flags_def sample_area_def)
  show "area_ok sample_area"
    by (simp add: area_ok_def sample_area_def simple_range_new_def less_eq_virt_frame_def)
qed

theorem map_virt_area_refines_witness:
  "\<exists>pt s pt' s'. pt_inv s pt \<and> map_virt_area_allocate plain_bitflags sample_area (pt, s) = Inr (pt', s') \<and>
     verify_virt_area_mapping plain_bitflags pt' sample_area (phys_mem s') = Inr ()"
proof -
  obtain pt s where t: "pt_inv s pt" "card (kfree s) = 15" "\<forall>b. kmap s pt b = None" "kpaths s pt = {[]}"
    using sample_table by blast
  have fl: "area_flags sample_area AND NOT (mask 9) = 0"
    using sample_area_facts(2,5) by simp
  have un: "\<forall>(va, pa) \<in> set (area_pages sample_area). kmap s pt va = None"
    using t(3) by auto
  have "card (kpaths s pt \<union> area_paths (area_pages sample_area)) \<le> 1 + 6"
    unfolding t(4) sample_area_facts(3) area_paths_Cons area_paths_Nil paths_of_def
    by (simp add: card_insert_if)
  then have "card (kpaths s pt \<union> area_paths (area_pages sample_area)) \<le> card (kpaths s pt) + card (kfree s)"
    using t(2,4) by simp
  from map_virt_area_refines [OF plain_bitflags_ok t(1) sample_area_facts(1) fl sample_area_facts(4) un this] t(1)
  show ?thesis by blast
qed

text \<open>
  The verification of an area checks only the pages whose leaf node exists: it succeeds exactly when
  each of these has the expected frame and flags, so an area none of whose pages was ever mapped
  passes in a new table.
\<close>

lemma verify_checks_existing_leaves:
  assumes "bitflags_ok B" and "pt_inv s pt" and "area_ok area"
  shows "verify_virt_area_mapping B pt area (phys_mem s) = Inr () \<longleftrightarrow>
     (\<forall>(va, pa) \<in> set (area_pages area). case leaf_addr (phys_mem s) (pt_root pt) va of
        None \<Rightarrow> True
      | Some c \<Rightarrow> PTE2PA (load_usize (phys_mem s) c) = pa \<and>
          entry_flags (load_usize (phys_mem s) c) = area_flags area OR 1)"
  by (simp add: verify_char [OF assms] page_matches_def)

section \<open>The life of a table\<close>

text \<open>
  C12. A page table leaks no frame: allocating a table, mapping pages with it and dropping it leaves the
  frame allocator exactly as it was, whatever nodes the mappings needed.
\<close>

theorem page_table_no_leak:
  assumes "bitflags_ok B" and "kstate_wf s" and "kfree s \<noteq> {}" and "f AND NOT (mask 9) = 0"
    and "pages_apart xs" and "\<forall>(va, pa) \<in> set xs. page_aligned pa"
    and "card ({[]} \<union> area_paths xs) \<le> card (kfree s)"
  shows "\<exists>pt s1 pt' s2. page_table_allocate s = Inr (pt, s1) \<and> map_pages B f xs (pt, s1) = Inr (pt', s2) \<and>
     page_table_drop pt' s2 = Inr (s2\<lparr>FRAME_ALLOCATOR := FRAME_ALLOCATOR s\<rparr>)"
proof -
  from page_table_allocate_spec [OF assms(2,3)] obtain pt s1 a where
    t: "page_table_allocate s = Inr (pt, s1)" "pt_inv s1 pt" "a \<in> kfree s" "node_addrs pt = [a]"
    "kfree s1 = kfree s - {a}" "kused s1 = insert a (kused s)"
    "same_heap (FRAME_ALLOCATOR s) (FRAME_ALLOCATOR s1)" "\<forall>b. kmap s1 pt b = None" "kpaths s1 pt = {[]}"
    by (elim exE conjE) (rule that; assumption)
  have "card (kpaths s1 pt \<union> area_paths xs) \<le> pt_budget s1 pt"
    using assms(7) t(5,9) card_free_remove [OF t(3)] by (simp add: pt_budget_def)
  moreover have "\<forall>(va, pa) \<in> set xs. page_aligned pa \<and> kmap s1 pt va = None"
    using assms(6) t(8) by blast
  ultimately obtain pt' s2 where m: "map_pages B f xs (pt, s1) = Inr (pt', s2)" "pt_inv s2 pt'"
    "pt_grows s1 pt s2 pt'"
    using map_pages_spec [OF assms(1,4) t(2) assms(5)] by blast
  obtain new where new: "node_addrs pt' = node_addrs pt @ new" "set new \<subseteq> kfree s1"
    "kused s2 = kused s1 \<union> set new" "same_heap (FRAME_ALLOCATOR s1) (FRAME_ALLOCATOR s2)"
    using m(3) unfolding pt_grows_def by blast
  have "kused s \<inter> kfree s = {}"
    using free_used_disjoint assms(2) by (auto simp: kstate_wf_def)
  then have "page_table_drop pt' s2 = Inr (s2\<lparr>FRAME_ALLOCATOR := FRAME_ALLOCATOR s\<rparr>)"
    using new t(3-7) by (intro page_table_drop_restores [OF assms(2) m(2)]) (auto simp: same_heap_def)
  then show ?thesis
    using t(1) m(1) by blast
qed

theorem page_table_no_leak_witness:
  "\<exists>pt s1 pt' s2. page_table_allocate sample_state = Inr (pt, s1) \<and>
     map_pages plain_bitflags 6 [(0x10000, 0x80000000)] (pt, s1) = Inr (pt', s2) \<and>
     page_table_drop pt' s2 = Inr (s2\<lparr>FRAME_ALLOCATOR := FRAME_ALLOCATOR sample_state\<rparr>)"
proof -
  have "kfree sample_state \<noteq> {}" using sample_state_free by auto
  moreover have "card ({[]} \<union> area_paths [(0x10000 :: usize, 0x80000000 :: usize)]) \<le> card (kfree sample_state)"
    by (simp add: sample_state_free paths_of_def card_insert_if)
  ultimately show ?thesis
    by (intro page_table_no_leak [OF plain_bitflags_ok sample_state_wf _ sample_area_facts(5)])
       (simp_all add: pages_apart_def page_aligned_def)
qed

end
