(* ===== verification/Boot_Theorems.thy ===== *)
theory Boot_Theorems
  imports Kernel_Boot Page_Theorems
begin

text \<open>
  The properties of the kernel's address space: what \<open>make_kernel\<close> maps, what boot leaves behind,
  and the locking of the kernel's page table.
\<close>

section \<open>Building the kernel's space\<close>

text \<open>A machine before boot, and the state of the memory subsystem after \<open>mm_init\<close>.\<close>

definition boot_state :: mm_state where
  "boot_state = \<lparr>kern = sample_state, csr_satp = 0, csr_sscratch = 0, KERNEL_HEAP_ALLOCATOR = None,
     KERNEL_ADDRESS_SPACE = None\<rparr>"

definition heap_state :: kstate where
  "heap_state = \<lparr>phys_mem = (\<lambda>_. 0), FRAME_ALLOCATOR = FRAME_ALLOCATOR_init sample_linker\<rparr>"

definition sv39_encoding :: satp_encoding where
  "sv39_encoding mode asid ppn = (push_bit 60 mode OR push_bit 44 asid) OR ppn"

lemma sv39_encoding_ok: "satp_set_ok sv39_encoding"
  by (simp add: satp_set_ok_def sv39_encoding_def)

lemma sample_heap: "heap_pages sample_linker = 0x7E79"
  by (simp add: heap_pages_def pno_def sample_linker_def)

lemma heap_state_facts: "kstate_wf heap_state" "73 \<le> card (kfree heap_state)"
  using heap_init(3) [OF sample_linker_ok] heap_init_free(1) [OF sample_linker_ok]
  by (simp_all add: heap_state_def kstate_wf_def sample_heap)

lemma sample_boot:
  "\<exists>space s. space_ok sample_linker space s \<and> heap_ok sample_linker s \<and> 1000 \<le> card (kfree s)"
proof -
  have h: "73 \<le> heap_pages sample_linker" by (simp add: sample_heap)
  obtain space s where m: "space_ok sample_linker space s" "heap_ok sample_linker s"
    "kused s = set (node_addrs (page_table space))" "length (node_addrs (page_table space)) \<le> 73"
    using mm_init_spec [OF plain_bitflags_ok sample_linker_ok h, of boot_state]
    by (auto simp: boot_state_def)
  have "card (kused s) \<le> 73"
    unfolding m(3) using m(4) card_length order_trans by blast
  then have "1000 \<le> card (kfree s)"
    using heap_cards [OF sample_linker_ok m(2)] by (simp add: sample_heap)
  with m(1,2) show ?thesis by blast
qed

text \<open>
  C4. \<open>make_kernel\<close> returns whenever 73 frames are free, and the page table it builds implements exactly
  the map of the layout: the trampoline page, the text read and execute, the read-only data read,
  data, bss, boot stacks, heap and the four device regions read and write, each page at its own
  address, and nothing else.  The space passes its own verification, its nodes are frames that
  were free, and no other byte of memory changes.
\<close>

theorem make_kernel_implements_layout:
  assumes "bitflags_ok B" and "linker_ok L" and "kstate_wf s" and "73 \<le> card (kfree s)"
  shows "\<exists>space s'. make_kernel B L s = Inr (space, s') \<and> pt_inv s' (page_table space) \<and>
     kmap s' (page_table space) = kernel_map L \<and> addr_space_verify B space (phys_mem s') = Inr () \<and>
     set (node_addrs (page_table space)) \<subseteq> kfree s \<and> length (node_addrs (page_table space)) \<le> 73 \<and>
     kused s' = kused s \<union> set (node_addrs (page_table space)) \<and>
     (\<forall>x. page_of x \<notin> set (node_addrs (page_table space)) \<longrightarrow> phys_mem s' x = phys_mem s x)"
proof -
  obtain space s' where m: "make_kernel B L s = Inr (space, s')" "space_ok L space s'"
    "set (node_addrs (page_table space)) \<subseteq> kfree s" "length (node_addrs (page_table space)) \<le> 73"
    "kused s' = kused s \<union> set (node_addrs (page_table space))"
    "\<forall>x. page_of x \<notin> set (node_addrs (page_table space)) \<longrightarrow> phys_mem s' x = phys_mem s x"
    using make_kernel_spec [OF assms] by blast
  have "addr_space_verify B space (phys_mem s') = Inr ()"
    using m(2) kernel_areas_ok [OF assms(2)] kernel_map_eq [OF assms(2)] assms(1)
    by (intro addr_space_verify_ok [of B _ _ "\<lambda>_. None"]) (auto simp: space_ok_def)
  with m show ?thesis
    by (auto simp: space_ok_def)
qed

theorem make_kernel_implements_layout_witness:
  "\<exists>space s'. make_kernel plain_bitflags sample_linker heap_state = Inr (space, s') \<and>
     kmap s' (page_table space) = kernel_map sample_linker"
  using make_kernel_implements_layout [OF plain_bitflags_ok sample_linker_ok heap_state_facts] by blast

lemma kernel_map_entry:
  assumes "linker_ok L" and "kernel_map L a = Some e"
  shows "\<not> (bit e 2 \<and> bit e 3) \<and> \<not> bit e 4 \<and> bit e 1 \<and>
    (vpn a \<noteq> tramp_pno \<longrightarrow> PTE2PA e = page_at (vpn a)) \<and> (vpn a = tramp_pno \<longrightarrow> PTE2PA e = ld_trampoline_start L)"
proof -
  have fl: "f AND NOT (mask 9) = 0" if "f = 11 \<or> f = 3 \<or> f = 7" for f :: u16
    using that by (auto simp: mask_eq_exp_minus_1)
  have al: "page_aligned (page_at (vpn a))"
    by (rule page_at(2)) (simp add: vpn_def less_mult_imp_div_less)
  from assms(2) obtain f where f: "f = 11 \<or> f = 3 \<or> f = 7"
    and e: "e = entry_for (if vpn a = tramp_pno then ld_trampoline_start L else page_at (vpn a)) f"
    by (auto simp: kernel_map_def kernel_perms_def split: if_splits)
  have "\<not> (bit e 2 \<and> bit e 3) \<and> \<not> bit e 4 \<and> bit e 1"
    using f by (auto simp: e bit_entry_for bit_numeral_rec)
  then show ?thesis
    using PTE2PA_entry_for [OF fl [OF f]] al linker_aligned(11) [OF assms(1)]
    by (auto simp: e page_aligned_page_of)
qed

section \<open>Boot\<close>

text \<open>
  C21. Boot sets up memory: from any state in which the kernel's address space has not been made yet, if
  the linker leaves at least 73 pages of heap, \<open>mm::init\<close> returns with the kernel's address space in place, holding at most 73 frames and these the only
  ones in use, and \<open>mm::hart_init\<close> then loads that space: \<^verbatim>\<open>satp\<close> selects mode Sv39 and the root of
  its table, and \<^verbatim>\<open>sscratch\<close> holds the address of the trap frame.
\<close>

theorem boot_memory:
  assumes "bitflags_ok B" and "linker_ok L" and "satp_set_ok S" and "73 \<le> heap_pages L"
    and "KERNEL_ADDRESS_SPACE h = None"
  shows "\<exists>h1 h2 space. mm_init B L h = Inr h1 \<and> mm_hart_init B L S h1 = Inr h2 \<and>
     KERNEL_ADDRESS_SPACE h2 = Some space \<and> pt_inv (kern h2) (page_table space) \<and>
     kmap (kern h2) (page_table space) = kernel_map L \<and>
     kused (kern h2) = set (node_addrs (page_table space)) \<and> card (kused (kern h2)) \<le> 73 \<and>
     csr_satp h2 = push_bit 60 8 OR drop_bit 12 (pt_root (page_table space)) \<and>
     csr_sscratch h2 = TRAPFRAME_BASE_USER_VA"
proof -
  obtain space s' where m: "mm_init B L h = Inr (h\<lparr>kern := s', KERNEL_HEAP_ALLOCATOR := Some (ld_kernel_heap_space L, KERNEL_HEAP_SIZE), KERNEL_ADDRESS_SPACE := Some space\<rparr>)"
    "space_ok L space s'" "heap_ok L s'" "kused s' = set (node_addrs (page_table space))"
    "length (node_addrs (page_table space)) \<le> 73"
    using mm_init_spec [OF assms(1,2,4,5)] by blast
  let ?h1 = "h\<lparr>kern := s', KERNEL_HEAP_ALLOCATOR := Some (ld_kernel_heap_space L, KERNEL_HEAP_SIZE), KERNEL_ADDRESS_SPACE := Some space\<rparr>"
  let ?h2 = "?h1\<lparr>csr_satp := addr_space_make_satp space, csr_sscratch := TRAPFRAME_BASE_USER_VA\<rparr>"
  have "mm_hart_init B L S ?h1 =
      Inr (?h1\<lparr>csr_satp := addr_space_make_satp space, csr_sscratch := TRAPFRAME_BASE_USER_VA\<rparr>)"
    using m(2,3) by (intro mm_hart_init_spec [OF assms(2,3)]) (simp_all add: space_ok_def)
  moreover have "card (kused s') \<le> 73"
    unfolding m(4) using m(5) card_length order_trans by blast
  moreover have "addr_space_make_satp space = push_bit 60 8 OR drop_bit 12 (pt_root (page_table space))"
    by (simp add: addr_space_make_satp_def make_satp_def pt_root_def)
  ultimately show ?thesis
    using m(1,2,4)
    by (intro exI [of _ ?h1] exI [of _ ?h2] exI [of _ space]) (simp add: space_ok_def)
qed

theorem boot_memory_witness:
  "\<exists>h1 h2 space. mm_init plain_bitflags sample_linker boot_state = Inr h1 \<and>
     mm_hart_init plain_bitflags sample_linker sv39_encoding h1 = Inr h2 \<and>
     KERNEL_ADDRESS_SPACE h2 = Some space"
proof -
  have "73 \<le> heap_pages sample_linker" "KERNEL_ADDRESS_SPACE boot_state = None"
    by (simp_all add: sample_heap boot_state_def)
  from boot_memory [OF plain_bitflags_ok sample_linker_ok sv39_encoding_ok this]
  show ?thesis by blast
qed

text \<open>
  C26. Every frame that the allocator manages after boot lies inside the heap of the linker script, between
  the end of the boot stacks and the end of memory, is page aligned, and is mapped by the kernel,
  readable and writable, at its own address.
\<close>

theorem heap_frames_bounds:
  assumes "linker_ok L" and "kstate_wf s" and "same_heap (FRAME_ALLOCATOR_init L) (FRAME_ALLOCATOR s)"
    and "a \<in> kfree s \<union> kused s"
  shows "unat (ld_heap_start L) \<le> unat a \<and> unat a + 4096 \<le> unat PHYS_TOP \<and> page_aligned a \<and>
     kernel_map L a = Some (entry_for a 7)"
proof -
  have hp: "heap_ok L s" using assms(2,3) by (simp add: heap_ok_def)
  note f = heap_frames_mapped [OF assms(1) hp assms(4)]
  have "page_aligned (ld_heap_start L)" using linker_pnos(14) [OF assms(1)] .
  then have "unat (ld_heap_start L) \<le> unat a" "unat a + 4096 \<le> 0x88000000"
    using f(1-3) by (auto simp: pno_def page_aligned_def)
  then show ?thesis
    using f(3,4) by (simp add: PHYS_TOP_def KERNEL_BASE_def)
qed

theorem heap_frames_bounds_witness:
  "\<exists>a. a \<in> kfree heap_state \<and> kernel_map sample_linker a = Some (entry_for a 7)"
proof -
  have "kfree heap_state \<noteq> {}" using heap_state_facts(2) by auto
  then obtain a where a: "a \<in> kfree heap_state" by blast
  have "same_heap (FRAME_ALLOCATOR_init sample_linker) (FRAME_ALLOCATOR heap_state)"
    by (simp add: heap_state_def same_heap_def)
  from heap_frames_bounds [OF sample_linker_ok heap_state_facts(1) this, of a] a show ?thesis by blast
qed

text \<open>
  C25. The frame allocator stays well typed.  Whatever single frames are taken and whatever addresses are given
  back without a panic after boot, also wrong ones, the allocator keeps the heap of the linker script with one
  entry per page, each entry 0 or 1; and the next frame that it hands out is a page of that heap.
\<close>

theorem frame_allocator_typed:
  assumes "linker_ok L" and "fa_step\<^sup>*\<^sup>* (FRAME_ALLOCATOR_init L) fa"
  shows "set (page_allocated fa) \<subseteq> {0, 1} \<and> length (page_allocated fa) = heap_pages L \<and>
     base_addr fa = ld_heap_start L \<and>
     (\<forall>pa fa'. allocate_one_frame fa = Inr (pa, fa') \<longrightarrow>
        page_aligned (pa_as_usize pa) \<and>
        (\<exists>i < heap_pages L. unat (pa_as_usize pa) = unat (ld_heap_start L) + 4096 * i))"
proof -
  note init = heap_init [OF assms(1)]
  have fa: "fa_wf fa \<and> same_heap (FRAME_ALLOCATOR_init L) fa"
    using assms(2)
    by (induction rule: rtranclp_induct) (use init(3) fa_step_wf fpool.same_refl fpool.same_trans in blast)+
  then have heap: "length (page_allocated fa) = heap_pages L" "base_addr fa = ld_heap_start L"
    using init(1,2) by (simp_all add: same_heap_def)
  have "page_aligned (pa_as_usize pa) \<and> (\<exists>i < heap_pages L. unat (pa_as_usize pa) = unat (ld_heap_start L) + 4096 * i)"
    if "allocate_one_frame fa = Inr (pa, fa')" for pa fa'
  proof -
    have "pa \<in> free_frames fa" using fpool.alloc_spec [OF conjunct1 [OF fa] that] by blast
    then obtain i where i: "pa = PhysAddr (page_addr fa i)" "i < length (page_allocated fa)"
      by (auto simp: free_frames_def free_pages_def)
    then show ?thesis
      using unat_page_addr [OF conjunct1 [OF fa] i(2)] page_addr_aligned [OF conjunct1 [OF fa] i(2)] heap by auto
  qed
  then show ?thesis using fa heap by (simp add: fa_wf_def)
qed

theorem frame_allocator_typed_witness:
  "\<exists>pa fa. allocate_one_frame (FRAME_ALLOCATOR_init sample_linker) = Inr (pa, fa) \<and>
     set (page_allocated fa) \<subseteq> {0, 1} \<and> base_addr fa = ld_heap_start sample_linker"
proof -
  have "free_frames (FRAME_ALLOCATOR_init sample_linker) \<noteq> {}"
    using heap_state_facts(2) by (auto simp: heap_state_def free_frames_def)
  then obtain pa fa where a: "allocate_one_frame (FRAME_ALLOCATOR_init sample_linker) = Inr (pa, fa)"
    using fpool.alloc_returns [OF heap_init(3) [OF sample_linker_ok]] by blast
  show ?thesis
    using a frame_allocator_typed [OF sample_linker_ok r_into_rtranclp [where r = fa_step, OF take_frame [OF a]]] by blast
qed

section \<open>Locking\<close>

text \<open>
  C22. \<open>lock_table\<close> takes the writable flag from the pages that hold the nodes of the table, when the
  table maps them writable at their own addresses, and changes no other mapping; \<open>unlock_table\<close>
  afterwards restores the map.
\<close>

theorem lock_unlock_roundtrip:
  assumes "bitflags_ok B" and "pt_inv s pt"
    and "\<forall>n \<in> set (node_addrs pt). unat n < 2 ^ 39 \<and> kmap s pt n = Some (entry_for n 7)"
  shows "\<exists>m1 m2. lock_table B pt (phys_mem s) = Inr m1 \<and> unlock_table B pt m1 = Inr m2 \<and>
     (\<forall>n \<in> set (node_addrs pt). pt_map m1 (pt_root pt) n = Some (entry_for n 3)) \<and>
     (\<forall>b. (\<forall>n \<in> set (node_addrs pt). \<not> same_page n b) \<longrightarrow> pt_map m1 (pt_root pt) b = kmap s pt b) \<and>
     pt_map m2 (pt_root pt) = kmap s pt"
proof -
  have nm: "nodes_mapped s pt" using assms(3) by (auto simp: nodes_mapped_def)
  have al: "page_aligned n" if "n \<in> set (node_addrs pt)" for n
    using pt_shapeD(2) [OF pt_invD(5) [OF assms(2)] that] .
  have fl: "(7 :: u16) AND NOT (mask 9) = 0" "(3 :: u16) AND NOT (mask 9) = 0"
    by (simp_all add: mask_eq_exp_minus_1)
  have en: "locked_entry (entry_for n 7) = entry_for n 3" "unlocked_entry (entry_for n 3) = entry_for n 7"
    if "n \<in> set (node_addrs pt)" for n
    using locked_entry_for [OF fl(1), of n] locked_entry_for [OF fl(2), of n] al [OF that]
    by (simp_all add: page_aligned_page_of)
  obtain m1 where l: "lock_table B pt (phys_mem s) = Inr m1" "pt_inv (s\<lparr>phys_mem := m1\<rparr>) pt"
    "\<And>b. kmap (s\<lparr>phys_mem := m1\<rparr>) pt b = (if \<exists>n \<in> set (node_addrs pt). same_page n b
       then map_option locked_entry (kmap s pt b) else kmap s pt b)"
    using lock_table_spec(1) [OF assms(1,2) nm] by blast
  have same: "kmap s pt b = Some (entry_for n 7)" if "n \<in> set (node_addrs pt)" "same_page n b" for n b
    using assms(3) that pt_map_same_page [OF that(2), of "phys_mem s"] by auto
  have nm1: "nodes_mapped (s\<lparr>phys_mem := m1\<rparr>) pt"
    using assms(3) l(3) by (auto simp: nodes_mapped_def)
  obtain m2 where u: "unlock_table B pt m1 = Inr m2"
    "\<And>b. kmap (s\<lparr>phys_mem := m2\<rparr>) pt b = (if \<exists>n \<in> set (node_addrs pt). same_page n b
       then map_option unlocked_entry (kmap (s\<lparr>phys_mem := m1\<rparr>) pt b) else kmap (s\<lparr>phys_mem := m1\<rparr>) pt b)"
    using lock_table_spec(2) [OF assms(1) l(2) nm1] by auto
  have locked: "pt_map m1 (pt_root pt) b = Some (entry_for n 3)"
    if "n \<in> set (node_addrs pt)" "same_page n b" for n b
    using l(3) [of b] that same [OF that] en(1) [OF that(1)] by auto
  have other: "pt_map m1 (pt_root pt) b = kmap s pt b" if "\<forall>n \<in> set (node_addrs pt). \<not> same_page n b" for b
    using l(3) [of b] that by simp
  have "pt_map m2 (pt_root pt) b = kmap s pt b" for b
  proof (cases "\<exists>n \<in> set (node_addrs pt). same_page n b")
    case True
    then obtain n where n: "n \<in> set (node_addrs pt)" "same_page n b" by blast
    then show ?thesis
      using u(2) [of b] locked [OF n] same [OF n] en(2) [OF n(1)] by auto
  qed (use u(2) [of b] other in simp)
  then have "pt_map m2 (pt_root pt) = kmap s pt" by blast
  then show ?thesis
    using l(1) u(1) locked [OF _ same_page_refl] other by blast
qed

theorem lock_unlock_roundtrip_witness:
  "\<exists>pt s m1 m2. pt_inv s pt \<and> lock_table plain_bitflags pt (phys_mem s) = Inr m1 \<and>
     unlock_table plain_bitflags pt m1 = Inr m2 \<and> pt_map m2 (pt_root pt) = kmap s pt"
proof -
  obtain space s where b: "space_ok sample_linker space s" "heap_ok sample_linker s"
    using sample_boot by blast
  have inv: "pt_inv s (page_table space)" and km: "kmap s (page_table space) = kernel_map sample_linker"
    using b(1) by (simp_all add: space_ok_def)
  have "\<forall>n \<in> set (node_addrs (page_table space)). unat n < 2 ^ 39 \<and>
      kmap s (page_table space) n = Some (entry_for n 7)"
    using kernel_root_small(3) [OF sample_linker_ok b(2) inv] pt_invD(4) [OF inv]
      heap_frames_mapped(4) [OF sample_linker_ok b(2)] by (auto simp: km)
  from lock_unlock_roundtrip [OF plain_bitflags_ok inv this] inv show ?thesis by blast
qed

text \<open>What \<open>lock_space\<close> leaves of the map.\<close>

lemma lock_space_map:
  assumes "bitflags_ok B" and "linker_ok L" and "satp_set_ok S" and "heap_ok L (kern h)"
    and "73 \<le> card (kfree (kern h))" and "space_ok L space (kern h)"
  shows "\<exists>h'. lock_space B L S space h = Inr h' \<and> csr_satp h' = addr_space_make_satp space \<and>
     FRAME_ALLOCATOR (kern h') = FRAME_ALLOCATOR (kern h) \<and> pt_inv (kern h') (page_table space) \<and>
     (\<forall>b. kmap (kern h') (page_table space) b =
        (if page_at (vpn b) \<in> set (node_addrs (page_table space))
         then Some (entry_for (page_at (vpn b)) 3) else kernel_map L b)) \<and>
     (\<forall>x. page_of x \<notin> set (node_addrs (page_table space)) \<union> kfree (kern h) \<longrightarrow>
        phys_mem (kern h') x = phys_mem (kern h) x)"
proof -
  let ?N = "set (node_addrs (page_table space))"
  have inv: "pt_inv (kern h) (page_table space)" and km: "kmap (kern h) (page_table space) = kernel_map L"
    using assms(6) by (simp_all add: space_ok_def)
  obtain m where l: "lock_space B L S space h = Inr (h\<lparr>kern := (kern h)\<lparr>phys_mem := m\<rparr>,
       csr_satp := addr_space_make_satp space\<rparr>)" "pt_inv ((kern h)\<lparr>phys_mem := m\<rparr>) (page_table space)"
    "\<forall>x. page_of x \<notin> ?N \<union> kfree (kern h) \<longrightarrow> m x = phys_mem (kern h) x"
    "\<And>b. kmap ((kern h)\<lparr>phys_mem := m\<rparr>) (page_table space) b = (if \<exists>n \<in> ?N. same_page n b
         then map_option locked_entry (kmap (kern h) (page_table space) b)
         else kmap (kern h) (page_table space) b)"
    using lock_space_spec [OF assms(1-5) inv space_nodes_mapped [OF assms(2,4,6)]] by blast
  have nodes: "page_aligned n \<and> pno n < 2 ^ 27 \<and> kernel_map L n = Some (entry_for n 7)" if "n \<in> ?N" for n
  proof -
    have "n \<in> kfree (kern h) \<union> kused (kern h)" using that pt_invD(4) [OF inv] by blast
    from heap_frames_mapped(2-4) [OF assms(2,4) this] show ?thesis by simp
  qed
  have iff: "(\<exists>n \<in> ?N. same_page n b) \<longleftrightarrow> page_at (vpn b) \<in> ?N" for b
  proof
    assume "\<exists>n \<in> ?N. same_page n b"
    then obtain n where n: "n \<in> ?N" "same_page n b" by blast
    then have "pno n = vpn b"
      using nodes [OF n(1)] same_page_vpn [of "pno n" b] by (simp add: page_at_pno)
    then show "page_at (vpn b) \<in> ?N"
      using n(1) nodes [OF n(1)] page_at_pno [of n] by simp
  qed (use same_page_vpn_self in blast)
  have "kmap ((kern h)\<lparr>phys_mem := m\<rparr>) (page_table space) b =
      (if page_at (vpn b) \<in> ?N then Some (entry_for (page_at (vpn b)) 3) else kernel_map L b)" for b
  proof (cases "page_at (vpn b) \<in> ?N")
    case True
    have "kernel_map L b = kernel_map L (page_at (vpn b))"
      using pt_map_same_page [OF same_page_vpn_self, of "phys_mem (kern h)" "pt_root (page_table space)"]
        km by (metis)
    moreover have "(7 :: u16) AND NOT (mask 9) = 0" by (simp add: mask_eq_exp_minus_1)
    ultimately show ?thesis
      using True l(4) [of b] iff [of b] km nodes [OF True] locked_entry_for(1) [of 7 "page_at (vpn b)"]
      by (simp add: page_aligned_page_of)
  qed (use l(4) [of b] iff [of b] km in simp)
  then show ?thesis
    using l(1-3) by (intro exI [of _ "h\<lparr>kern := (kern h)\<lparr>phys_mem := m\<rparr>,
       csr_satp := addr_space_make_satp space\<rparr>"]) simp
qed

text \<open>
  C10. \<open>lock_space\<close> of the kernel's space builds a second kernel space, locks the table and drops the
  second space: it returns if 73 frames are free, leaves \<^verbatim>\<open>satp\<close> on the kernel's own table and the
  allocator unchanged, makes exactly the pages of the table's nodes read-only, and writes only to
  the nodes and to free frames.
\<close>

theorem lock_space_kernel:
  assumes "bitflags_ok B" and "linker_ok L" and "satp_set_ok S" and "heap_ok L (kern h)"
    and "73 \<le> card (kfree (kern h))" and "space_ok L space (kern h)"
  shows "\<exists>h'. lock_space B L S space h = Inr h' \<and> csr_satp h' = addr_space_make_satp space \<and>
     FRAME_ALLOCATOR (kern h') = FRAME_ALLOCATOR (kern h) \<and> pt_inv (kern h') (page_table space) \<and>
     (\<forall>b. kmap (kern h') (page_table space) b =
        (if page_at (vpn b) \<in> set (node_addrs (page_table space))
         then Some (entry_for (page_at (vpn b)) 3) else kernel_map L b)) \<and>
     (\<forall>x. page_of x \<notin> set (node_addrs (page_table space)) \<union> kfree (kern h) \<longrightarrow>
        phys_mem (kern h') x = phys_mem (kern h) x)"
  by (rule lock_space_map [OF assms])

theorem lock_space_kernel_witness:
  "\<exists>space (h :: mm_state) h'. space_ok sample_linker space (kern h) \<and>
     lock_space plain_bitflags sample_linker sv39_encoding space h = Inr h' \<and>
     csr_satp h' = addr_space_make_satp space"
proof -
  obtain space s where b: "space_ok sample_linker space s" "heap_ok sample_linker s" "1000 \<le> card (kfree s)"
    using sample_boot by blast
  let ?h = "boot_state\<lparr>kern := s\<rparr>"
  have "73 \<le> card (kfree (kern ?h))" using b(3) by simp
  then have "\<exists>h'. lock_space plain_bitflags sample_linker sv39_encoding space ?h = Inr h' \<and>
      csr_satp h' = addr_space_make_satp space"
    using lock_space_kernel [OF plain_bitflags_ok sample_linker_ok sv39_encoding_ok, of ?h space] b by auto
  moreover have "space_ok sample_linker space (kern ?h)" using b(1) by simp
  ultimately show ?thesis by blast
qed

text \<open>
  C15. The space that \<open>make_kernel\<close> builds is protected, before and after it is locked: of the entries that its
  table holds, for whatever address, none is both writable and executable or open to user mode, every one is
  readable, and it leads to the frame with the page's own address, or to the trampoline for the trampoline's
  page.  After \<open>lock_space\<close> no page that holds a node of the table is writable.
\<close>

theorem kernel_map_protection:
  assumes "bitflags_ok B" and "linker_ok L" and "satp_set_ok S" and "heap_ok L (kern h)"
    and "146 \<le> card (kfree (kern h))"
  shows "\<exists>space s h'. make_kernel B L (kern h) = Inr (space, s) \<and>
    lock_space B L S space (h\<lparr>kern := s\<rparr>) = Inr h' \<and>
    (\<forall>t a e. t = s \<or> t = kern h' \<longrightarrow> kmap t (page_table space) a = Some e \<longrightarrow>
       \<not> (bit e 2 \<and> bit e 3) \<and> \<not> bit e 4 \<and> bit e 1 \<and>
       PTE2PA e = (if vpn a = tramp_pno then ld_trampoline_start L else page_at (vpn a))) \<and>
    (\<forall>n \<in> set (node_addrs (page_table space)). \<exists>e. kmap (kern h') (page_table space) n = Some e \<and> \<not> bit e 2)"
proof -
  have wf: "kstate_wf (kern h)" and free: "73 \<le> card (kfree (kern h))" using assms(4,5) by (simp_all add: heap_ok_def)
  obtain space s where m: "make_kernel B L (kern h) = Inr (space, s)" "space_ok L space s"
    "same_heap (FRAME_ALLOCATOR (kern h)) (FRAME_ALLOCATOR s)" "length (node_addrs (page_table space)) \<le> 73"
    "kfree s = kfree (kern h) - set (node_addrs (page_table space))"
    using make_kernel_spec [OF assms(1,2) wf free] by blast
  let ?N = "set (node_addrs (page_table space))"
  have inv: "pt_inv s (page_table space)" and km: "kmap s (page_table space) = kernel_map L"
    using m(2) by (simp_all add: space_ok_def)
  have hp: "heap_ok L (kern (h\<lparr>kern := s\<rparr>))"
    using assms(4) m(3) pt_invD(1) [OF inv] by (simp add: heap_ok_def same_heap_def)
  have "card ?N \<le> 73" using m(4) card_length order_trans by blast
  then have "73 \<le> card (kfree (kern (h\<lparr>kern := s\<rparr>)))"
    using assms(5) diff_card_le_card_Diff [of ?N "kfree (kern h)"] m(5) by simp
  from lock_space_map [OF assms(1-3) hp this, of space] m(2) obtain h' where
    l: "lock_space B L S space (h\<lparr>kern := s\<rparr>) = Inr h'"
      "\<And>b. kmap (kern h') (page_table space) b =
        (if page_at (vpn b) \<in> ?N then Some (entry_for (page_at (vpn b)) 3) else kernel_map L b)"
    by auto
  have node: "page_aligned n" "pno n < 0x88000" if "n \<in> ?N" for n
    using heap_frames_mapped(2,3) [OF assms(2) hp, of n] that pt_invD(4) [OF inv] by auto
  have fl: "(3 :: u16) AND NOT (mask 9) = 0" by (simp add: mask_eq_exp_minus_1)
  have locked: "\<not> (bit e 2 \<and> bit e 3) \<and> \<not> bit e 4 \<and> bit e 1 \<and>
      PTE2PA e = (if vpn a = tramp_pno then ld_trampoline_start L else page_at (vpn a))"
    if "kmap (kern h') (page_table space) a = Some e" for a e
  proof (cases "page_at (vpn a) \<in> ?N")
    case True
    have "vpn a < 2 ^ 27" by (simp add: vpn_def)
    then have "vpn a \<noteq> tramp_pno" using node(2) [OF True] by (auto simp: page_at pno_def tramp_pno_def)
    moreover have "e = entry_for (page_at (vpn a)) 3" using that l(2) [of a] True by simp
    ultimately show ?thesis
      using node(1) [OF True] PTE2PA_entry_for [OF fl] by (simp add: bit_entry_for bit_numeral_rec page_aligned_page_of)
  next
    case False
    then show ?thesis using that l(2) [of a] kernel_map_entry [OF assms(2), of a e] by auto
  qed
  have "\<exists>e. kmap (kern h') (page_table space) n = Some e \<and> \<not> bit e 2" if n: "n \<in> ?N" for n
  proof -
    have "page_at (vpn n) = n"
      using node [OF n] page_at_pno [of n] by (simp add: vpn_def pno_def)
    then show ?thesis using l(2) [of n] n by (simp add: bit_entry_for bit_numeral_rec)
  qed
  then show ?thesis
    using m(1) l(1) locked km kernel_map_entry [OF assms(2)]
    by (intro exI [of _ space] exI [of _ s] exI [of _ h']) auto
qed

theorem kernel_map_protection_witness:
  "\<exists>space s h'. make_kernel plain_bitflags sample_linker heap_state = Inr (space, s) \<and>
     lock_space plain_bitflags sample_linker sv39_encoding space (boot_state\<lparr>kern := s\<rparr>) = Inr h' \<and>
     (\<forall>a e. kmap (kern h') (page_table space) a = Some e \<longrightarrow> \<not> (bit e 2 \<and> bit e 3))"
proof -
  let ?h = "boot_state\<lparr>kern := heap_state\<rparr>"
  have "heap_ok sample_linker (kern ?h)" "146 \<le> card (kfree (kern ?h))"
    using heap_state_facts(1) heap_init_free(1) [OF sample_linker_ok]
    by (simp_all add: heap_ok_def heap_state_def same_heap_def sample_heap)
  from kernel_map_protection [OF plain_bitflags_ok sample_linker_ok sv39_encoding_ok this] show ?thesis
    by (elim exE conjE) (rule exI, rule exI, rule exI, intro conjI, simp, simp, blast)
qed

end
