(* ===== verification/User_Theorems.thy ===== *)
theory User_Theorems
  imports User_Space Boot_Theorems
begin

text \<open>
  The properties of the address space of the first process, from \<open>make_init\<close> and
  \<open>init_trapframe\<close> to the drop of the space.
\<close>

section \<open>The map of the space\<close>

definition trap_pno :: nat where "trap_pno = 0x3FFFFFD"

lemma trap_page: "TRAPFRAME_BASE_USER_VA = page_at trap_pno"
  by (simp add: TRAPFRAME_BASE_USER_VA_value page_at_def trap_pno_def)

definition init_map :: "linker_symbols \<Rightarrow> nat \<Rightarrow> usize \<Rightarrow> usize \<Rightarrow> usize \<Rightarrow> usize \<Rightarrow> usize option" where
  "init_map L len st tx tf b =
     (if vpn b = tramp_pno then Some (entry_for (ld_trampoline_start L) 11)
      else if vpn b = trap_pno then Some (entry_for tf 7)
      else if vpn b = 17 + text_pages len then Some (entry_for st 23)
      else if vpn b = 16 then Some (entry_for tx 27)
      else None)"

lemma init_areas_apart_trapframe:
  assumes "linker_ok L" and "len < 2 ^ 30" and "page_aligned st" and "page_aligned tx"
  shows "\<forall>x \<in> set (all_pages (init_areas L len st tx)). \<not> same_page (fst x) TRAPFRAME_BASE_USER_VA"
  using text_pages_less [OF assms(2)]
  by (simp add: init_areas_facts(2) [OF assms] trap_page same_page_at tramp_pno_def trap_pno_def)

lemma init_map_eq:
  assumes L: "linker_ok L" and len: "len < 2 ^ 30" and a: "page_aligned st" "page_aligned tx" "page_aligned tf"
  shows "add_areas (init_areas L len st tx @ [trap_area tf]) (\<lambda>_. None) = init_map L len st tx tf"
proof
  fix b
  have al: "page_aligned (stack_va len)" "page_aligned TEXT_BASE_USER_VA"
    using text_pages_less [OF len] by (simp_all add: stack_va_def TEXT_BASE page_at)
  have or: "(10 :: u16) OR 1 = 11" "(22 :: u16) OR 1 = 23" "(26 :: u16) OR 1 = 27" "(6 :: u16) OR 1 = 7"
    by simp_all
  show "add_areas (init_areas L len st tx @ [trap_area tf]) (\<lambda>_. None) b = init_map L len st tx tf b"
    using text_pages_less [OF len]
    by (simp add: init_areas_def area_pages_tramp [OF linker_aligned(11) [OF L]] al a frame_area_facts
        trap_area_facts init_map_def or)
       (simp add: tramp_page trap_page stack_va_def TEXT_BASE same_page_vpn tramp_pno_def trap_pno_def)
qed

text \<open>The steps of \<open>make_initcode_uninitialised\<close> and the first execution that build the space.\<close>

lemma init_space_spec:
  assumes B: "bitflags_ok B" and L: "linker_ok L" and wf: "kstate_wf s"
    and len: "length init_text < 2 ^ 30" and free: "12 \<le> card (kfree s)"
  shows "\<exists>space s1 tf space' s' st tx. make_init B L 0x1000 init_text s = Inr (space, s1) \<and>
     init_trapframe B space s1 = Inr ((PhysAddr tf, space'), s') \<and> space_since s s' space' \<and>
     virt_areas space' = init_areas L (length init_text) st tx @ [trap_area tf] \<and>
     page_aligned st \<and> page_aligned tx \<and> page_aligned tf \<and>
     (\<forall>k < 4096. phys_mem s' (tf + of_nat k) = 0) \<and> (\<forall>k < 4096. phys_mem s' (st + of_nat k) = 0) \<and>
     (\<forall>k < 4096. phys_mem s' (tx + of_nat k) = (if k < length init_text then init_text ! k else 0))"
proof -
  have "9 \<le> card (kfree s)" using free by simp
  from make_init_spec [OF B L wf len this] obtain space s1 st tx where
    i: "make_init B L 0x1000 init_text s = Inr (space, s1)" "space_since s s1 space"
    "virt_areas space = init_areas L (length init_text) st tx" "page_aligned st" "page_aligned tx"
    "\<forall>k < 4096. phys_mem s1 (st + of_nat k) = 0"
    "\<forall>k < 4096. phys_mem s1 (tx + of_nat k) = (if k < length init_text then init_text ! k else 0)"
    "card (kfree s) \<le> card (kfree s1) + 9"
    by (elim exE conjE) (rule that; assumption)
  have "3 \<le> card (kfree s1)" using i(8) free by simp
  from init_trapframe_spec [OF B i(2) _ this] obtain tf space' s' where
    t: "init_trapframe B space s1 = Inr ((PhysAddr tf, space'), s')" "space_since s s' space'"
    "virt_areas space' = virt_areas space @ [trap_area tf]" "page_aligned tf"
    "\<forall>k < 4096. phys_mem s' (tf + of_nat k) = 0"
    "\<forall>x. page_of x \<in> set (concat (map area_owned (virt_areas space))) \<longrightarrow> phys_mem s' x = phys_mem s1 x"
    using init_areas_apart_trapframe [OF L len i(4,5)] unfolding i(3) by blast
  have "{st, tx} \<subseteq> set (concat (map area_owned (virt_areas space)))"
    using init_areas_facts(3) [OF L len i(4,5)] by (simp add: i(3))
  then have "phys_mem s' (a + of_nat k) = phys_mem s1 (a + of_nat k)" if "a = st \<or> a = tx" "k < 4096" for a k
    using that i(4,5) page_of_add [OF _ that(2)] by (intro t(6) [rule_format]) (auto simp del: set_concat)
  then show ?thesis
    using i t(1-5) by (intro exI [of _ space] exI [of _ s1] exI [of _ tf] exI [of _ space'] exI [of _ s']
        exI [of _ st] exI [of _ tx]) simp
qed

lemma heap_state_free: "12 \<le> card (kfree heap_state)"
  using heap_state_facts(2) by simp

text \<open>What the two constructors leave: the map of the table, the frames and their contents.\<close>

lemma init_space_map:
  assumes "bitflags_ok B" and "linker_ok L" and "kstate_wf s" and "length init_text < 2 ^ 30"
    and "12 \<le> card (kfree s)"
  shows "\<exists>space s1 tf space' s' st tx. make_init B L 0x1000 init_text s = Inr (space, s1) \<and>
     init_trapframe B space s1 = Inr ((PhysAddr tf, space'), s') \<and>
     kmap s' (page_table space') = init_map L (length init_text) st tx tf \<and>
     addr_space_verify B space' (phys_mem s') = Inr () \<and> {st, tx, tf} \<subseteq> kfree s \<and> distinct [st, tx, tf] \<and>
     (\<forall>k < 4096. phys_mem s' (tf + of_nat k) = 0 \<and> phys_mem s' (st + of_nat k) = 0 \<and>
        phys_mem s' (tx + of_nat k) = (if k < length init_text then init_text ! k else 0))"
proof -
  from init_space_spec [OF assms] obtain space s1 tf space' s' st tx where
    i: "make_init B L 0x1000 init_text s = Inr (space, s1)"
    "init_trapframe B space s1 = Inr ((PhysAddr tf, space'), s')" "space_since s s' space'"
    "virt_areas space' = init_areas L (length init_text) st tx @ [trap_area tf]"
    "page_aligned st" "page_aligned tx" "page_aligned tf"
    "\<forall>k < 4096. phys_mem s' (tf + of_nat k) = 0" "\<forall>k < 4096. phys_mem s' (st + of_nat k) = 0"
    "\<forall>k < 4096. phys_mem s' (tx + of_nat k) = (if k < length init_text then init_text ! k else 0)"
    by (elim exE conjE) (rule that; assumption)
  have inv: "space_inv s' space'" and sub: "set (space_frames space') \<subseteq> kfree s"
    using i(3) by (simp_all add: space_since_def)
  have "addr_space_verify B space' (phys_mem s') = Inr ()"
    using inv by (intro addr_space_verify_ok [OF assms(1)]) (simp_all add: space_inv_def)
  moreover have "kmap s' (page_table space') = init_map L (length init_text) st tx tf"
    using inv init_map_eq [OF assms(2,4) i(5-7)] by (simp add: space_inv_def i(4))
  moreover have "concat (map area_owned (virt_areas space')) = [st, tx, tf]"
    using init_areas_facts(3) [OF assms(2,4) i(5,6)] trap_area_facts(4) [OF i(7)] by (simp add: i(4))
  then have "distinct [st, tx, tf]" "{st, tx, tf} \<subseteq> kfree s"
    using inv sub by (auto simp: space_inv_def space_frames_def)
  ultimately show ?thesis
    using i(1,2,8-10) by (intro exI [of _ space] exI [of _ s1] exI [of _ tf] exI [of _ space'] exI [of _ s']
        exI [of _ st] exI [of _ tx]) simp
qed

text \<open>
  C7. The address space of the first process: \<open>make_init\<close> followed by \<open>init_trapframe\<close> returns
  if 12 frames are free, and the page table implements exactly the user map: the trampoline, a
  zeroed trap frame, a zeroed stack page one page above the text, and at \<open>TEXT_BASE_USER_VA\<close> the
  frame that holds the first page of the program, padded with zeros.  The space verifies.
\<close>

theorem init_space_implements_map:
  assumes "bitflags_ok B" and "linker_ok L" and "kstate_wf s" and "length init_text < 2 ^ 30"
    and "12 \<le> card (kfree s)"
  shows "\<exists>space s1 tf space' s' st tx. make_init B L 0x1000 init_text s = Inr (space, s1) \<and>
     init_trapframe B space s1 = Inr ((PhysAddr tf, space'), s') \<and>
     kmap s' (page_table space') = init_map L (length init_text) st tx tf \<and>
     addr_space_verify B space' (phys_mem s') = Inr () \<and> {st, tx, tf} \<subseteq> kfree s \<and> distinct [st, tx, tf] \<and>
     (\<forall>k < 4096. phys_mem s' (tf + of_nat k) = 0 \<and> phys_mem s' (st + of_nat k) = 0 \<and>
        phys_mem s' (tx + of_nat k) = (if k < length init_text then init_text ! k else 0))"
  by (rule init_space_map [OF assms])

theorem init_space_implements_map_witness:
  "\<exists>space s1 tf space' s' st tx.
     make_init plain_bitflags sample_linker 0x1000 [0x13, 0, 0, 0] heap_state = Inr (space, s1) \<and>
     init_trapframe plain_bitflags space s1 = Inr ((PhysAddr tf, space'), s') \<and>
     kmap s' (page_table space') = init_map sample_linker 4 st tx tf \<and> phys_mem s' tx = 0x13"
proof -
  have "length [0x13, 0, 0, 0 :: u8] < 2 ^ 30" by simp
  from init_space_implements_map [OF plain_bitflags_ok sample_linker_ok heap_state_facts(1) this heap_state_free]
  obtain space s1 tf space' s' st tx where
    i: "make_init plain_bitflags sample_linker 0x1000 [0x13, 0, 0, 0] heap_state = Inr (space, s1)"
    "init_trapframe plain_bitflags space s1 = Inr ((PhysAddr tf, space'), s')"
    "kmap s' (page_table space') = init_map sample_linker (length [0x13, 0, 0, 0 :: u8]) st tx tf"
    "\<forall>k < 4096. phys_mem s' (tf + of_nat k) = 0 \<and> phys_mem s' (st + of_nat k) = 0 \<and>
       phys_mem s' (tx + of_nat k) = (if k < length [0x13, 0, 0, 0 :: u8] then [0x13, 0, 0, 0] ! k else 0)"
    by (elim exE conjE) (rule that; assumption)
  have "phys_mem s' tx = 0x13"
    using i(4) [rule_format, of 0] by simp
  moreover have "kmap s' (page_table space') = init_map sample_linker 4 st tx tf"
    using i(3) by (simp add: eval_nat_numeral)
  ultimately show ?thesis
    using i(1,2) by blast
qed

text \<open>
  C11. No frame is lost over the life of the first address space: after \<open>make_init\<close> and
  \<open>init_trapframe\<close>, dropping the space returns every frame taken for its table, its text, its
  stack and its trap frame, and the allocator is the one from before.
\<close>

theorem init_space_no_leak:
  assumes "bitflags_ok B" and "linker_ok L" and "kstate_wf s" and "length init_text < 2 ^ 30"
    and "12 \<le> card (kfree s)"
  shows "\<exists>space s1 tf space' s' s''. make_init B L 0x1000 init_text s = Inr (space, s1) \<and>
     init_trapframe B space s1 = Inr ((tf, space'), s') \<and> addr_space_drop space' s' = Inr s'' \<and>
     FRAME_ALLOCATOR s'' = FRAME_ALLOCATOR s \<and>
     (\<forall>x. page_of x \<notin> kfree s \<longrightarrow> phys_mem s'' x = phys_mem s x)"
proof -
  from init_space_spec [OF assms] obtain space s1 tf space' s' where
    i: "make_init B L 0x1000 init_text s = Inr (space, s1)"
    "init_trapframe B space s1 = Inr ((PhysAddr tf, space'), s')" "space_since s s' space'"
    by blast
  have "\<forall>x. page_of x \<notin> kfree s \<longrightarrow> phys_mem s' x = phys_mem s x"
    using i(3) by (auto simp: space_since_def)
  then show ?thesis
    using i(1,2) space_since_drop [OF assms(3) i(3)]
    by (intro exI [of _ space] exI [of _ s1] exI [of _ "PhysAddr tf"] exI [of _ space'] exI [of _ s']
        exI [of _ "s'\<lparr>FRAME_ALLOCATOR := FRAME_ALLOCATOR s\<rparr>"]) simp
qed

theorem init_space_no_leak_witness:
  "\<exists>space s1 tf space' s' s''.
     make_init plain_bitflags sample_linker 0x1000 [0x13, 0, 0, 0] heap_state = Inr (space, s1) \<and>
     init_trapframe plain_bitflags space s1 = Inr ((tf, space'), s') \<and>
     addr_space_drop space' s' = Inr s'' \<and> FRAME_ALLOCATOR s'' = FRAME_ALLOCATOR heap_state"
proof -
  have "length [0x13, 0, 0, 0 :: u8] < 2 ^ 30" by simp
  from init_space_no_leak [OF plain_bitflags_ok sample_linker_ok heap_state_facts(1) this heap_state_free]
  show ?thesis by blast
qed

text \<open>
  C16. In the space that \<open>make_init\<close> and \<open>init_trapframe\<close> build, user mode can reach two pages only: of the
  entries that the table holds, for whatever address, those open to user mode lead either to the frame of the
  stack, and are not executable, or to the frame of the text, and are not writable.  The trampoline and the
  trap frame are mapped and closed to user mode, no entry is both writable and executable, and the three
  frames are different and were free, so none belongs to the kernel or to another process.
\<close>

theorem init_map_protection:
  assumes "bitflags_ok B" and "linker_ok L" and "kstate_wf s" and "length init_text < 2 ^ 30"
    and "12 \<le> card (kfree s)"
  shows "\<exists>space s1 tf space' s' st tx. make_init B L 0x1000 init_text s = Inr (space, s1) \<and>
     init_trapframe B space s1 = Inr ((PhysAddr tf, space'), s') \<and>
     {st, tx, tf} \<subseteq> kfree s \<and> distinct [st, tx, tf] \<and>
     (\<forall>b e. kmap s' (page_table space') b = Some e \<longrightarrow> \<not> (bit e 2 \<and> bit e 3) \<and> bit e 0 \<and>
        (bit e 4 \<longrightarrow> PTE2PA e = st \<and> \<not> bit e 3 \<or> PTE2PA e = tx \<and> \<not> bit e 2)) \<and>
     (\<exists>e. kmap s' (page_table space') TRAMPOLINE_BASE_VA = Some e \<and> PTE2PA e = ld_trampoline_start L \<and>
        \<not> bit e 4 \<and> \<not> bit e 2) \<and>
     (\<exists>e. kmap s' (page_table space') TRAPFRAME_BASE_USER_VA = Some e \<and> PTE2PA e = tf \<and> \<not> bit e 4 \<and> \<not> bit e 3)"
proof -
  from init_space_map [OF assms] obtain space s1 tf space' s' st tx where
    i: "make_init B L 0x1000 init_text s = Inr (space, s1)"
    "init_trapframe B space s1 = Inr ((PhysAddr tf, space'), s')"
    "kmap s' (page_table space') = init_map L (length init_text) st tx tf" "{st, tx, tf} \<subseteq> kfree s" "distinct [st, tx, tf]"
    by (elim exE conjE) (rule that; assumption)
  have fl: "f AND NOT (mask 9) = 0" if "f = 11 \<or> f = 7 \<or> f = 23 \<or> f = 27" for f :: u16
    using that by (auto simp: mask_eq_exp_minus_1)
  have al: "page_of st = st" "page_of tx = tx" "page_of tf = tf" "page_of (ld_trampoline_start L) = ld_trampoline_start L"
    using i(4) pages_aligned [of "FRAME_ALLOCATOR s"] assms(3) linker_aligned(11) [OF assms(2)]
    by (auto simp: kstate_wf_def intro!: page_aligned_page_of)
  have "\<not> (bit e 2 \<and> bit e 3) \<and> bit e 0 \<and> (bit e 4 \<longrightarrow> PTE2PA e = st \<and> \<not> bit e 3 \<or> PTE2PA e = tx \<and> \<not> bit e 2)"
    if "kmap s' (page_table space') b = Some e" for b e
    using that by (auto simp: i(3) init_map_def bit_entry_for bit_numeral_rec fl PTE2PA_entry_for al split: if_splits)
  moreover have "kmap s' (page_table space') TRAMPOLINE_BASE_VA = Some (entry_for (ld_trampoline_start L) 11)"
    "kmap s' (page_table space') TRAPFRAME_BASE_USER_VA = Some (entry_for tf 7)"
    by (simp_all add: i(3) init_map_def TRAMPOLINE_BASE_VA_value TRAPFRAME_BASE_USER_VA_value vpn_def tramp_pno_def trap_pno_def)
  ultimately show ?thesis
    using i(1,2,4,5) fl
    by (intro exI [of _ space] exI [of _ s1] exI [of _ tf] exI [of _ space'] exI [of _ s'] exI [of _ st] exI [of _ tx])
       (simp add: bit_entry_for bit_numeral_rec PTE2PA_entry_for al)
qed

theorem init_map_protection_witness:
  "\<exists>space s1 tf space' s' st tx.
     make_init plain_bitflags sample_linker 0x1000 [0x13, 0, 0, 0] heap_state = Inr (space, s1) \<and>
     init_trapframe plain_bitflags space s1 = Inr ((PhysAddr tf, space'), s') \<and> st \<noteq> tx \<and>
     (\<forall>b e. kmap s' (page_table space') b = Some e \<longrightarrow> bit e 4 \<longrightarrow> PTE2PA e = st \<or> PTE2PA e = tx)"
proof -
  have "length [0x13, 0, 0, 0 :: u8] < 2 ^ 30" by simp
  from init_map_protection [OF plain_bitflags_ok sample_linker_ok heap_state_facts(1) this heap_state_free]
  obtain space s1 tf space' s' st tx where
    i: "make_init plain_bitflags sample_linker 0x1000 [0x13, 0, 0, 0] heap_state = Inr (space, s1)"
    "init_trapframe plain_bitflags space s1 = Inr ((PhysAddr tf, space'), s')" "distinct [st, tx, tf]"
    "\<forall>b e. kmap s' (page_table space') b = Some e \<longrightarrow> \<not> (bit e 2 \<and> bit e 3) \<and> bit e 0 \<and>
       (bit e 4 \<longrightarrow> PTE2PA e = st \<and> \<not> bit e 3 \<or> PTE2PA e = tx \<and> \<not> bit e 2)"
    by (elim exE conjE) (rule that; assumption)
  have "\<forall>b e. kmap s' (page_table space') b = Some e \<longrightarrow> bit e 4 \<longrightarrow> PTE2PA e = st \<or> PTE2PA e = tx"
    using i(4) by blast
  moreover have "st \<noteq> tx" using i(3) by simp
  ultimately show ?thesis using i(1,2) by blast
qed

text \<open>
  Only the first page of the program is loaded: whatever the length of the text, the page of
  the area \<^verbatim>\<open>.text\<close> that follows the first has no frame, and reading it does not translate.
\<close>

lemma init_text_first_page_only:
  assumes "bitflags_ok B" and "linker_ok L" and "kstate_wf s" and "4096 < length init_text"
    and "length init_text < 2 ^ 30" and "9 \<le> card (kfree s)"
  shows "\<exists>space s'. make_init B L 0x1000 init_text s = Inr (space, s') \<and>
     kmap s' (page_table space) TEXT_BASE_USER_VA \<noteq> None \<and>
     kmap s' (page_table space) (TEXT_BASE_USER_VA + 0x1000) = None"
proof -
  from make_init_spec [OF assms(1-3,5,6)] obtain space s' st tx where
    i: "make_init B L 0x1000 init_text s = Inr (space, s')" "space_since s s' space"
    "virt_areas space = init_areas L (length init_text) st tx" "page_aligned st" "page_aligned tx"
    by blast
  let ?areas = "init_areas L (length init_text) st tx"
  have inv: "space_inv s' space" using i(2) by (simp add: space_since_def)
  note ar = init_areas_facts [OF assms(2,5) i(4,5)]
  have tp: "2 \<le> text_pages (length init_text)"
    using assms(4) div_le_mono [of 8192 "length init_text + 4095" 4096] by (simp add: text_pages_def)
  have "TEXT_BASE_USER_VA + 0x1000 = page_at 17"
    by (simp add: TEXT_BASE page_at_def)
  then have "\<forall>x \<in> set (all_pages (virt_areas space)). \<not> same_page (fst x) (TEXT_BASE_USER_VA + 0x1000)"
    using tp text_pages_less [OF assms(5)] by (simp add: i(3) ar(2) same_page_at tramp_pno_def)
  then have "kmap s' (page_table space) (TEXT_BASE_USER_VA + 0x1000) = None"
    by (rule space_inv_unmapped [OF inv])
  moreover have "add_areas ?areas (\<lambda>_. None) TEXT_BASE_USER_VA \<noteq> None"
    using frame_area_facts(3) [OF _ i(5), of TEXT_BASE_USER_VA] add_areas_in [OF ar(1) _ _ same_page_refl,
        of "frame_area ''.text'' 26 TEXT_BASE_USER_VA (page_at (16 + text_pages (length init_text))) tx"]
    by (simp add: init_areas_def TEXT_BASE page_at(2))
  ultimately show ?thesis
    using i(1,3) inv by (auto simp: space_inv_def)
qed

end
