(* ===== verification/Process.thy ===== *)
theory Process
  imports Context User_Theorems
begin

text \<open>
  \<^verbatim>\<open>kernel/src/process/process.rs\<close>: process control blocks, kernel stacks, and the preparation of the
  first process.  The lock of \<open>inner\<close> is held by each operation for its whole run, so an operation
  takes the inner state and returns it.  The addresses of code that the linker fixes are the
  record \<open>C\<close>; the trampoline section starts with \<^verbatim>\<open>__uservec\<close>, fits in one page and is the page
  \<open>ld_trampoline_start\<close> of the layout, handlers are aligned, and statics without a value lie in the
  section \<^verbatim>\<open>.bss\<close>.
\<close>

section \<open>Addresses of code\<close>

record code_symbols =
  sym_uservec :: usize
  sym_userret :: usize
  sym_kernelvec :: usize
  sym_timervec :: usize
  sym_usertrap :: usize
  sym_kmain :: usize
  sym_timer_scratches :: usize

definition code_ok :: "linker_symbols \<Rightarrow> code_symbols \<Rightarrow> bool" where
  "code_ok L C \<longleftrightarrow> sym_uservec C = ld_trampoline_start L \<and> sym_uservec C \<le> sym_userret C \<and>
     sym_userret C - sym_uservec C < 4096 \<and> sym_kernelvec C AND 3 = 0 \<and> sym_timervec C AND 3 = 0 \<and>
     ld_bss_start L \<le> sym_timer_scratches C \<and> unat (sym_timer_scratches C) + 384 \<le> unat (ld_bss_end L)"

section \<open>Process control blocks\<close>

datatype proc_status = RUNNING | RUNNABLE | ZOMBIE

record pcb_inner =
  trap_context :: "phys_addr option"
  user_addr_space :: "addr_space option"
  proc_status :: proc_status

record kernel_stack_guard =
  stack_inner :: frame_guard

record process_control_block =
  pid :: usize
  kernel_stack :: kernel_stack_guard
  inner :: pcb_inner

definition initialise_trap_context :: "pcb_inner \<Rightarrow> phys_addr \<Rightarrow> pcb_inner" where
  "initialise_trap_context i ctx = i\<lparr>trap_context := Some ctx\<rparr>"

text \<open>The closure may also change the state of the machine, and returns a value.\<close>

definition write_trap_context ::
  "pcb_inner \<Rightarrow> (trap_context \<Rightarrow> 'a mm_state_scheme \<Rightarrow> (('t \<times> trap_context) \<times> 'a mm_state_scheme) result)
     \<Rightarrow> 'a mm_state_scheme \<Rightarrow> ('t \<times> 'a mm_state_scheme) result" where
  "write_trap_context i f h =
     and_then (expect ''PCBInner::modify_trap_context: uninitialised trap context'' (trap_context i)) (\<lambda>ptr.
     and_then (f (context_at (phys_mem (kern h)) (pa_as_usize ptr)) h) (\<lambda>((t, c), h').
       Ok (t, h'\<lparr>kern := (kern h')\<lparr>phys_mem := put_context (phys_mem (kern h')) (pa_as_usize ptr) c\<rparr>\<rparr>)))"

definition write_user_space ::
  "pcb_inner \<Rightarrow> (addr_space \<Rightarrow> 's \<Rightarrow> (('t \<times> addr_space) \<times> 's) result) \<Rightarrow> 's
     \<Rightarrow> (('t \<times> pcb_inner) \<times> 's) result" where
  "write_user_space i f s =
     and_then (expect ''PCBInner::modify_user_space: unitialised user address space'' (user_addr_space i)) (\<lambda>space.
     and_then (f space s) (\<lambda>((t, space'), s'). Ok ((t, i\<lparr>user_addr_space := Some space'\<rparr>), s')))"

definition get_user_space_ref :: "pcb_inner \<Rightarrow> addr_space result" where
  "get_user_space_ref i =
     (case user_addr_space i of
        Some space \<Rightarrow> Ok space
      | None \<Rightarrow> Panic (ExplicitPanic ''uninitialised user address space''))"

definition get_context_ref :: "pcb_inner \<Rightarrow> pmem \<Rightarrow> trap_context result" where
  "get_context_ref i m =
     and_then (expect ''PCBInner::modify_trap_context: uninitialised trap context'' (trap_context i)) (\<lambda>ptr.
       Ok (context_at m (pa_as_usize ptr)))"

definition first_execution_init ::
  "bitflags_ops \<Rightarrow> linker_symbols \<Rightarrow> code_symbols \<Rightarrow> usize \<Rightarrow> pcb_inner \<Rightarrow> phys_addr
     \<Rightarrow> 'a mm_state_scheme \<Rightarrow> (pcb_inner \<times> 'a mm_state_scheme) result" where
  "first_execution_init B L C vps i kernel_stack_pa h =
     and_then (write_user_space i (init_trapframe B) (kern h)) (\<lambda>((trapframe_pa, i1), s1).
     let h1 = h\<lparr>kern := s1\<rparr>;
         i2 = initialise_trap_context i1 trapframe_pa
     in and_then (get_user_space_ref i2) (\<lambda>user_space.
        and_then (addr_space_verify B user_space (phys_mem s1)) (\<lambda>_.
        and_then (addr_space_translate B user_space (VirtAddr TRAPFRAME_BASE_USER_VA) (phys_mem s1)) (\<lambda>r.
        and_then (unwrap r) (\<lambda>(translated_trapframe_pa, _).
        and_then (rust_assert '''' (trapframe_pa = translated_trapframe_pa)) (\<lambda>_.
        and_then (write_trap_context i2 (\<lambda>ctx h2.
            and_then (set_kernel_stack vps ctx kernel_stack_pa) (\<lambda>ctx1.
            let ctx2 = set_trap_handler ctx1 (VirtAddr (sym_usertrap C));
                ctx3 = set_user_space_pc ctx2 (VirtAddr TEXT_BASE_USER_VA)
            in and_then (KERNEL_ADDRESS_SPACE_force B L h2) (\<lambda>(kspace, h3).
                 Ok (((), set_kernel_page_table ctx3 (addr_space_make_satp kspace)), h3)))) h1) (\<lambda>(_, h4).
          Ok (i2, h4))))))))"

section \<open>Kernel stacks\<close>

definition kernel_stack_allocate :: "kstate \<Rightarrow> (kernel_stack_guard \<times> kstate) result" where
  "kernel_stack_allocate s =
     and_then (allocate_zeroed s) (\<lambda>(g, s').
     and_then (get_frame g) (\<lambda>f.
     and_then (frame_get_base_phys_addr f) (\<lambda>_. Ok (\<lparr>stack_inner = g\<rparr>, s'))))"

definition kernel_stack_from_frame :: "frame \<Rightarrow> kernel_stack_guard" where
  "kernel_stack_from_frame f = \<lparr>stack_inner = frame_guard_from_frame f\<rparr>"

definition kernel_stack_frame :: "kernel_stack_guard \<Rightarrow> frame result" where
  "kernel_stack_frame k = get_frame (stack_inner k)"

text \<open>The destructor prints the address; the guard inside then returns the frame.\<close>

definition kernel_stack_drop :: "kernel_stack_guard \<Rightarrow> kstate \<Rightarrow> kstate result" where
  "kernel_stack_drop k s =
     and_then (get_frame (stack_inner k)) (\<lambda>f.
     and_then (frame_get_base_phys_addr f) (\<lambda>_. frame_guard_drop (stack_inner k) s))"

section \<open>The life of a block\<close>

definition pcb_allocate :: "usize \<Rightarrow> kstate \<Rightarrow> (process_control_block \<times> kstate) result" where
  "pcb_allocate p s =
     and_then (kernel_stack_allocate s) (\<lambda>(k, s').
       Ok (\<lparr>pid = p, kernel_stack = k,
            inner = \<lparr>trap_context = None, user_addr_space = None, proc_status = RUNNABLE\<rparr>\<rparr>, s'))"

definition get_pid :: "process_control_block \<Rightarrow> usize" where
  "get_pid pcb = pid pcb"

definition get_kernel_stack_phys_addr :: "process_control_block \<Rightarrow> phys_addr result" where
  "get_kernel_stack_phys_addr pcb =
     and_then (kernel_stack_frame (kernel_stack pcb)) frame_get_base_phys_addr"

definition pcb_first_execution_init ::
  "bitflags_ops \<Rightarrow> linker_symbols \<Rightarrow> code_symbols \<Rightarrow> usize \<Rightarrow> process_control_block
     \<Rightarrow> 'a mm_state_scheme \<Rightarrow> (process_control_block \<times> 'a mm_state_scheme) result" where
  "pcb_first_execution_init B L C vps pcb h =
     and_then (get_kernel_stack_phys_addr pcb) (\<lambda>pa.
     and_then (first_execution_init B L C vps (inner pcb) pa h) (\<lambda>(i, h').
       Ok (pcb\<lparr>inner := i\<rparr>, h')))"

text \<open>The destructor prints; the fields are dropped in the order of their declaration.\<close>

definition pcb_drop :: "process_control_block \<Rightarrow> kstate \<Rightarrow> kstate result" where
  "pcb_drop pcb s =
     and_then (kernel_stack_drop (kernel_stack pcb) s) (\<lambda>s1.
       case user_addr_space (inner pcb) of
         None \<Rightarrow> Ok s1
       | Some space \<Rightarrow> addr_space_drop space s1)"

text \<open>\<open>init_text\<close> is the program of \<open>init_code_bytes\<close>, which the build puts into the kernel.\<close>

definition make_initcode_uninitialised ::
  "bitflags_ops \<Rightarrow> linker_symbols \<Rightarrow> code_symbols \<Rightarrow> usize \<Rightarrow> u8 list \<Rightarrow> usize
     \<Rightarrow> 'a mm_state_scheme \<Rightarrow> (process_control_block \<times> 'a mm_state_scheme) result" where
  "make_initcode_uninitialised B L C vps init_text p h =
     and_then (pcb_allocate p (kern h)) (\<lambda>(pcb, s1).
     and_then (make_init B L vps init_text s1) (\<lambda>(space, s2).
     let i = (inner pcb)\<lparr>user_addr_space := Some space\<rparr>
     in and_then (get_kernel_stack_phys_addr pcb) (\<lambda>pa.
        and_then (first_execution_init B L C vps i pa (h\<lparr>kern := s2\<rparr>)) (\<lambda>(i', h').
        and_then (rust_assert '''' (pid pcb = 0)) (\<lambda>_.
          Ok (pcb\<lparr>inner := i'\<rparr>, h'))))))"

section \<open>The first execution\<close>

text \<open>Writing to a frame of an area leaves the space as it is.\<close>

lemma space_since_write:
  assumes since: "space_since s0 s space" and a: "a \<in> set (concat (map area_owned (virt_areas space)))"
    and m: "\<And>x. page_of x \<noteq> a \<Longrightarrow> m x = phys_mem s x"
  shows "space_since s0 (s\<lparr>phys_mem := m\<rparr>) space"
proof -
  let ?pt = "page_table space" and ?s = "s\<lparr>phys_mem := m\<rparr>"
  have inv: "space_inv s space" and pinv: "pt_inv s ?pt"
    using since by (simp_all add: space_since_def space_inv_def)
  have "a \<notin> set (node_addrs ?pt)" using owned_used(3) [OF inv] a by blast
  then have fr: "phys_mem ?s x = phys_mem s x" if "page_of x \<in> set (node_addrs ?pt)" for x
    using that m [of x] by fastforce
  have wf: "kstate_wf ?s" "set (node_addrs ?pt) \<subseteq> kused ?s"
    using pt_invD(1,4) [OF pinv] by (simp_all add: kstate_wf_def)
  have pf: "pt_inv ?s ?pt" "kmap ?s ?pt = kmap s ?pt"
    by (rule pt_frame [OF pinv _ wf], rule fr, assumption)+
  have "space_inv ?s space"
    using inv pf by (simp add: space_inv_def)
  moreover have "a \<in> set (space_frames space)" using a by (simp add: space_frames_def)
  then have "phys_mem ?s x = phys_mem s0 x" if "page_of x \<notin> set (space_frames space)" for x
    using that m [of x] since by (auto simp: space_since_def)
  ultimately show ?thesis
    using since by (simp add: space_since_def)
qed

lemma translate_mapped:
  assumes B: "bitflags_ok B" and inv: "pt_inv s (page_table space)" and e: "kmap s (page_table space) a = Some e"
  shows "addr_space_translate B space (VirtAddr a) (phys_mem s) =
    Inr (Some (PhysAddr (PTE2PA e OR (a AND 12)), page_flags_from (PTEFlags (entry_flags e))))"
proof -
  obtain c where "leaf_addr (phys_mem s) (pt_root (page_table space)) a = Some c" "load_usize (phys_mem s) c = e"
    using e by (auto simp: pt_map_def split: option.splits if_splits)
  then show ?thesis
    by (simp add: addr_space_translate_def translate_char [OF B inv])
qed

lemma space_maps_area:
  assumes "space_inv s space" and "area \<in> set (virt_areas space)" and "(va, pa) \<in> set (area_pages area)"
  shows "kmap s (page_table space) va = Some (entry_for pa (area_flags area OR 1))"
  using assms add_areas_in [OF _ assms(2,3) same_page_refl] by (simp add: space_inv_def)

lemma context_of_zeros:
  assumes "page_aligned p" and z: "\<And>k. k < 4096 \<Longrightarrow> m (p + of_nat k) = 0"
  shows "context_at m p = \<lparr>user_regs = replicate 32 0, kernel_satp = 0, kernel_sp = 0, kernel_hardid = 0,
    context_sepc = 0, trap_handler = 0\<rparr>"
proof -
  have ld: "load_usize m (cell p (of_nat i)) = 0" if "i < 37" for i
  proof (rule load_usize_zero)
    fix k :: nat assume k: "k < 8"
    have "unat (of_nat i :: usize) = i" using that by (intro unat_of_nat_small) simp
    then show "m (cell p (of_nat i) + of_nat k) = 0"
      using z [of "8 * i + k"] that k by (simp add: cell_def algebra_simps)
  qed
  then have "map (\<lambda>i. load_usize m (cell p (of_nat i))) [0..<32] = replicate 32 0"
    by (intro nth_equalityI) (simp_all del: upt_rec_numeral)
  then show ?thesis
    using ld [of 32] ld [of 33] ld [of 34] ld [of 35] ld [of 36] by (simp add: context_at_def)
qed

definition first_context :: "code_symbols \<Rightarrow> usize \<Rightarrow> usize \<Rightarrow> trap_context" where
  "first_context C satp sp =
     \<lparr>user_regs = replicate 32 0, kernel_satp = satp, kernel_sp = sp, kernel_hardid = 0,
      context_sepc = TEXT_BASE_USER_VA, trap_handler = sym_usertrap C\<rparr>"

lemma first_execution_spec:
  assumes B: "bitflags_ok B" and since: "space_since s0 (kern h) space"
    and i: "user_addr_space i = Some space" and ks: "KERNEL_ADDRESS_SPACE h = Some kspace"
    and ap: "\<forall>x \<in> set (all_pages (virt_areas space)). \<not> same_page (fst x) TRAPFRAME_BASE_USER_VA"
    and free: "3 \<le> card (kfree (kern h))" and st: "page_aligned st" "unat st + 4096 < 2 ^ 64"
  shows "\<exists>tf space' s'. first_execution_init B L C 0x1000 i (PhysAddr st) h =
      Inr (i\<lparr>trap_context := Some (PhysAddr tf), user_addr_space := Some space'\<rparr>, h\<lparr>kern := s'\<rparr>) \<and>
    space_since s0 s' space' \<and> virt_areas space' = virt_areas space @ [trap_area tf] \<and> page_aligned tf \<and>
    context_at (phys_mem s') tf = first_context C (addr_space_make_satp kspace) (st + 0x1000) \<and>
    (\<forall>x. page_of x \<in> set (concat (map area_owned (virt_areas space))) \<longrightarrow> phys_mem s' x = phys_mem (kern h) x) \<and>
    card (kfree (kern h)) \<le> card (kfree s') + 3"
proof -
  from init_trapframe_spec [OF B since ap free] obtain tf space' s1 where
    t: "init_trapframe B space (kern h) = Inr ((PhysAddr tf, space'), s1)" "space_since s0 s1 space'"
    "virt_areas space' = virt_areas space @ [trap_area tf]" "page_aligned tf"
    "\<forall>k < 4096. phys_mem s1 (tf + of_nat k) = 0"
    "\<forall>x. page_of x \<in> set (concat (map area_owned (virt_areas space))) \<longrightarrow> phys_mem s1 x = phys_mem (kern h) x"
    "card (kfree (kern h)) \<le> card (kfree s1) + 3"
    by blast
  have inv: "space_inv s1 space'" and pinv: "pt_inv s1 (page_table space')"
    using t(2) by (simp_all add: space_since_def space_inv_def)
  have ver: "addr_space_verify B space' (phys_mem s1) = Inr ()"
    using inv by (intro addr_space_verify_ok [OF B]) (simp_all add: space_inv_def)
  have "kmap s1 (page_table space') TRAPFRAME_BASE_USER_VA = Some (entry_for tf 7)"
    using space_maps_area [OF inv, of "trap_area tf" TRAPFRAME_BASE_USER_VA tf] trap_area_facts [OF t(4)]
    by (simp add: t(3))
  moreover have "PTE2PA (entry_for tf 7) = tf"
    using PTE2PA_entry_for [of 7 tf] t(4) by (simp add: mask_eq_exp_minus_1 page_aligned_page_of)
  ultimately have tr: "\<exists>f. addr_space_translate B space' (VirtAddr TRAPFRAME_BASE_USER_VA) (phys_mem s1) =
      Inr (Some (PhysAddr tf, f))"
    using translate_mapped [OF B pinv] by (simp add: TRAPFRAME_BASE_USER_VA_value)
  let ?c = "first_context C (addr_space_make_satp kspace) (st + 0x1000)"
  let ?s = "s1\<lparr>phys_mem := put_context (phys_mem s1) tf ?c\<rparr>"
  have c0: "context_at (phys_mem s1) tf = \<lparr>user_regs = replicate 32 0, kernel_satp = 0, kernel_sp = 0,
      kernel_hardid = 0, context_sepc = 0, trap_handler = 0\<rparr>"
    using t(5) by (intro context_of_zeros [OF t(4)]) simp
  have len: "length (user_regs ?c) = 32" by (simp add: first_context_def)
  have own: "tf \<in> set (concat (map area_owned (virt_areas space')))"
    using trap_area_facts(4) [OF t(4)] by (simp add: t(3))
  have since': "space_since s0 ?s space'"
    by (rule space_since_write [OF t(2) own]) (simp add: put_context_frame [OF t(4) len])
  have "first_execution_init B L C 0x1000 i (PhysAddr st) h =
      Inr (i\<lparr>trap_context := Some (PhysAddr tf), user_addr_space := Some space'\<rparr>, h\<lparr>kern := ?s\<rparr>)"
    using t(1) i ver tr ks st
    by (auto simp: first_execution_init_def write_user_space_def initialise_trap_context_def
        get_user_space_ref_def write_trap_context_def c0 set_kernel_stack_def set_trap_handler_def
        set_user_space_pc_def KERNEL_ADDRESS_SPACE_force_def set_kernel_page_table_def first_context_def)
  moreover have "context_at (phys_mem ?s) tf = ?c"
    using context_roundtrip [OF t(4) len] by simp
  moreover have "phys_mem ?s x = phys_mem (kern h) x"
    if x: "page_of x \<in> set (concat (map area_owned (virt_areas space)))" for x
  proof -
    have "distinct (concat (map area_owned (virt_areas space')))"
      using inv by (simp add: space_inv_def space_frames_def)
    then have "tf \<notin> set (concat (map area_owned (virt_areas space)))"
      using trap_area_facts(4) [OF t(4)] by (simp add: t(3) del: set_concat)
    then have "page_of x \<noteq> tf" using x by blast
    then show ?thesis
      using t(6) x put_context_frame [OF t(4) len] by (simp del: set_concat)
  qed
  moreover have "card (kfree (kern h)) \<le> card (kfree ?s) + 3" using t(7) by simp
  ultimately show ?thesis
    using since' t(3,4) by blast
qed

section \<open>The block of the first process\<close>

text \<open>A block owns its kernel stack and the frames of its space, all taken since \<open>s0\<close>.\<close>

definition pcb_since :: "kstate \<Rightarrow> kstate \<Rightarrow> process_control_block \<Rightarrow> usize \<Rightarrow> addr_space \<Rightarrow> bool" where
  "pcb_since s0 s pcb st space \<longleftrightarrow>
     kernel_stack pcb = \<lparr>stack_inner = guard_at st\<rparr> \<and> user_addr_space (inner pcb) = Some space \<and>
     space_inv s space \<and> same_heap (FRAME_ALLOCATOR s0) (FRAME_ALLOCATOR s) \<and> page_aligned st \<and>
     distinct (st # space_frames space) \<and> set (st # space_frames space) \<subseteq> kfree s0 \<and>
     kused s = kused s0 \<union> set (st # space_frames space) \<and> kfree s = kfree s0 - set (st # space_frames space) \<and>
     (\<forall>x. page_of x \<notin> set (st # space_frames space) \<longrightarrow> phys_mem s x = phys_mem s0 x)"

lemma pcb_since_drop:
  assumes wf: "kstate_wf s0" and p: "pcb_since s0 s pcb st space"
  shows "pcb_drop pcb s = Inr (s\<lparr>FRAME_ALLOCATOR := FRAME_ALLOCATOR s0\<rparr>)"
proof -
  have inv: "pt_inv s (page_table space)" and k: "kernel_stack pcb = \<lparr>stack_inner = guard_at st\<rparr>"
    and g: "\<forall>area \<in> set (virt_areas space). \<forall>g \<in> snd ` set (virt_frames area). guard_ok g"
    and u: "user_addr_space (inner pcb) = Some space" and al: "page_aligned st"
    using p by (simp_all add: pcb_since_def space_inv_def)
  have "kused s0 \<inter> set (st # space_frames space) = {}"
    using p free_used_disjoint [of "FRAME_ALLOCATOR s0"] wf by (auto simp: pcb_since_def kstate_wf_def)
  then have "for_each (map guard_at (st # space_frames space)) frame_guard_drop s =
      Inr (s\<lparr>FRAME_ALLOCATOR := FRAME_ALLOCATOR s0\<rparr>)"
    using p by (intro guards_drop_restores [OF wf pt_invD(1) [OF inv]]) (simp_all add: pcb_since_def)
  moreover have "kernel_stack_drop (kernel_stack pcb) s = frame_guard_drop (guard_at st) s"
    using al by (simp add: kernel_stack_drop_def k get_frame_def guard_at_def page_aligned_page_of)
  ultimately show ?thesis
    by (simp add: pcb_drop_def u space_drop_eq [OF inv g])
qed

lemma pcb_sinceI:
  assumes wf: "kstate_wf s0" and st: "st \<in> kfree s0" "page_aligned st" "kfree s1 = kfree s0 - {st}"
    "kused s1 = insert st (kused s0)" "same_heap (FRAME_ALLOCATOR s0) (FRAME_ALLOCATOR s1)"
    "\<And>x. page_of x \<noteq> st \<Longrightarrow> phys_mem s1 x = phys_mem s0 x"
    and sp: "space_since s1 s space"
    and k: "kernel_stack pcb = \<lparr>stack_inner = guard_at st\<rparr>" "user_addr_space (inner pcb) = Some space"
  shows "pcb_since s0 s pcb st space"
proof -
  have inv: "space_inv s space" and sub: "set (space_frames space) \<subseteq> kfree s0 - {st}"
    using sp st(3) by (simp_all add: space_since_def)
  have "distinct (st # space_frames space)"
    using inv sub by (auto simp: space_inv_def)
  moreover have "phys_mem s x = phys_mem s0 x" if "page_of x \<notin> set (st # space_frames space)" for x
    using that sp st(6) [of x] by (simp add: space_since_def)
  ultimately show ?thesis
    using assms(2-6) sp k inv sub by (auto simp: pcb_since_def space_since_def same_heap_def)
qed

lemma heap_frame_small:
  assumes "linker_ok L" and "heap_ok L s" and "a \<in> kfree s \<union> kused s"
  shows "unat a + 4096 \<le> 0x88000000" and "page_aligned a" and "a < 2 ^ 56"
proof -
  have p: "pno a < 0x88000" "page_aligned a" using heap_frames_mapped(2,3) [OF assms] by auto
  then show "unat a + 4096 \<le> 0x88000000" "page_aligned a"
    by (auto simp: pno_def page_aligned_def)
  then show "a < 2 ^ 56" by (simp add: word_less_nat_alt)
qed

lemma make_initcode_spec:
  assumes B: "bitflags_ok B" and L: "linker_ok L" and hp: "heap_ok L (kern h)"
    and ks: "KERNEL_ADDRESS_SPACE h = Some kspace" and len: "length init_text < 2 ^ 30"
    and free: "13 \<le> card (kfree (kern h))"
  shows "\<exists>pcb s' st tx sk tf space. make_initcode_uninitialised B L C 0x1000 init_text 0 h = Inr (pcb, h\<lparr>kern := s'\<rparr>) \<and>
     pid pcb = 0 \<and> proc_status (inner pcb) = RUNNABLE \<and> trap_context (inner pcb) = Some (PhysAddr tf) \<and>
     pcb_since (kern h) s' pcb sk space \<and>
     virt_areas space = init_areas L (length init_text) st tx @ [trap_area tf] \<and>
     page_aligned st \<and> page_aligned tx \<and> page_aligned tf \<and>
     context_at (phys_mem s') tf = first_context C (addr_space_make_satp kspace) (sk + 0x1000) \<and>
     (\<forall>k < 4096. phys_mem s' (tx + of_nat k) = (if k < length init_text then init_text ! k else 0)) \<and>
     card (kfree (kern h)) \<le> card (kfree s') + 13"
proof -
  have wf: "kstate_wf (kern h)" using hp by (simp add: heap_ok_def)
  have "kfree (kern h) \<noteq> {}" using free by auto
  from allocate_zeroed_spec [OF wf this] obtain sk s1 where
    k: "allocate_zeroed (kern h) = Inr (guard_at sk, s1)" "sk \<in> kfree (kern h)" "page_aligned sk"
    "kfree s1 = kfree (kern h) - {sk}" "kused s1 = insert sk (kused (kern h))" "kstate_wf s1"
    "same_heap (FRAME_ALLOCATOR (kern h)) (FRAME_ALLOCATOR s1)"
    "phys_mem s1 = store_bytes 4096 (\<lambda>_. 0) sk (phys_mem (kern h))"
    by (elim exE conjE) (rule that; assumption)
  have c: "card (kfree (kern h)) = Suc (card (kfree s1))"
    using card_free_remove [OF k(2)] k(4) by simp
  then have "9 \<le> card (kfree s1)" using free by simp
  from make_init_spec [OF B L k(6) len this] obtain space s2 st tx where
    i: "make_init B L 0x1000 init_text s1 = Inr (space, s2)" "space_since s1 s2 space"
    "virt_areas space = init_areas L (length init_text) st tx" "page_aligned st" "page_aligned tx"
    "\<forall>k < 4096. phys_mem s2 (tx + of_nat k) = (if k < length init_text then init_text ! k else 0)"
    "card (kfree s1) \<le> card (kfree s2) + 9"
    by (elim exE conjE) (rule that; assumption)
  let ?i = "\<lparr>trap_context = None, user_addr_space = Some space, proc_status = RUNNABLE\<rparr>"
  let ?h = "h\<lparr>kern := s2\<rparr>"
  have sk: "unat sk + 4096 < 2 ^ 64" using heap_frame_small(1) [OF L hp, of sk] k(2) by simp
  have pre: "space_since s1 (kern ?h) space" "user_addr_space ?i = Some space" "KERNEL_ADDRESS_SPACE ?h = Some kspace"
    "\<forall>x \<in> set (all_pages (virt_areas space)). \<not> same_page (fst x) TRAPFRAME_BASE_USER_VA" "3 \<le> card (kfree (kern ?h))"
    using i(2,7) ks c free init_areas_apart_trapframe [OF L len i(4,5)] by (simp_all add: i(3))
  from first_execution_spec [OF B pre k(3) sk, of L C] obtain tf space' s3 where
    f: "first_execution_init B L C 0x1000 ?i (PhysAddr sk) ?h =
        Inr (?i\<lparr>trap_context := Some (PhysAddr tf), user_addr_space := Some space'\<rparr>, ?h\<lparr>kern := s3\<rparr>)"
    "space_since s1 s3 space'" "virt_areas space' = virt_areas space @ [trap_area tf]" "page_aligned tf"
    "context_at (phys_mem s3) tf = first_context C (addr_space_make_satp kspace) (sk + 0x1000)"
    "\<forall>x. page_of x \<in> set (concat (map area_owned (virt_areas space))) \<longrightarrow> phys_mem s3 x = phys_mem (kern ?h) x"
    "card (kfree (kern ?h)) \<le> card (kfree s3) + 3"
    by (elim exE conjE) (rule that; assumption)
  let ?pcb = "\<lparr>pid = 0, kernel_stack = \<lparr>stack_inner = guard_at sk\<rparr>,
     inner = ?i\<lparr>trap_context := Some (PhysAddr tf), user_addr_space := Some space'\<rparr>\<rparr>"
  have "make_initcode_uninitialised B L C 0x1000 init_text 0 h = Inr (?pcb, h\<lparr>kern := s3\<rparr>)"
    using k(1,3) i(1) f(1)
    by (simp add: make_initcode_uninitialised_def pcb_allocate_def kernel_stack_allocate_def get_frame_def
        get_kernel_stack_phys_addr_def kernel_stack_frame_def)
       (simp add: guard_at_def page_aligned_page_of)
  moreover have "pcb_since (kern h) s3 ?pcb sk space'"
    by (rule pcb_sinceI [OF wf k(2-5,7) _ f(2)]) (use k(3,8) in \<open>simp_all add: store_bytes_page\<close>)
  moreover have "phys_mem s3 (tx + of_nat n) = (if n < length init_text then init_text ! n else 0)"
    if "n < 4096" for n
  proof -
    have "tx \<in> set (concat (map area_owned (virt_areas space)))"
      using init_areas_facts(3) [OF L len i(4,5)] by (simp add: i(3))
    then show ?thesis
      using f(6) i(6) page_of_add [OF i(5) that] that by (simp del: set_concat)
  qed
  moreover have "card (kfree (kern h)) \<le> card (kfree s3) + 13" using c i(7) f(7) by simp
  ultimately show ?thesis
    using i(3-5) f(3-5)
    by (intro exI [of _ ?pcb] exI [of _ s3] exI [of _ st] exI [of _ tx] exI [of _ sk] exI [of _ tf]
        exI [of _ space']) simp
qed

end
