(* ===== verification/Resource_Table.thy ===== *)
theory Resource_Table
  imports Prelude
begin

text \<open>
  \<^verbatim>\<open>kernel/src/common/resource_table.rs\<close>: the table that hands out process ids.  The free ids
  are a \<open>BTreeSet\<close>, a sorted list without duplicates; the slots are a \<open>HashMap\<close> of the crate
  \<^verbatim>\<open>hashbrown\<close>, whose operations are the argument \<open>H\<close>, and \<open>hash_map_ok\<close> states what its
  documentation promises.  An \<open>Arc<T>\<close> is a value of the type variable \<open>'t\<close>.  The locks only
  serialise access, and each operation here is what runs between locking and unlocking.
\<close>

section \<open>The hash map\<close>

record ('m, 'v) hash_ops =
  hm_new :: 'm
  hm_get :: "'m \<Rightarrow> usize \<Rightarrow> 'v option"
  hm_insert :: "'m \<Rightarrow> usize \<Rightarrow> 'v \<Rightarrow> 'v option \<times> 'm"
  hm_assign :: "'m \<Rightarrow> usize \<Rightarrow> 'v \<Rightarrow> 'm"     \<comment> \<open>assignment through the reference of \<open>get_mut\<close>\<close>
  hm_remove :: "'m \<Rightarrow> usize \<Rightarrow> 'v option \<times> 'm"

definition hash_map_ok :: "('m, 'v) hash_ops \<Rightarrow> bool" where
  "hash_map_ok H \<longleftrightarrow>
     (\<forall>k. hm_get H (hm_new H) k = None) \<and>
     (\<forall>m k v. fst (hm_insert H m k v) = hm_get H m k \<and>
        hm_get H (snd (hm_insert H m k v)) = (hm_get H m)(k \<mapsto> v)) \<and>
     (\<forall>m k v. hm_get H m k \<noteq> None \<longrightarrow> hm_get H (hm_assign H m k v) = (hm_get H m)(k \<mapsto> v)) \<and>
     (\<forall>m k. fst (hm_remove H m k) = hm_get H m k \<and>
        hm_get H (snd (hm_remove H m k)) = (hm_get H m)(k := None))"

lemma hash_map_okD:
  assumes "hash_map_ok H"
  shows "hm_get H (hm_new H) k = None"
    and "fst (hm_insert H m k v) = hm_get H m k"
    and "hm_get H (snd (hm_insert H m k v)) = (hm_get H m)(k \<mapsto> v)"
    and "hm_get H m k \<noteq> None \<Longrightarrow> hm_get H (hm_assign H m k v) = (hm_get H m)(k \<mapsto> v)"
    and "hm_get H (snd (hm_remove H m k)) = (hm_get H m)(k := None)"
  using assms unfolding hash_map_ok_def by blast+

section \<open>The free ids\<close>

record free_slots_inner =
  free_ids :: "usize list"
  capacity :: usize

definition usize_range :: "usize \<Rightarrow> usize \<Rightarrow> usize list" where
  "usize_range a b = map of_nat [unat a..<unat b]"

definition free_slots_new :: "usize \<Rightarrow> free_slots_inner" where
  "free_slots_new cap = \<lparr>free_ids = usize_range 0 cap, capacity = cap\<rparr>"

definition allocate_one :: "free_slots_inner \<Rightarrow> (usize \<times> free_slots_inner) result" where
  "allocate_one fs =
     and_then
       (if free_ids fs = [] then
          and_then (checked_mul (capacity fs) 2) (\<lambda>cap.
            Ok \<lparr>free_ids = fold insort_insert (usize_range (capacity fs) cap) (free_ids fs),
                capacity = cap\<rparr>)
        else Ok fs) (\<lambda>fs'.
     and_then (rust_assert ''!free_ids.is_empty()'' (free_ids fs' \<noteq> [])) (\<lambda>_.
       Ok (hd (free_ids fs'), fs'\<lparr>free_ids := tl (free_ids fs')\<rparr>)))"

definition return_one :: "free_slots_inner \<Rightarrow> usize \<Rightarrow> free_slots_inner result" where
  "return_one fs rid =
     and_then (rust_assert ''free_ids.remove(&id)'' (rid \<in> set (free_ids fs))) (\<lambda>_.
       Ok (fs\<lparr>free_ids := remove1 rid (free_ids fs)\<rparr>))"

section \<open>The table\<close>

record 'm resource_table =
  active_slots :: 'm
  free_slots :: free_slots_inner
  table_name :: string

definition resource_table_new :: "('m, 't option) hash_ops \<Rightarrow> usize \<Rightarrow> 'm resource_table" where
  "resource_table_new H cap =
     \<lparr>active_slots = hm_new H, free_slots = free_slots_new cap, table_name = ''Resource''\<rparr>"

definition table_set_name :: "'m resource_table \<Rightarrow> string \<Rightarrow> 'm resource_table" where
  "table_set_name t name = t\<lparr>table_name := name\<rparr>"

definition reserve_entry ::
  "('m, 't option) hash_ops \<Rightarrow> 'm resource_table \<Rightarrow> (usize \<times> 'm resource_table) result" where
  "reserve_entry H t =
     and_then (allocate_one (free_slots t)) (\<lambda>(rid, fs).
       case hm_insert H (active_slots t) rid None of
         (Some _, _) \<Rightarrow> Panic (ExplicitPanic ''Table::reserve: id collision'')
       | (None, slots) \<Rightarrow> Ok (rid, t\<lparr>active_slots := slots, free_slots := fs\<rparr>))"

definition initialise_entry ::
  "('m, 't option) hash_ops \<Rightarrow> 'm resource_table \<Rightarrow> usize \<Rightarrow> 't \<Rightarrow> 'm resource_table result" where
  "initialise_entry H t rid data =
     and_then (unwrap (hm_get H (active_slots t) rid)) (\<lambda>_.
       Ok (t\<lparr>active_slots := hm_assign H (active_slots t) rid (Some data)\<rparr>))"

definition table_get :: "('m, 't option) hash_ops \<Rightarrow> 'm resource_table \<Rightarrow> usize \<Rightarrow> 't result" where
  "table_get H t rid =
     and_then (expect ''ResourceManager::get_data_ref_mut: internal error'' (hm_get H (active_slots t) rid)) (\<lambda>slot.
       case slot of
         Some data \<Rightarrow> Ok data
       | None \<Rightarrow> Panic (ExplicitPanic ''Manager::get_data: uninitialised resource''))"

definition remove_entry ::
  "('m, 't option) hash_ops \<Rightarrow> 'm resource_table \<Rightarrow> usize \<Rightarrow> 'm resource_table result" where
  "remove_entry H t rid =
     (let t' = t\<lparr>active_slots := snd (hm_remove H (active_slots t) rid)\<rparr>
      in and_then (return_one (free_slots t') rid) (\<lambda>fs. Ok (t'\<lparr>free_slots := fs\<rparr>)))"

section \<open>The contract of a table of handles\<close>

text \<open>
  What the process manager relies on: a reserved handle is new, an initialised one is found, and
  neither operation touches the other handles.
\<close>

locale handle_table =
  fixes invar :: "'s \<Rightarrow> bool"
    and slot :: "'s \<Rightarrow> 'k \<Rightarrow> 'v option option"
    and room :: "'s \<Rightarrow> bool"
    and reserve :: "'s \<Rightarrow> ('k \<times> 's) result"
    and initialise :: "'s \<Rightarrow> 'k \<Rightarrow> 'v \<Rightarrow> 's result"
    and fetch :: "'s \<Rightarrow> 'k \<Rightarrow> 'v result"
  assumes reserve_spec: "invar s \<Longrightarrow> room s \<Longrightarrow> \<exists>k s'. reserve s = Inr (k, s') \<and> slot s k = None \<and>
      slot s' = (slot s)(k \<mapsto> None) \<and> invar s'"
    and initialise_spec: "invar s \<Longrightarrow> slot s k \<noteq> None \<Longrightarrow>
      \<exists>s'. initialise s k v = Inr s' \<and> slot s' = (slot s)(k \<mapsto> Some v) \<and> invar s'"
    and fetch_spec: "invar s \<Longrightarrow> slot s k = Some (Some v) \<Longrightarrow> fetch s k = Inr v"
begin

text \<open>Reserving a handle and initialising it with a value made from the handle.\<close>

definition create :: "('k \<Rightarrow> 'v) \<Rightarrow> 's \<Rightarrow> ('k \<times> 's) result" where
  "create f s = and_then (reserve s) (\<lambda>(k, s1). and_then (initialise s1 k (f k)) (\<lambda>s2. Inr (k, s2)))"

lemma create_spec:
  assumes "invar s" and "room s"
  shows "\<exists>k s'. create f s = Inr (k, s') \<and> slot s k = None \<and> slot s' = (slot s)(k \<mapsto> Some (f k)) \<and>
    invar s' \<and> fetch s' k = Inr (f k)"
proof -
  obtain k s1 where r: "reserve s = Inr (k, s1)" "slot s k = None" "slot s1 = (slot s)(k \<mapsto> None)" "invar s1"
    using reserve_spec [OF assms] by blast
  obtain s2 where i: "initialise s1 k (f k) = Inr s2" "slot s2 = (slot s1)(k \<mapsto> Some (f k))" "invar s2"
    using initialise_spec [OF r(4), of k "f k"] r(3) by auto
  have "slot s2 k = Some (Some (f k))" using i(2) by simp
  from fetch_spec [OF i(3) this] r i show ?thesis by (simp add: create_def)
qed

lemma create_keeps:
  assumes "invar s" and "room s" and "create f s = Inr (k, s')" and "slot s j = Some (Some v)"
  shows "j \<noteq> k" and "fetch s' j = Inr v"
proof -
  obtain k' s'' where c: "create f s = Inr (k', s'')" "slot s k' = None"
    "slot s'' = (slot s)(k' \<mapsto> Some (f k'))" "invar s''"
    using create_spec [OF assms(1,2), of f] by blast
  then have e: "k' = k" "s'' = s'" using assms(3) by auto
  show ne: "j \<noteq> k" using c(2) e assms(4) by auto
  have "slot s' j = Some (Some v)" using ne c(3) e assms(4) by simp
  then show "fetch s' j = Inr v" using fetch_spec c(4) e by blast
qed

end

section \<open>The table meets the contract\<close>

definition slots_inv :: "free_slots_inner \<Rightarrow> usize set \<Rightarrow> bool" where
  "slots_inv fs used \<longleftrightarrow> sorted (free_ids fs) \<and> distinct (free_ids fs) \<and> 0 < capacity fs \<and>
     set (free_ids fs) \<inter> used = {} \<and> set (free_ids fs) \<union> used = {rid. rid < capacity fs}"

abbreviation reserved_ids :: "('m, 'v) hash_ops \<Rightarrow> 'm resource_table \<Rightarrow> usize set" where
  "reserved_ids H t \<equiv> dom (hm_get H (active_slots t))"

definition table_inv :: "('m, 't option) hash_ops \<Rightarrow> 'm resource_table \<Rightarrow> bool" where
  "table_inv H t \<longleftrightarrow> hash_map_ok H \<and> slots_inv (free_slots t) (reserved_ids H t)"

definition table_room :: "'m resource_table \<Rightarrow> bool" where
  "table_room t \<longleftrightarrow> free_ids (free_slots t) \<noteq> [] \<or> unat (capacity (free_slots t)) < 2 ^ 63"

lemma usize_range:
  shows set_usize_range: "set (usize_range a b) = {rid. a \<le> rid \<and> rid < b}"
    and sorted_usize_range: "sorted (usize_range a b)" and distinct_usize_range: "distinct (usize_range a b)"
proof -
  have u: "unat (of_nat n :: usize) = n" if "n < unat b" for n
    using that unat_usize_less [of b] by (intro unat_of_nat_small) simp
  have "rid \<in> of_nat ` {unat a..<unat b}" if "a \<le> rid" "rid < b" for rid
    using that by (intro image_eqI [of _ _ "unat rid"]) (auto simp: word_le_nat_alt word_less_nat_alt)
  then show "set (usize_range a b) = {rid. a \<le> rid \<and> rid < b}"
    by (auto simp: usize_range_def word_le_nat_alt word_less_nat_alt u)
  show "sorted (usize_range a b)"
    unfolding usize_range_def sorted_map
    by (rule sorted_wrt_mono_rel [OF _ sorted_upt]) (auto simp: word_le_nat_alt u)
  have "inj_on (of_nat :: nat \<Rightarrow> usize) {unat a..<unat b}"
    using u by (intro inj_onI) (metis atLeastLessThan_iff)
  then show "distinct (usize_range a b)"
    by (simp add: usize_range_def distinct_map)
qed

lemma fold_insort_insert:
  assumes "sorted xs" and "distinct xs"
  shows "sorted (fold insort_insert ys xs) \<and> distinct (fold insort_insert ys xs) \<and>
    set (fold insort_insert ys xs) = set xs \<union> set ys"
  using assms
  by (induction ys arbitrary: xs) (auto simp: sorted_insort_insert distinct_insort_insert set_insort_insert)

lemma slots_new: "0 < cap \<Longrightarrow> slots_inv (free_slots_new cap) {}"
  by (auto simp: slots_inv_def free_slots_new_def usize_range)

lemma pop_least:
  assumes "slots_inv fs used" and "free_ids fs \<noteq> []"
  shows "slots_inv (fs\<lparr>free_ids := tl (free_ids fs)\<rparr>) (insert (hd (free_ids fs)) used)"
    and "hd (free_ids fs) \<notin> used" and "\<forall>rid. rid < hd (free_ids fs) \<longrightarrow> rid \<in> used"
proof -
  obtain x xs where x: "free_ids fs = x # xs" using assms(2) by (cases "free_ids fs") auto
  show "slots_inv (fs\<lparr>free_ids := tl (free_ids fs)\<rparr>) (insert (hd (free_ids fs)) used)"
    and "hd (free_ids fs) \<notin> used"
    using assms(1) x by (auto simp: slots_inv_def)
  have "x < capacity fs" using assms(1) x by (auto simp: slots_inv_def)
  then have "rid \<in> insert x (set xs \<union> used)" if "rid < x" for rid
    using that assms(1) x unfolding slots_inv_def by auto
  moreover have "rid \<notin> set xs" if "rid < x" for rid
    using that assms(1) x by (auto simp: slots_inv_def)
  ultimately show "\<forall>rid. rid < hd (free_ids fs) \<longrightarrow> rid \<in> used"
    using x by auto
qed

lemma allocate_one_spec:
  assumes inv: "slots_inv fs used" and room: "free_ids fs \<noteq> [] \<or> unat (capacity fs) < 2 ^ 63"
  shows "\<exists>rid fs'. allocate_one fs = Inr (rid, fs') \<and> rid \<notin> used \<and> (\<forall>i. i < rid \<longrightarrow> i \<in> used) \<and>
    slots_inv fs' (insert rid used)"
proof (cases "free_ids fs = []")
  case False
  then show ?thesis using pop_least [OF inv False] by (simp add: allocate_one_def)
next
  case True
  let ?c = "capacity fs"
  let ?fs = "\<lparr>free_ids = fold insort_insert (usize_range ?c (?c * 2)) [], capacity = ?c * 2\<rparr>"
  have "unat ?c < 2 ^ 63" and pos: "0 < ?c" and u: "used = {rid. rid < ?c}"
    using room inv True by (simp_all add: slots_inv_def)
  then have c: "unat ?c * 2 < 2 ^ 64" by simp
  then have "unat (?c * 2) = unat ?c * 2" by (simp add: unat_word_ariths)
  then have lt: "?c < ?c * 2" using pos by (simp add: word_less_nat_alt unat_gt_0)
  have f: "sorted (free_ids ?fs)" "distinct (free_ids ?fs)" "set (free_ids ?fs) = {rid. ?c \<le> rid \<and> rid < ?c * 2}"
    using fold_insort_insert [of "[]" "usize_range ?c (?c * 2)"] by (simp_all add: usize_range)
  have "set (free_ids ?fs) \<union> used = {rid. rid < capacity ?fs}"
    unfolding f(3) u using lt by auto
  moreover have "set (free_ids ?fs) \<inter> used = {}"
    unfolding f(3) u by auto
  moreover have "0 < capacity ?fs" using pos lt by simp
  ultimately have inv': "slots_inv ?fs used"
    using f(1,2) unfolding slots_inv_def by (intro conjI)
  have "?c \<in> set (free_ids ?fs)"
    using f(3) lt by simp
  then have ne: "free_ids ?fs \<noteq> []" by auto
  have "allocate_one fs = Inr (hd (free_ids ?fs), ?fs\<lparr>free_ids := tl (free_ids ?fs)\<rparr>)"
    using True ne c by (simp add: allocate_one_def)
  with pop_least [OF inv' ne] show ?thesis by blast
qed

lemma table_new: "hash_map_ok H \<Longrightarrow> 0 < cap \<Longrightarrow> table_inv H (resource_table_new H cap)"
  using slots_new by (simp add: table_inv_def resource_table_new_def hash_map_okD(1) dom_def)

lemma reserve_entry_spec:
  assumes inv: "table_inv H t" and "table_room t"
  shows "\<exists>rid t'. reserve_entry H t = Inr (rid, t') \<and> hm_get H (active_slots t) rid = None \<and>
    hm_get H (active_slots t') = (hm_get H (active_slots t))(rid \<mapsto> None) \<and> table_inv H t' \<and>
    (\<forall>i. i < rid \<longrightarrow> i \<in> reserved_ids H t)"
proof -
  have H: "hash_map_ok H" using inv by (simp add: table_inv_def)
  obtain rid fs where al: "allocate_one (free_slots t) = Inr (rid, fs)" "rid \<notin> reserved_ids H t"
    "\<forall>i. i < rid \<longrightarrow> i \<in> reserved_ids H t" "slots_inv fs (insert rid (reserved_ids H t))"
    using allocate_one_spec [of "free_slots t" "reserved_ids H t"] assms
    by (auto simp: table_inv_def table_room_def)
  let ?m = "snd (hm_insert H (active_slots t) rid None)"
  have n: "hm_insert H (active_slots t) rid None = (None, ?m)"
    using hash_map_okD(2) [OF H, of "active_slots t" rid None] al(2) by (cases "hm_insert H (active_slots t) rid None") auto
  have g: "hm_get H ?m = (hm_get H (active_slots t))(rid \<mapsto> None)"
    using hash_map_okD(3) [OF H] .
  have "reserve_entry H t = Inr (rid, t\<lparr>active_slots := ?m, free_slots := fs\<rparr>)"
    using al(1) by (subst reserve_entry_def) (simp, subst n, simp)
  moreover have "hm_get H (active_slots t) rid = None" using al(2) by auto
  moreover have "table_inv H (t\<lparr>active_slots := ?m, free_slots := fs\<rparr>)"
    using al(4) H by (simp add: table_inv_def g)
  ultimately show ?thesis
    using al(3) g by (intro exI [of _ rid] exI [of _ "t\<lparr>active_slots := ?m, free_slots := fs\<rparr>"]) simp
qed

lemma initialise_entry_spec:
  assumes inv: "table_inv H t" and s: "hm_get H (active_slots t) rid \<noteq> None"
  shows "\<exists>t'. initialise_entry H t rid data = Inr t' \<and>
    hm_get H (active_slots t') = (hm_get H (active_slots t))(rid \<mapsto> Some data) \<and> table_inv H t'"
proof -
  have H: "hash_map_ok H" using inv by (simp add: table_inv_def)
  note g = hash_map_okD(4) [OF H s, of "Some data"]
  have "insert rid (reserved_ids H t) = reserved_ids H t" using s by auto
  then show ?thesis
    using s inv g by (auto simp: initialise_entry_def table_inv_def)
qed

interpretation ptable: handle_table "table_inv H" "\<lambda>t. hm_get H (active_slots t)" table_room
  "reserve_entry H" "initialise_entry H" "table_get H" for H :: "('m, 't option) hash_ops"
proof unfold_locales
  fix t :: "'m resource_table" and rid :: usize and data :: 't
  show "\<exists>k s'. reserve_entry H t = Inr (k, s') \<and> hm_get H (active_slots t) k = None \<and>
      hm_get H (active_slots s') = (hm_get H (active_slots t))(k \<mapsto> None) \<and> table_inv H s'"
    if "table_inv H t" "table_room t"
    using reserve_entry_spec [OF that] by blast
  show "\<exists>s'. initialise_entry H t rid data = Inr s' \<and>
      hm_get H (active_slots s') = (hm_get H (active_slots t))(rid \<mapsto> Some data) \<and> table_inv H s'"
    if "table_inv H t" "hm_get H (active_slots t) rid \<noteq> None"
    using initialise_entry_spec [OF that] .
  show "table_get H t rid = Inr data" if "table_inv H t" "hm_get H (active_slots t) rid = Some (Some data)"
    using that(2) by (simp add: table_get_def)
qed

section \<open>Properties\<close>

text \<open>A hash map that is a function, for the witnesses.\<close>

definition map_ops :: "(usize \<Rightarrow> 'v option, 'v) hash_ops" where
  "map_ops = \<lparr>hm_new = (\<lambda>_. None), hm_get = (\<lambda>m. m), hm_insert = (\<lambda>m k v. (m k, m(k \<mapsto> v))),
     hm_assign = (\<lambda>m k v. m(k \<mapsto> v)), hm_remove = (\<lambda>m k. (m k, m(k := None)))\<rparr>"

lemma map_ops_ok: "hash_map_ok map_ops"
  by (simp add: hash_map_ok_def map_ops_def)

definition small_table :: "(usize \<Rightarrow> nat option option) resource_table" where
  "small_table = resource_table_new map_ops 1"

lemma small_table: "table_inv map_ops small_table" "table_room small_table"
  using table_new [OF map_ops_ok, of 1]
  by (simp_all add: small_table_def table_room_def resource_table_new_def free_slots_new_def)

text \<open>
  C23. \<open>reserve_entry\<close> never reports a collision: as long as the capacity can be doubled it returns
  the least id that is not reserved, reserves it without touching another entry, and keeps the
  invariant that the ids below the capacity are either free or reserved, never both.
\<close>

theorem reserve_entry_fresh:
  assumes "table_inv H t" and "table_room t"
  shows "\<exists>rid t'. reserve_entry H t = Inr (rid, t') \<and> rid \<notin> reserved_ids H t \<and>
    (\<forall>i. i < rid \<longrightarrow> i \<in> reserved_ids H t) \<and>
    hm_get H (active_slots t') = (hm_get H (active_slots t))(rid \<mapsto> None) \<and> table_inv H t'"
  using reserve_entry_spec [OF assms] by blast

theorem reserve_entry_fresh_witness:
  "\<exists>rid t'. reserve_entry map_ops small_table = Inr (rid, t') \<and> rid \<notin> reserved_ids map_ops small_table"
  using reserve_entry_fresh [OF small_table] by blast

text \<open>
  \<open>remove_entry\<close> of a reserved id panics: \<open>return_one\<close> removes the id from the free ids,
  where it is not, instead of inserting it, so no resource can ever be released.
\<close>

lemma remove_entry_panics:
  assumes "table_inv H t" and "rid \<in> reserved_ids H t"
  shows "remove_entry H t rid = Inl (AssertFailed ''free_ids.remove(&id)'')"
proof -
  have "rid \<notin> set (free_ids (free_slots t))"
    using assms by (auto simp: table_inv_def slots_inv_def)
  then show ?thesis by (simp add: remove_entry_def return_one_def)
qed

end
