(* ===== verification/Manager.thy ===== *)
theory Manager
  imports Process Resource_Table
begin

text \<open>
  \<^verbatim>\<open>kernel/src/process/manager.rs\<close>, \<^verbatim>\<open>kernel/src/process/mod.rs\<close> and \<^verbatim>\<open>kernel/src/cpu.rs\<close>: the table of
  processes, the queue of those that can run, and the blocks of the CPUs.

  A control block is shared: the table, the queue and a CPU hold an \<open>Arc\<close> of it.  The blocks are the list
  \<open>pcbs\<close> of the machine, and an \<open>Arc\<close> is an index into it; \<open>Arc::new\<close> appends.  The lazy
  statics \<open>PROCESS_MANAGER\<close> and \<open>CPUS\<close> hold their first values from the start, since making them
  has no effect on anything else.
\<close>

section \<open>The machine\<close>

type_synonym arc = nat

record 'm process_manager =
  pcb_table :: "'m resource_table"
  ready_queue :: "arc list"

record percpu_block =
  cpu_hartid :: usize
  running_process :: "arc option"

record 'm machine = hart +
  pcbs :: "process_control_block list"
  PROCESS_MANAGER :: "'m process_manager"
  CPUS :: "percpu_block list"
  HART0_STARTED :: bool

type_synonym 'm pcb_slots = "('m, arc option) hash_ops"

section \<open>The process manager\<close>

definition INTIIAL_MAX_N_PROCS :: usize where "INTIIAL_MAX_N_PROCS = 128"

definition process_manager_new :: "'m pcb_slots \<Rightarrow> 'm process_manager" where
  "process_manager_new H =
     \<lparr>pcb_table = resource_table_new H INTIIAL_MAX_N_PROCS, ready_queue = []\<rparr>"

definition create_process :: "'m pcb_slots \<Rightarrow> 'm machine \<Rightarrow> (arc \<times> 'm machine) result" where
  "create_process H h =
     and_then (reserve_entry H (pcb_table (PROCESS_MANAGER h))) (\<lambda>(p, t1).
     and_then (pcb_allocate p (kern h)) (\<lambda>(pcb, s).
     let a = length (pcbs h)
     in and_then (initialise_entry H t1 p a) (\<lambda>t2.
          Ok (a, h\<lparr>kern := s, pcbs := pcbs h @ [pcb],
                   PROCESS_MANAGER := \<lparr>pcb_table = t2, ready_queue = a # ready_queue (PROCESS_MANAGER h)\<rparr>\<rparr>))))"

definition pop_one :: "'m machine \<Rightarrow> arc option \<times> 'm machine" where
  "pop_one h =
     (case ready_queue (PROCESS_MANAGER h) of
        [] \<Rightarrow> (None, h)
      | a # q \<Rightarrow> (Some a, h\<lparr>PROCESS_MANAGER := (PROCESS_MANAGER h)\<lparr>ready_queue := q\<rparr>\<rparr>))"

definition push_one :: "'m pcb_slots \<Rightarrow> usize \<Rightarrow> 'm machine \<Rightarrow> 'm machine result" where
  "push_one H p h =
     and_then (table_get H (pcb_table (PROCESS_MANAGER h)) p) (\<lambda>a.
     and_then (vec_index (pcbs h) a) (\<lambda>pcb.
     and_then (rust_assert '''' (pid pcb = p)) (\<lambda>_.
       Ok (h\<lparr>PROCESS_MANAGER := (PROCESS_MANAGER h)\<lparr>ready_queue := ready_queue (PROCESS_MANAGER h) @ [a]\<rparr>\<rparr>))))"

text \<open>Both have an empty body.\<close>

definition exit_process :: "usize \<Rightarrow> 'm machine \<Rightarrow> 'm machine" where
  "exit_process p h = h"

definition reap_process :: "usize \<Rightarrow> 'm machine \<Rightarrow> 'm machine" where
  "reap_process p h = h"

definition create_initcode ::
  "'m pcb_slots \<Rightarrow> bitflags_ops \<Rightarrow> linker_symbols \<Rightarrow> code_symbols \<Rightarrow> usize \<Rightarrow> u8 list
     \<Rightarrow> 'm machine \<Rightarrow> 'm machine result" where
  "create_initcode H B L C vps init_text h =
     and_then (reserve_entry H (pcb_table (PROCESS_MANAGER h))) (\<lambda>(p, t1).
     and_then (make_initcode_uninitialised B L C vps init_text p h) (\<lambda>(pcb, h1).
     let a = length (pcbs h1)
     in and_then (initialise_entry H t1 p a) (\<lambda>t2.
          Ok (h1\<lparr>pcbs := pcbs h1 @ [pcb],
                  PROCESS_MANAGER := \<lparr>pcb_table = t2, ready_queue = ready_queue (PROCESS_MANAGER h1) @ [a]\<rparr>\<rparr>))))"

definition manager_init ::
  "'m pcb_slots \<Rightarrow> bitflags_ops \<Rightarrow> linker_symbols \<Rightarrow> code_symbols \<Rightarrow> usize \<Rightarrow> u8 list
     \<Rightarrow> 'm machine \<Rightarrow> 'm machine result" where
  "manager_init H B L C vps init_text h = create_initcode H B L C vps init_text h"

section \<open>CPUs\<close>

definition N_CPUS :: nat where "N_CPUS = 8"

definition CPUS_init :: "percpu_block list" where
  "CPUS_init = map (\<lambda>i. \<lparr>cpu_hartid = of_nat i, running_process = None\<rparr>) [0..<N_CPUS]"

definition set_executing_process :: "percpu_block \<Rightarrow> arc \<Rightarrow> percpu_block result" where
  "set_executing_process cpu a =
     and_then (rust_assert ''running_process.is_none()'' (running_process cpu = None)) (\<lambda>_.
       Ok (cpu\<lparr>running_process := Some a\<rparr>))"

definition take_executing_process :: "percpu_block \<Rightarrow> arc option \<times> percpu_block" where
  "take_executing_process cpu = (running_process cpu, cpu\<lparr>running_process := None\<rparr>)"

definition percpu_hartid :: "percpu_block \<Rightarrow> usize" where
  "percpu_hartid cpu = cpu_hartid cpu"

definition current_process :: "'m machine \<Rightarrow> arc option result" where
  "current_process h =
     and_then (vec_index (CPUS h) (unat (hart_id h))) (\<lambda>cpu.
     and_then (rust_assert '''' (cpu_hartid cpu = hart_id h)) (\<lambda>_. Ok (running_process cpu)))"

definition process_init ::
  "'m pcb_slots \<Rightarrow> bitflags_ops \<Rightarrow> linker_symbols \<Rightarrow> code_symbols \<Rightarrow> usize \<Rightarrow> u8 list
     \<Rightarrow> 'm machine \<Rightarrow> 'm machine result" where
  "process_init H B L C vps init_text h =
     and_then (manager_init H B L C vps init_text h) (\<lambda>h1.
     and_then (rust_assert '''' (hart_id h1 = 0)) (\<lambda>_.
     and_then (vec_index (CPUS h1) 0) (\<lambda>cpu.
     let (r, h2) = pop_one h1
     in and_then (unwrap r) (\<lambda>a.
        and_then (set_executing_process cpu a) (\<lambda>cpu'.
          Ok (h2\<lparr>CPUS := (CPUS h2)[0 := cpu']\<rparr>))))))"

section \<open>The invariant of the manager\<close>

abbreviation pcb_slot :: "'m pcb_slots \<Rightarrow> 'm machine \<Rightarrow> usize \<Rightarrow> arc option option" where
  "pcb_slot H h \<equiv> hm_get H (active_slots (pcb_table (PROCESS_MANAGER h)))"

text \<open>
  Every reserved id is that of a block, the block at its index carries that id, and the queue holds
  registered blocks only.
\<close>

definition manager_inv :: "'m pcb_slots \<Rightarrow> 'm machine \<Rightarrow> bool" where
  "manager_inv H h \<longleftrightarrow> table_inv H (pcb_table (PROCESS_MANAGER h)) \<and>
     (\<forall>p. pcb_slot H h p \<noteq> Some None) \<and>
     (\<forall>p a. pcb_slot H h p = Some (Some a) \<longrightarrow> a < length (pcbs h) \<and> pid (pcbs h ! a) = p) \<and>
     (\<forall>a \<in> set (ready_queue (PROCESS_MANAGER h)). \<exists>p. pcb_slot H h p = Some (Some a))"

text \<open>Both ways of creating a process add one block under a new id.\<close>

lemma manager_inv_create:
  assumes inv: "manager_inv H h" and room: "table_room (pcb_table (PROCESS_MANAGER h))"
  shows "\<exists>p t. ptable.create H (\<lambda>_. length (pcbs h)) (pcb_table (PROCESS_MANAGER h)) = Inr (p, t) \<and>
    pcb_slot H h p = None \<and>
    (\<forall>pcb q h'. pid pcb = p \<longrightarrow> set q \<subseteq> insert (length (pcbs h)) (set (ready_queue (PROCESS_MANAGER h))) \<longrightarrow>
       pcbs h' = pcbs h @ [pcb] \<longrightarrow> PROCESS_MANAGER h' = \<lparr>pcb_table = t, ready_queue = q\<rparr> \<longrightarrow>
       manager_inv H h' \<and> pcb_slot H h' = (pcb_slot H h)(p \<mapsto> Some (length (pcbs h))))"
proof -
  let ?a = "length (pcbs h)"
  have tinv: "table_inv H (pcb_table (PROCESS_MANAGER h))" using inv by (simp add: manager_inv_def)
  obtain p t where c: "ptable.create H (\<lambda>_. ?a) (pcb_table (PROCESS_MANAGER h)) = Inr (p, t)"
    "pcb_slot H h p = None" "hm_get H (active_slots t) = (pcb_slot H h)(p \<mapsto> Some ?a)" "table_inv H t"
    using ptable.create_spec [OF tinv room, of "\<lambda>_. ?a"] by blast
  have "manager_inv H h' \<and> pcb_slot H h' = (pcb_slot H h)(p \<mapsto> Some ?a)"
    if "pid pcb = p" "set q \<subseteq> insert ?a (set (ready_queue (PROCESS_MANAGER h)))" "pcbs h' = pcbs h @ [pcb]"
      "PROCESS_MANAGER h' = \<lparr>pcb_table = t, ready_queue = q\<rparr>" for pcb q h'
  proof -
    have sl: "pcb_slot H h' = (pcb_slot H h)(p \<mapsto> Some ?a)" using that(4) c(3) by simp
    have "a < length (pcbs h') \<and> pid (pcbs h' ! a) = r" if "pcb_slot H h' r = Some (Some a)" for r a
      using that inv \<open>pcbs h' = _\<close> \<open>pid pcb = p\<close> unfolding sl
      by (auto simp: manager_inv_def nth_append split: if_splits)
    moreover have "\<exists>r. pcb_slot H h' r = Some (Some a)" if a: "a \<in> set q" for a
    proof (cases "a = ?a")
      case False
      then have "a \<in> set (ready_queue (PROCESS_MANAGER h))"
        using a \<open>set q \<subseteq> _\<close> by blast
      then obtain r where "pcb_slot H h r = Some (Some a)"
        using inv by (auto simp: manager_inv_def)
      then have "pcb_slot H h' r = Some (Some a)" using c(2) unfolding sl by auto
      then show ?thesis ..
    qed (use sl in auto)
    ultimately show ?thesis
      using inv c(4) that(4) sl by (auto simp: manager_inv_def)
  qed
  with c(1,2) show ?thesis by blast
qed

lemma create_process_eq:
  assumes "kernel_stack_allocate (kern h) = Inr (k, s)"
  shows "create_process H h =
    and_then (ptable.create H (\<lambda>_. length (pcbs h)) (pcb_table (PROCESS_MANAGER h))) (\<lambda>(p, t).
      Inr (length (pcbs h), h\<lparr>kern := s, pcbs := pcbs h @ [\<lparr>pid = p, kernel_stack = k,
             inner = \<lparr>trap_context = None, user_addr_space = None, proc_status = RUNNABLE\<rparr>\<rparr>],
         PROCESS_MANAGER := \<lparr>pcb_table = t, ready_queue = length (pcbs h) # ready_queue (PROCESS_MANAGER h)\<rparr>\<rparr>))"
  using assms
  by (auto simp: create_process_def ptable.create_def pcb_allocate_def Let_def and_then_assoc split_def
      intro!: and_then_cong)

lemma reserve_room: "reserve_entry H t = Inr r \<Longrightarrow> slots_inv (free_slots t) U \<Longrightarrow> table_room t"
proof (rule ccontr)
  assume a: "reserve_entry H t = Inr r" "\<not> table_room t"
  then have e: "free_ids (free_slots t) = []" "2 ^ 63 \<le> unat (capacity (free_slots t))"
    by (auto simp: table_room_def)
  then have "checked_mul (capacity (free_slots t)) 2 = Inl ArithOverflow"
    by (simp add: checked_mul_def)
  then have "allocate_one (free_slots t) = Inl ArithOverflow"
    using e(1) by (simp add: allocate_one_def)
  then show False using a(1) by (simp add: reserve_entry_def)
qed

lemma create_process_inv:
  assumes inv: "manager_inv H h" and c: "create_process H h = Inr (a, h')"
  shows "manager_inv H h' \<and> (\<exists>p. pcb_slot H h p = None \<and> pcb_slot H h' = (pcb_slot H h)(p \<mapsto> Some a)) \<and>
    ready_queue (PROCESS_MANAGER h') = a # ready_queue (PROCESS_MANAGER h)"
proof -
  from c obtain r where r: "reserve_entry H (pcb_table (PROCESS_MANAGER h)) = Inr r"
    by (auto simp: create_process_def and_then_eq_Ok)
  have room: "table_room (pcb_table (PROCESS_MANAGER h))"
    using reserve_room [OF r] inv by (auto simp: manager_inv_def table_inv_def)
  from c r obtain k s where k: "kernel_stack_allocate (kern h) = Inr (k, s)"
    by (auto simp: create_process_def pcb_allocate_def and_then_eq_Ok split_def)
  obtain p t where m: "ptable.create H (\<lambda>_. length (pcbs h)) (pcb_table (PROCESS_MANAGER h)) = Inr (p, t)"
    "pcb_slot H h p = None"
    "\<And>pcb q h'. pid pcb = p \<Longrightarrow> set q \<subseteq> insert (length (pcbs h)) (set (ready_queue (PROCESS_MANAGER h))) \<Longrightarrow>
       pcbs h' = pcbs h @ [pcb] \<Longrightarrow> PROCESS_MANAGER h' = \<lparr>pcb_table = t, ready_queue = q\<rparr> \<Longrightarrow>
       manager_inv H h' \<and> pcb_slot H h' = (pcb_slot H h)(p \<mapsto> Some (length (pcbs h)))"
    using manager_inv_create [OF inv room] by blast
  let ?pcb = "\<lparr>pid = p, kernel_stack = k,
     inner = \<lparr>trap_context = None, user_addr_space = None, proc_status = RUNNABLE\<rparr>\<rparr>"
  have e: "a = length (pcbs h)" "pcbs h' = pcbs h @ [?pcb]"
    "PROCESS_MANAGER h' = \<lparr>pcb_table = t, ready_queue = length (pcbs h) # ready_queue (PROCESS_MANAGER h)\<rparr>"
    using c create_process_eq [OF k, of H] m(1) by auto
  show ?thesis
    using m(3) [OF _ _ e(2,3)] m(2) e(1,3) by auto
qed

lemma pop_one_inv:
  assumes "manager_inv H h" and "pop_one h = (r, h')"
  shows "manager_inv H h'" and "r = Some a \<Longrightarrow> \<exists>p. pcb_slot H h p = Some (Some a)"
  using assms by (auto simp: pop_one_def manager_inv_def split: list.splits)

lemma push_one_inv:
  assumes inv: "manager_inv H h" and p: "p \<in> dom (pcb_slot H h)"
  shows "\<exists>a. pcb_slot H h p = Some (Some a) \<and> push_one H p h =
    Inr (h\<lparr>PROCESS_MANAGER := (PROCESS_MANAGER h)\<lparr>ready_queue := ready_queue (PROCESS_MANAGER h) @ [a]\<rparr>\<rparr>) \<and>
    manager_inv H (h\<lparr>PROCESS_MANAGER := (PROCESS_MANAGER h)\<lparr>ready_queue := ready_queue (PROCESS_MANAGER h) @ [a]\<rparr>\<rparr>)"
proof -
  obtain y where y: "pcb_slot H h p = Some y" using p by blast
  then obtain a where a: "pcb_slot H h p = Some (Some a)"
    using inv by (cases y) (auto simp: manager_inv_def)
  then have "a < length (pcbs h)" "pid (pcbs h ! a) = p"
    using inv by (auto simp: manager_inv_def)
  moreover from this have "push_one H p h =
      Inr (h\<lparr>PROCESS_MANAGER := (PROCESS_MANAGER h)\<lparr>ready_queue := ready_queue (PROCESS_MANAGER h) @ [a]\<rparr>\<rparr>)"
    using a by (simp add: push_one_def table_get_def)
  moreover have "manager_inv H
      (h\<lparr>PROCESS_MANAGER := (PROCESS_MANAGER h)\<lparr>ready_queue := ready_queue (PROCESS_MANAGER h) @ [a]\<rparr>\<rparr>)"
    using inv a by (auto simp: manager_inv_def)
  ultimately show ?thesis
    using a by (intro exI [of _ a]) simp
qed

lemma manager_new_inv:
  assumes "hash_map_ok H" and "PROCESS_MANAGER h = process_manager_new H"
  shows "manager_inv H h" and "pcb_slot H h = (\<lambda>_. None)" and "table_room (pcb_table (PROCESS_MANAGER h))"
proof -
  have "table_inv H (resource_table_new H INTIIAL_MAX_N_PROCS)"
    using table_new [OF assms(1)] by (simp add: INTIIAL_MAX_N_PROCS_def)
  then show "manager_inv H h" and sl: "pcb_slot H h = (\<lambda>_. None)"
    by (auto simp: manager_inv_def assms(2) process_manager_new_def resource_table_new_def
        hash_map_okD(1) [OF assms(1)])
  show "table_room (pcb_table (PROCESS_MANAGER h))"
    by (simp add: assms(2) process_manager_new_def resource_table_new_def table_room_def
        free_slots_new_def INTIIAL_MAX_N_PROCS_def)
qed

text \<open>Preparing the first program leaves the manager alone.\<close>

lemma force_more:
  "KERNEL_ADDRESS_SPACE_force B L h = Inr (k, h') \<Longrightarrow> mm_state.more h' = mm_state.more h"
  by (auto simp: KERNEL_ADDRESS_SPACE_force_def and_then_eq_Ok split_def split: option.splits)

lemma first_execution_more:
  assumes "first_execution_init B L C vps i pa h = Inr (i', h')"
  shows "mm_state.more h' = mm_state.more h"
  using assms
  by (auto simp: first_execution_init_def write_trap_context_def Let_def and_then_eq_Ok split_def dest!: force_more)

lemma make_initcode_keeps:
  fixes h :: "'m machine"
  assumes "make_initcode_uninitialised B L C vps init_text p h = Inr (pcb, h')"
  shows "pid pcb = p" and "pcbs h' = pcbs h" and "PROCESS_MANAGER h' = PROCESS_MANAGER h"
proof -
  have "mm_state.more h' = mm_state.more h"
    using assms by (auto simp: make_initcode_uninitialised_def Let_def and_then_eq_Ok split_def dest!: first_execution_more)
  then show "pcbs h' = pcbs h" "PROCESS_MANAGER h' = PROCESS_MANAGER h"
    by (cases h; cases h'; simp)+
  show "pid pcb = p"
    using assms by (auto simp: make_initcode_uninitialised_def pcb_allocate_def Let_def and_then_eq_Ok split_def)
qed

lemma create_initcode_inv:
  assumes inv: "manager_inv H h" and c: "create_initcode H B L C vps init_text h = Inr h'"
  shows "manager_inv H h'"
proof -
  from c obtain q t1 pcb h1 where r: "reserve_entry H (pcb_table (PROCESS_MANAGER h)) = Inr (q, t1)"
    "make_initcode_uninitialised B L C vps init_text q h = Inr (pcb, h1)"
    by (auto simp: create_initcode_def and_then_eq_Ok split_def)
  note k = make_initcode_keeps [OF r(2)]
  have room: "table_room (pcb_table (PROCESS_MANAGER h))"
    using reserve_room [OF r(1)] inv by (auto simp: manager_inv_def table_inv_def)
  obtain p t where m: "ptable.create H (\<lambda>_. length (pcbs h)) (pcb_table (PROCESS_MANAGER h)) = Inr (p, t)"
    "\<And>pcb q h'. pid pcb = p \<Longrightarrow> set q \<subseteq> insert (length (pcbs h)) (set (ready_queue (PROCESS_MANAGER h))) \<Longrightarrow>
       pcbs h' = pcbs h @ [pcb] \<Longrightarrow> PROCESS_MANAGER h' = \<lparr>pcb_table = t, ready_queue = q\<rparr> \<Longrightarrow>
       manager_inv H h' \<and> pcb_slot H h' = (pcb_slot H h)(p \<mapsto> Some (length (pcbs h)))"
    using manager_inv_create [OF inv room] by blast
  have "p = q" "initialise_entry H t1 q (length (pcbs h)) = Inr t"
    using m(1) r(1) by (auto simp: ptable.create_def and_then_eq_Ok)
  then have "pcbs h' = pcbs h @ [pcb]"
    "PROCESS_MANAGER h' = \<lparr>pcb_table = t, ready_queue = ready_queue (PROCESS_MANAGER h) @ [length (pcbs h)]\<rparr>"
    using c r k by (auto simp: create_initcode_def)
  from m(2) [OF _ _ this] k(1) \<open>p = q\<close> show ?thesis by simp
qed

section \<open>Runs of the manager\<close>

text \<open>Any sequence of calls of the manager's operations that return.\<close>

inductive manager_step :: "'m pcb_slots \<Rightarrow> 'm machine \<Rightarrow> 'm machine \<Rightarrow> bool" for H where
  create: "create_process H h = Inr (a, h') \<Longrightarrow> manager_step H h h'"
| initcode: "create_initcode H B L C vps init_text h = Inr h' \<Longrightarrow> manager_step H h h'"
| pop: "pop_one h = (r, h') \<Longrightarrow> manager_step H h h'"
| push: "push_one H p h = Inr h' \<Longrightarrow> manager_step H h h'"
| exit: "manager_step H h (exit_process p h)"
| reap: "manager_step H h (reap_process p h)"

lemma push_one_registered:
  assumes "push_one H p h = Inr h'"
  shows "p \<in> dom (pcb_slot H h)"
  using assms by (auto simp: push_one_def table_get_def and_then_eq_Ok expect_Ok)

lemma manager_step_inv:
  assumes "manager_step H h h'" and "manager_inv H h"
  shows "manager_inv H h'"
  using assms
proof cases
  case (create a)
  then show ?thesis using create_process_inv [OF assms(2)] by blast
next
  case (initcode B L C vps init_text)
  then show ?thesis using create_initcode_inv [OF assms(2)] by blast
next
  case (pop r)
  then show ?thesis using pop_one_inv [OF assms(2)] by blast
next
  case (push p)
  then show ?thesis using push_one_inv [OF assms(2) push_one_registered [OF push]] by auto
qed (use assms(2) in \<open>simp_all add: exit_process_def reap_process_def\<close>)

section \<open>The first process\<close>

lemma create_initcode_eq:
  assumes "reserve_entry H (pcb_table (PROCESS_MANAGER h)) = Inr (p, t1)"
    and "make_initcode_uninitialised B L C vps init_text p h = Inr (pcb, h\<lparr>kern := s\<rparr>)"
  shows "create_initcode H B L C vps init_text h =
    and_then (ptable.create H (\<lambda>_. length (pcbs h)) (pcb_table (PROCESS_MANAGER h))) (\<lambda>(_, t).
      Inr (h\<lparr>kern := s, pcbs := pcbs h @ [pcb],
         PROCESS_MANAGER := \<lparr>pcb_table = t, ready_queue = ready_queue (PROCESS_MANAGER h) @ [length (pcbs h)]\<rparr>\<rparr>))"
  using assms
  by (auto simp: create_initcode_def ptable.create_def Let_def and_then_assoc intro!: and_then_cong)

lemma process_init_eq:
  assumes B: "bitflags_ok B" and L: "linker_ok L" and hp: "heap_ok L (kern h)"
    and ks: "KERNEL_ADDRESS_SPACE h = Some kspace" and len: "length init_text < 2 ^ 30"
    and free: "13 \<le> card (kfree (kern h))" and H: "hash_map_ok H"
    and new: "PROCESS_MANAGER h = process_manager_new H" "CPUS h = CPUS_init" "pcbs h = []" and id0: "hart_id h = 0"
    and mk: "make_initcode_uninitialised B L C 0x1000 init_text 0 h = Inr (pcb, h\<lparr>kern := s'\<rparr>)" and p0: "pid pcb = 0"
  shows "\<exists>h'. process_init H B L C 0x1000 init_text h = Inr h' \<and> manager_inv H h' \<and>
    pcb_slot H h' = [0 \<mapsto> Some 0] \<and> (\<exists>pm. h' = h\<lparr>kern := s', pcbs := [pcb], PROCESS_MANAGER := pm,
      CPUS := CPUS_init[0 := \<lparr>cpu_hartid = 0, running_process = Some 0\<rparr>]\<rparr> \<and> ready_queue pm = [])"
proof -
  note m = manager_new_inv [OF H new(1)]
  have tinv: "table_inv H (pcb_table (PROCESS_MANAGER h))" using m(1) by (simp add: manager_inv_def)
  obtain q t1 where r: "reserve_entry H (pcb_table (PROCESS_MANAGER h)) = Inr (q, t1)" "\<forall>i. i < q \<longrightarrow> i \<in> dom (pcb_slot H h)"
    using reserve_entry_spec [OF tinv m(3)] by blast
  have "\<not> 0 < q" using r(2) m(2) by auto
  then have q: "q = 0" by (simp add: word_gt_0)
  obtain p t where c: "ptable.create H (\<lambda>_. length (pcbs h)) (pcb_table (PROCESS_MANAGER h)) = Inr (p, t)"
    "\<And>pcb q h'. pid pcb = p \<Longrightarrow> set q \<subseteq> insert (length (pcbs h)) (set (ready_queue (PROCESS_MANAGER h))) \<Longrightarrow>
       pcbs h' = pcbs h @ [pcb] \<Longrightarrow> PROCESS_MANAGER h' = \<lparr>pcb_table = t, ready_queue = q\<rparr> \<Longrightarrow>
       manager_inv H h' \<and> pcb_slot H h' = (pcb_slot H h)(p \<mapsto> Some (length (pcbs h)))"
    using manager_inv_create [OF m(1,3)] by blast
  have p: "p = 0"
    using c(1) r(1) q by (auto simp: ptable.create_def and_then_eq_Ok)
  let ?h = "h\<lparr>kern := s', pcbs := [pcb], PROCESS_MANAGER := \<lparr>pcb_table = t, ready_queue = []\<rparr>,
    CPUS := CPUS_init[0 := \<lparr>cpu_hartid = 0, running_process = Some 0\<rparr>]\<rparr>"
  have rq: "ready_queue (PROCESS_MANAGER h) = []" by (simp add: new(1) process_manager_new_def)
  have "process_init H B L C 0x1000 init_text h = Inr ?h"
    using r(1) q mk c(1) new rq id0
    by (simp add: process_init_def manager_init_def create_initcode_eq [where s = s'] pop_one_def
        hart_id_def reg_def CPUS_init_def N_CPUS_def set_executing_process_def upt_rec)
  moreover have "manager_inv H ?h \<and> pcb_slot H ?h = [0 \<mapsto> Some 0]"
    using c(2) [of pcb "[]" ?h] p p0 new(3) m(2) by simp
  ultimately show ?thesis
    by (intro exI [of _ ?h] conjI exI [of _ "\<lparr>pcb_table = t, ready_queue = []\<rparr>"]) simp_all
qed

section \<open>Properties\<close>

text \<open>The machine after \<open>mm_init\<close> and \<open>mm_hart_init\<close>, for the witnesses.\<close>

definition idle_machine :: "kstate \<Rightarrow> addr_space \<Rightarrow> (usize \<Rightarrow> arc option option) machine" where
  "idle_machine s kspace =
     \<lparr>kern = s, csr_satp = addr_space_make_satp kspace, csr_sscratch = TRAPFRAME_BASE_USER_VA,
      KERNEL_HEAP_ALLOCATOR = Some (ld_kernel_heap_space sample_linker, KERNEL_HEAP_SIZE),
      KERNEL_ADDRESS_SPACE = Some kspace, gpr = (\<lambda>_. 0), pc = 0, mode = SupervisorMode, csr_stvec = 0,
      csr_sepc = 0, csr_scause = 0, csr_stval = 0, csr_sstatus = 0, csr_sie = 0, csr_sip = 0,
      csr_mhartid = 0, csr_mstatus = 0, csr_mepc = 0, csr_medeleg = 0, csr_mideleg = 0, csr_mie = 0,
      csr_mtvec = 0, csr_mscratch = 0, pcbs = [], PROCESS_MANAGER = process_manager_new map_ops,
      CPUS = CPUS_init, HART0_STARTED = False\<rparr>"

definition sample_code :: code_symbols where
  "sample_code = \<lparr>sym_uservec = ld_trampoline_start sample_linker,
     sym_userret = ld_trampoline_start sample_linker + 0x100, sym_kernelvec = 0x80002000,
     sym_timervec = 0x80002100, sym_usertrap = 0x80003000, sym_kmain = 0x80003800,
     sym_timer_scratches = ld_bss_start sample_linker + 0x100200\<rparr>"

lemma sample_code_ok: "code_ok sample_linker sample_code"
  by (simp add: code_ok_def sample_code_def sample_linker_def)

text \<open>
  C13. The process manager keeps its records consistent: from its initial state, after any sequence of
  creating processes, the first one included, taking processes from the queue and putting them back, every id in the
  table is that of one block, the block it names carries that id, ids in use and free ids are
  disjoint, and the queue holds registered processes only.
\<close>

theorem manager_runs_consistent:
  assumes "hash_map_ok H" and "PROCESS_MANAGER h0 = process_manager_new H" and "(manager_step H)\<^sup>*\<^sup>* h0 h"
  shows "manager_inv H h \<and>
    (\<forall>a \<in> set (ready_queue (PROCESS_MANAGER h)). a < length (pcbs h) \<and> pcb_slot H h (pid (pcbs h ! a)) = Some (Some a))"
proof -
  from assms(3) have "manager_inv H h"
  proof (induction rule: rtranclp_induct)
    case base
    then show ?case by (rule manager_new_inv(1) [OF assms(1,2)])
  next
    case (step y z)
    then show ?case using manager_step_inv by blast
  qed
  then show ?thesis by (fastforce simp: manager_inv_def)
qed

theorem manager_runs_consistent_witness:
  "\<exists>s kspace a h. create_process map_ops (idle_machine s kspace) = Inr (a, h) \<and> manager_inv map_ops h"
proof -
  obtain kspace s where b: "space_ok sample_linker kspace s" "heap_ok sample_linker s" "1000 \<le> card (kfree s)"
    using sample_boot by blast
  let ?h = "idle_machine s kspace"
  have new: "PROCESS_MANAGER ?h = process_manager_new map_ops" by (simp add: idle_machine_def)
  note m = manager_new_inv [OF map_ops_ok new]
  have "kstate_wf (kern ?h)" "kfree (kern ?h) \<noteq> {}"
    using b by (auto simp: heap_ok_def idle_machine_def)
  from allocate_zeroed_spec [OF this] obtain k s' where "kernel_stack_allocate (kern ?h) = Inr (k, s')"
    by (auto simp: kernel_stack_allocate_def get_frame_def guard_at_def)
  then obtain a h where c: "create_process map_ops ?h = Inr (a, h)"
    using create_process_eq [where h = ?h and H = map_ops] manager_inv_create [OF m(1,3)] by fastforce
  then have "(manager_step map_ops)\<^sup>*\<^sup>* ?h h" by (blast intro: manager_step.create)
  with manager_runs_consistent [OF map_ops_ok new] c show ?thesis by blast
qed

end
