(* ===== verification/Trap.thy ===== *)
theory Trap
  imports Manager
begin

text \<open>
  \<^verbatim>\<open>kernel/src/trap\<close>: the handlers of traps from the kernel and from a process, and the return to
  user mode.  \<open>usertrapret\<close> does not return to its caller: it jumps to the code of the trampoline page
  with the \<^verbatim>\<open>satp\<close> of the process in \<open>a0\<close>, and the model returns the address and the argument of
  that jump.  What happens from there on is the assembly code of the next theory.
\<close>

section \<open>Traps in the kernel\<close>

definition trap_init_hart :: "riscv_ops \<Rightarrow> code_symbols \<Rightarrow> 'a hart_scheme \<Rightarrow> 'a hart_scheme" where
  "trap_init_hart R C h = h\<lparr>csr_stvec := stvec_direct R (sym_kernelvec C)\<rparr>"

definition kerneltrap :: "riscv_ops \<Rightarrow> 'a hart_scheme \<Rightarrow> 'a hart_scheme result" where
  "kerneltrap R h =
     (case scause_cause R (csr_scause h) of
        Interrupt intr \<Rightarrow>
          (case intr of
             SupervisorSoft \<Rightarrow> Ok h
           | SupervisorTimer \<Rightarrow> Panic (ExplicitPanic (''We use CLINT to provide software interrupt for timer! What'' @ [CHR 0x27] @ ''s this???''))
           | SupervisorExternal \<Rightarrow> Ok h
           | UnknownInterrupt \<Rightarrow> Panic (ExplicitPanic ''kerneltrap: Unknown S-mode interrupt''))
      | Exception ex \<Rightarrow> Panic (ExplicitPanic ''trap::kerneltrap: unexpected exception''))"

section \<open>System calls and page faults\<close>

definition current_pcb :: "'m machine \<Rightarrow> process_control_block result" where
  "current_pcb h =
     and_then (current_process h) (\<lambda>r. and_then (unwrap r) (vec_index (pcbs h)))"

definition syscall_handle :: "(usize \<Rightarrow> syscall option) \<Rightarrow> 'm machine \<Rightarrow> 'm machine result" where
  "syscall_handle Q h =
     and_then (current_pcb h) (\<lambda>pcb.
     and_then (write_trap_context (inner pcb) (\<lambda>ctx h1.
         and_then (incr_user_space_pc ctx 4) (\<lambda>ctx'. Ok (((), ctx'), h1))) h) (\<lambda>(_, h2).
     and_then (get_context_ref (inner pcb) (hmem h2)) (\<lambda>ctx.
     and_then (get_syscall Q ctx) (\<lambda>r.
     and_then (unwrap r) (\<lambda>call. Ok h2)))))"

definition page_fault_handle :: "bitflags_ops \<Rightarrow> 'm machine \<Rightarrow> 'm machine result" where
  "page_fault_handle B h =
     and_then (current_pcb h) (\<lambda>pcb.
     and_then (get_user_space_ref (inner pcb)) (\<lambda>user_space.
     and_then (addr_space_translate B user_space (VirtAddr (csr_stval h)) (hmem h)) (\<lambda>r.
       case r of
         None \<Rightarrow> Panic (ExplicitPanic ''NOT MAPPED?'')
       | Some (pa, flags) \<Rightarrow>
           if \<not> page_flags_contains B flags PAGE_EXECUTABLE
           then Panic (ExplicitPanic ''trap::usertrap: not executable'')
           else if \<not> page_flags_contains B flags PAGE_USER
           then Panic (ExplicitPanic ''trap::usertrap: no U-bit'')
           else Ok h)))"

section \<open>The return to user mode\<close>

definition userret_on_trampoline ::
  "riscv_ops \<Rightarrow> bitflags_ops \<Rightarrow> linker_symbols \<Rightarrow> code_symbols \<Rightarrow> usize \<Rightarrow> 'm machine
     \<Rightarrow> ((usize \<times> usize) \<times> 'm machine) result" where
  "userret_on_trampoline R B L C satp h =
     (let h1 = intr_off R h
      in and_then (checked_sub (sym_userret C) (sym_uservec C)) (\<lambda>offset.
         and_then (checked_add TRAMPOLINE_BASE_VA offset) (\<lambda>addr.
         and_then (current_pcb h1) (\<lambda>pcb.
         and_then (get_user_space_ref (inner pcb)) (\<lambda>user_space.
         and_then (addr_space_translate B user_space (VirtAddr addr) (hmem h1)) (\<lambda>r.
         and_then (unwrap r) (\<lambda>(userret_user_translated_pa, _).
         and_then (KERNEL_ADDRESS_SPACE_force B L h1) (\<lambda>(kspace, h2).
         and_then (addr_space_translate B kspace (VirtAddr addr) (hmem h2)) (\<lambda>r'.
         and_then (unwrap r') (\<lambda>(userret_kernel_translated_pa, _).
         and_then (rust_assert '''' (userret_user_translated_pa = userret_kernel_translated_pa)) (\<lambda>_.
         and_then (addr_space_translate B user_space (VirtAddr TRAMPOLINE_BASE_VA) (hmem h2)) (\<lambda>r''.
         and_then (unwrap r'') (\<lambda>(trampoline_user_translated_pa, _).
         and_then (rust_assert '''' (pa_as_usize trampoline_user_translated_pa = sym_uservec C)) (\<lambda>_.
           Ok ((addr, satp), h2)))))))))))))))"

definition usertrapret ::
  "riscv_ops \<Rightarrow> bitflags_ops \<Rightarrow> linker_symbols \<Rightarrow> code_symbols \<Rightarrow> 'm machine
     \<Rightarrow> ((usize \<times> usize) \<times> 'm machine) result" where
  "usertrapret R B L C h =
     (let h1 = h\<lparr>csr_stvec := stvec_direct R TRAMPOLINE_BASE_VA\<rparr>
      in and_then (rust_assert '''' (csr_sscratch h1 = TRAPFRAME_BASE_USER_VA)) (\<lambda>_.
         let h2 = h1\<lparr>csr_sstatus := set_spie R (set_spp_user R (csr_sstatus h1))\<rparr>;
             hartid = hart_id h2
         in and_then (current_process h2) (\<lambda>r.
            and_then (expect ''trap::userret: No runable process'' r) (\<lambda>a.
            and_then (vec_index (pcbs h2) a) (\<lambda>pcb.
            and_then (write_trap_context (inner pcb) (\<lambda>ctx h. Ok (((), set_tp ctx hartid), h)) h2) (\<lambda>(_, h3).
            and_then (get_context_ref (inner pcb) (hmem h3)) (\<lambda>ctx.
            and_then (rust_assert '''' (csr_satp h3 = get_kernel_page_table ctx)) (\<lambda>_.
            and_then (get_user_space_ref (inner pcb)) (\<lambda>user_space.
              userret_on_trampoline R B L C (addr_space_make_satp user_space) h3)))))))))"

section \<open>Traps from a process\<close>

definition usertrap ::
  "riscv_ops \<Rightarrow> bitflags_ops \<Rightarrow> linker_symbols \<Rightarrow> code_symbols \<Rightarrow> (usize \<Rightarrow> syscall option)
     \<Rightarrow> 'm machine \<Rightarrow> ((usize \<times> usize) \<times> 'm machine) result" where
  "usertrap R B L C Q h =
     (let h1 = (intr_off R h)\<lparr>csr_stvec := stvec_direct R (sym_kernelvec C)\<rparr>
      in and_then
           (case scause_cause R (csr_scause h1) of
              Interrupt intr \<Rightarrow>
                (case intr of
                   SupervisorSoft \<Rightarrow> Panic (ExplicitPanic ''explicit panic'')
                 | _ \<Rightarrow> Panic (ExplicitPanic ''Unsupported exception''))
            | Exception ex \<Rightarrow>
                (case ex of
                   UserEnvCall \<Rightarrow> syscall_handle Q h1
                 | InstructionPageFault \<Rightarrow> page_fault_handle B h1
                 | LoadPageFault \<Rightarrow> Panic (ExplicitPanic ''trap::usertrap: Load Page Fault'')
                 | OtherException _ \<Rightarrow> Panic (ExplicitPanic ''Unsupported exception'')))
           (usertrapret R B L C))"

section \<open>A running process\<close>

text \<open>
  The process with index \<open>a\<close> runs on the hart: its space maps the trampoline and its trap frame, the
  kernel's space maps the trampoline at the same address, and the trap frame is no node of either
  table.
\<close>

definition running ::
  "linker_symbols \<Rightarrow> 'm machine \<Rightarrow> arc \<Rightarrow> usize \<Rightarrow> addr_space \<Rightarrow> addr_space \<Rightarrow> bool" where
  "running L h a tf space kspace \<longleftrightarrow>
     unat (hart_id h) < length (CPUS h) \<and>
     CPUS h ! unat (hart_id h) = \<lparr>cpu_hartid = hart_id h, running_process = Some a\<rparr> \<and>
     a < length (pcbs h) \<and> trap_context (inner (pcbs h ! a)) = Some (PhysAddr tf) \<and>
     user_addr_space (inner (pcbs h ! a)) = Some space \<and> KERNEL_ADDRESS_SPACE h = Some kspace \<and>
     page_aligned tf \<and> tf < 2 ^ 56 \<and> ld_trampoline_start L < 2 ^ 56 \<and> page_aligned (ld_trampoline_start L) \<and>
     pt_inv (kern h) (page_table space) \<and> pt_inv (kern h) (page_table kspace) \<and>
     (\<forall>n \<in> set (node_addrs (page_table space)) \<union> set (node_addrs (page_table kspace)). n < 2 ^ 56 \<and> n \<noteq> tf) \<and>
     kmap (kern h) (page_table space) TRAMPOLINE_BASE_VA = Some (entry_for (ld_trampoline_start L) 11) \<and>
     kmap (kern h) (page_table space) TRAPFRAME_BASE_USER_VA = Some (entry_for tf 7) \<and>
     kmap (kern h) (page_table kspace) TRAMPOLINE_BASE_VA = Some (entry_for (ld_trampoline_start L) 11)"

lemma runningD:
  assumes "running L h a tf space kspace"
  shows "current_process h = Inr (Some a)" and "a < length (pcbs h)"
    and "trap_context (inner (pcbs h ! a)) = Some (PhysAddr tf)"
    and "user_addr_space (inner (pcbs h ! a)) = Some space" and "KERNEL_ADDRESS_SPACE h = Some kspace"
    and "page_aligned tf" "tf < 2 ^ 56" "ld_trampoline_start L < 2 ^ 56" "page_aligned (ld_trampoline_start L)"
    and "pt_inv (kern h) (page_table space)" "pt_inv (kern h) (page_table kspace)"
    and "\<forall>n \<in> set (node_addrs (page_table space)). n < 2 ^ 56" "\<forall>n \<in> set (node_addrs (page_table kspace)). n < 2 ^ 56"
    and "tf \<notin> set (node_addrs (page_table space))" "tf \<notin> set (node_addrs (page_table kspace))"
    and "kmap (kern h) (page_table space) TRAMPOLINE_BASE_VA = Some (entry_for (ld_trampoline_start L) 11)"
    and "kmap (kern h) (page_table space) TRAPFRAME_BASE_USER_VA = Some (entry_for tf 7)"
    and "kmap (kern h) (page_table kspace) TRAMPOLINE_BASE_VA = Some (entry_for (ld_trampoline_start L) 11)"
  using assms by (auto simp: running_def current_process_def)

lemma current_pcb_running: "running L h a tf space kspace \<Longrightarrow> current_pcb h = Inr (pcbs h ! a)"
  by (simp add: current_pcb_def runningD)

text \<open>A process keeps running when registers and the trap frame change.\<close>

lemma pt_frame_page:
  assumes "pt_inv s pt" and "p \<notin> set (node_addrs pt)" and "\<And>x. page_of x \<noteq> p \<Longrightarrow> m x = phys_mem s x"
  shows "pt_inv (s\<lparr>phys_mem := m\<rparr>) pt" and "kmap (s\<lparr>phys_mem := m\<rparr>) pt = kmap s pt"
proof -
  have fr: "phys_mem (s\<lparr>phys_mem := m\<rparr>) x = phys_mem s x" if "page_of x \<in> set (node_addrs pt)" for x
    using that assms(2,3) by fastforce
  have wf: "kstate_wf (s\<lparr>phys_mem := m\<rparr>)" "set (node_addrs pt) \<subseteq> kused (s\<lparr>phys_mem := m\<rparr>)"
    using pt_invD(1,4) [OF assms(1)] by (simp_all add: kstate_wf_def)
  show "pt_inv (s\<lparr>phys_mem := m\<rparr>) pt" "kmap (s\<lparr>phys_mem := m\<rparr>) pt = kmap s pt"
    by (rule pt_frame [OF assms(1) _ wf], rule fr, assumption)+
qed

lemma running_frame:
  assumes r: "running L h a tf space kspace" and k: "kern h' = (kern h)\<lparr>phys_mem := m\<rparr>"
    and m: "\<And>x. page_of x \<in> set (node_addrs (page_table space)) \<union> set (node_addrs (page_table kspace)) \<Longrightarrow> m x = hmem h x"
    and "reg h' 4 = reg h 4" "CPUS h' = CPUS h" "pcbs h' = pcbs h" "KERNEL_ADDRESS_SPACE h' = KERNEL_ADDRESS_SPACE h"
  shows "running L h' a tf space kspace"
proof -
  have pf: "pt_inv (kern h') pt" "kmap (kern h') pt = kmap (kern h) pt"
    if inv: "pt_inv (kern h) pt" and pt: "pt = page_table space \<or> pt = page_table kspace" for pt
  proof -
    have fr: "phys_mem (kern h') x = phys_mem (kern h) x" if "page_of x \<in> set (node_addrs pt)" for x
      using m [of x] that pt by (auto simp: k)
    have wf: "kstate_wf (kern h')" "set (node_addrs pt) \<subseteq> kused (kern h')"
      using pt_invD(1,4) [OF inv] by (simp_all add: k kstate_wf_def)
    show "pt_inv (kern h') pt" "kmap (kern h') pt = kmap (kern h) pt"
      by (rule pt_frame [OF inv _ wf], rule fr, assumption)+
  qed
  show ?thesis
    using r pf [OF runningD(10) [OF r]] pf [OF runningD(11) [OF r]] assms(4-)
    by (simp add: running_def hart_id_def)
qed

lemma running_cong:
  assumes r: "running L h a tf space kspace"
    and "kern h' = (kern h)\<lparr>phys_mem := m\<rparr>" and m: "\<And>x. page_of x \<noteq> tf \<Longrightarrow> m x = hmem h x"
    and "reg h' 4 = reg h 4" "CPUS h' = CPUS h" "pcbs h' = pcbs h" "KERNEL_ADDRESS_SPACE h' = KERNEL_ADDRESS_SPACE h"
  shows "running L h' a tf space kspace"
  by (rule running_frame [OF r assms(2) _ assms(4-)])
     (use runningD(14,15) [OF r] in \<open>auto intro!: m\<close>)

lemma running_translate:
  assumes B: "bitflags_ok B" and C: "code_ok L C" and r: "running L h a tf space kspace"
  defines "off \<equiv> sym_userret C - sym_uservec C"
  shows "checked_sub (sym_userret C) (sym_uservec C) = Inr off"
    and "checked_add TRAMPOLINE_BASE_VA off = Inr (TRAMPOLINE_BASE_VA + off)"
    and "\<exists>f. addr_space_translate B space (VirtAddr (TRAMPOLINE_BASE_VA + off)) (hmem h) =
      Inr (Some (PhysAddr (ld_trampoline_start L OR ((TRAMPOLINE_BASE_VA + off) AND 12)), f))"
    and "\<exists>f. addr_space_translate B kspace (VirtAddr (TRAMPOLINE_BASE_VA + off)) (hmem h) =
      Inr (Some (PhysAddr (ld_trampoline_start L OR ((TRAMPOLINE_BASE_VA + off) AND 12)), f))"
    and "\<exists>f. addr_space_translate B space (VirtAddr TRAMPOLINE_BASE_VA) (hmem h) =
      Inr (Some (PhysAddr (sym_uservec C), f))"
proof -
  have off: "off < 4096" "sym_uservec C \<le> sym_userret C" "sym_uservec C = ld_trampoline_start L"
    using C unfolding code_ok_def off_def by blast+
  then have u: "unat off < 4096" by (simp add: word_less_nat_alt)
  show "checked_sub (sym_userret C) (sym_uservec C) = Inr off" using off(2) by (simp add: off_def)
  show "checked_add TRAMPOLINE_BASE_VA off = Inr (TRAMPOLINE_BASE_VA + off)"
    using u by (simp add: TRAMPOLINE_BASE_VA_value)
  have ta: "page_aligned TRAMPOLINE_BASE_VA" by (simp add: TRAMPOLINE_BASE_VA_value page_aligned_def)
  have "page_of (TRAMPOLINE_BASE_VA + of_nat (unat off)) = TRAMPOLINE_BASE_VA"
    using page_of_add [OF ta u] .
  then have sp: "same_page (TRAMPOLINE_BASE_VA + off) TRAMPOLINE_BASE_VA"
    using same_page_iff u
    by (simp add: same_page_iff TRAMPOLINE_BASE_VA_value unat_word_ariths)
  have pa: "PTE2PA (entry_for (ld_trampoline_start L) 11) = ld_trampoline_start L"
    using PTE2PA_entry_for [of 11 "ld_trampoline_start L"] runningD(9) [OF r]
    by (simp add: mask_eq_exp_minus_1 page_aligned_page_of)
  have km: "kmap (kern h) (page_table space) (TRAMPOLINE_BASE_VA + off) = Some (entry_for (ld_trampoline_start L) 11)"
    "kmap (kern h) (page_table kspace) (TRAMPOLINE_BASE_VA + off) = Some (entry_for (ld_trampoline_start L) 11)"
    using runningD(16,18) [OF r] pt_map_same_page [OF sp] by simp_all
  show "\<exists>f. addr_space_translate B space (VirtAddr (TRAMPOLINE_BASE_VA + off)) (hmem h) =
      Inr (Some (PhysAddr (ld_trampoline_start L OR ((TRAMPOLINE_BASE_VA + off) AND 12)), f))"
    "\<exists>f. addr_space_translate B kspace (VirtAddr (TRAMPOLINE_BASE_VA + off)) (hmem h) =
      Inr (Some (PhysAddr (ld_trampoline_start L OR ((TRAMPOLINE_BASE_VA + off) AND 12)), f))"
    using translate_mapped [OF B runningD(10) [OF r] km(1)] translate_mapped [OF B runningD(11) [OF r] km(2)]
    by (simp_all add: pa)
  show "\<exists>f. addr_space_translate B space (VirtAddr TRAMPOLINE_BASE_VA) (hmem h) =
      Inr (Some (PhysAddr (sym_uservec C), f))"
    using translate_mapped [OF B runningD(10,16) [OF r]] off(3) by (simp add: pa TRAMPOLINE_BASE_VA_value)
qed

lemma userret_on_trampoline_spec:
  assumes B: "bitflags_ok B" and R: "riscv_ok R" and C: "code_ok L C" and r: "running L h a tf space kspace"
  shows "userret_on_trampoline R B L C satp h =
    Inr ((TRAMPOLINE_BASE_VA + (sym_userret C - sym_uservec C), satp),
         h\<lparr>csr_sstatus := unset_bit 1 (csr_sstatus h)\<rparr>)"
proof -
  let ?h = "h\<lparr>csr_sstatus := unset_bit 1 (csr_sstatus h)\<rparr>"
  have r': "running L ?h a tf space kspace"
    by (rule running_cong [OF r, of _ "hmem h"]) (simp_all add: reg_def)
  note t = running_translate [OF B C r']
  obtain f1 f2 f3 where tr:
    "addr_space_translate B space (VirtAddr (TRAMPOLINE_BASE_VA + (sym_userret C - sym_uservec C))) (hmem h) =
      Inr (Some (PhysAddr (ld_trampoline_start L OR ((TRAMPOLINE_BASE_VA + (sym_userret C - sym_uservec C)) AND 12)), f1))"
    "addr_space_translate B kspace (VirtAddr (TRAMPOLINE_BASE_VA + (sym_userret C - sym_uservec C))) (hmem h) =
      Inr (Some (PhysAddr (ld_trampoline_start L OR ((TRAMPOLINE_BASE_VA + (sym_userret C - sym_uservec C)) AND 12)), f2))"
    "addr_space_translate B space (VirtAddr TRAMPOLINE_BASE_VA) (hmem h) = Inr (Some (PhysAddr (sym_uservec C), f3))"
    using t(3-5) by auto
  show ?thesis
    unfolding userret_on_trampoline_def intr_off_def riscv_okD(5) [OF R] Let_def t(1,2) and_then_Ok
      current_pcb_running [OF r']
    using runningD(4,5) [OF r'] tr
    by (simp add: get_user_space_ref_def KERNEL_ADDRESS_SPACE_force_def)
qed

text \<open>\<open>usertrapret\<close> returns to the process, with the number of the hart in the saved \<open>tp\<close>.\<close>

definition ret_status :: "usize \<Rightarrow> usize" where
  "ret_status x = unset_bit 1 (set_bit 5 (unset_bit 8 x))"

lemma usertrapret_spec:
  assumes B: "bitflags_ok B" and R: "riscv_ok R" and C: "code_ok L C" and r: "running L h a tf space kspace"
    and ss: "csr_sscratch h = TRAPFRAME_BASE_USER_VA"
    and satp: "csr_satp h = kernel_satp (context_at (hmem h) tf)"
  shows "usertrapret R B L C h =
    Inr ((TRAMPOLINE_BASE_VA + (sym_userret C - sym_uservec C), addr_space_make_satp space),
      h\<lparr>kern := (kern h)\<lparr>phys_mem := put_context (hmem h) tf (set_tp (context_at (hmem h) tf) (hart_id h))\<rparr>,
         csr_stvec := TRAMPOLINE_BASE_VA, csr_sstatus := ret_status (csr_sstatus h)\<rparr>)"
proof -
  let ?c = "set_tp (context_at (hmem h) tf) (hart_id h)"
  let ?m = "put_context (hmem h) tf ?c"
  let ?s = "set_bit 5 (unset_bit 8 (csr_sstatus h))"
  let ?h3 = "h\<lparr>kern := (kern h)\<lparr>phys_mem := ?m\<rparr>, csr_stvec := TRAMPOLINE_BASE_VA, csr_sstatus := ?s\<rparr>"
  have len: "length (user_regs ?c) = 32" by simp
  have r3: "running L ?h3 a tf space kspace"
    by (rule running_cong [OF r, of _ ?m]) (simp_all add: reg_def put_context_frame [OF runningD(6) [OF r] len])
  have sv: "stvec_direct R TRAMPOLINE_BASE_VA = TRAMPOLINE_BASE_VA"
    by (rule riscv_okD(1) [OF R]) (simp add: TRAMPOLINE_BASE_VA_value)
  have cp: "current_process (h\<lparr>csr_stvec := TRAMPOLINE_BASE_VA, csr_sstatus := x\<rparr>) = Inr (Some a)" for x
    using runningD(1) [OF r] by (simp add: current_process_def hart_id_def reg_def)
  have hid: "hart_id (h\<lparr>csr_stvec := TRAMPOLINE_BASE_VA, csr_sstatus := x\<rparr>) = hart_id h" for x
    by (simp add: hart_id_def reg_def)
  have ks: "kernel_satp (context_at ?m tf) = csr_satp h"
    using satp unfolding context_roundtrip [OF runningD(6) [OF r] len] by (simp add: set_tp_def)
  have up: "h\<lparr>csr_stvec := v, csr_sstatus := x, kern := k\<rparr> = h\<lparr>kern := k, csr_stvec := v, csr_sstatus := x\<rparr>" for v x k
    by (rule machine.equality) simp_all
  show ?thesis
    unfolding usertrapret_def Let_def sv
    using ss cp runningD(2,3,4) [OF r] ks userret_on_trampoline_spec [OF B R C r3, of "addr_space_make_satp space"]
    by (simp add: write_trap_context_def get_context_ref_def get_kernel_page_table_def
        get_user_space_ref_def riscv_okD(2,3) [OF R] hid ret_status_def up)
qed

lemma syscall_handle_spec:
  assumes Q: "syscall_from_ok Q" and r: "running L h a tf space kspace"
    and n: "unat (user_regs (context_at (hmem h) tf) ! 17) < length syscalls"
    and pc: "unat (context_sepc (context_at (hmem h) tf)) + 4 < 2 ^ 64"
  shows "syscall_handle Q h = Inr (h\<lparr>kern := (kern h)\<lparr>phys_mem := put_context (hmem h) tf
      ((context_at (hmem h) tf)\<lparr>context_sepc := context_sepc (context_at (hmem h) tf) + 4\<rparr>)\<rparr>\<rparr>)"
proof -
  let ?c = "(context_at (hmem h) tf)\<lparr>context_sepc := context_sepc (context_at (hmem h) tf) + 4\<rparr>"
  have len: "length (user_regs ?c) = 32" by simp
  have "get_syscall Q (context_at (put_context (hmem h) tf ?c) tf) =
      Inr (Some (syscalls ! unat (user_regs (context_at (hmem h) tf) ! 17)))"
    using Q n by (simp add: context_roundtrip [OF runningD(6) [OF r] len] get_syscall_def get_arg_def A0_def
        syscall_from_ok_def)
  moreover have "checked_add (context_sepc (context_at (hmem h) tf)) 4 =
      Inr (context_sepc (context_at (hmem h) tf) + 4)"
    using pc by (intro checked_addI) simp
  ultimately show ?thesis
    using runningD(3) [OF r]
    by (simp add: syscall_handle_def current_pcb_running [OF r] write_trap_context_def incr_user_space_pc_def
        get_context_ref_def)
qed

end
