(* ===== verification/Trampoline.thy ===== *)
theory Trampoline
  imports Trap
begin

text \<open>
  \<^verbatim>\<open>kernel/src/asm/trampoline.S\<close>: \<^verbatim>\<open>__uservec\<close>, which a trap from user mode enters, and
  \<^verbatim>\<open>__userret\<close>, to which \<open>usertrapret\<close> jumps.  Both run in the trampoline page, which has the same
  address in every space, and switch from one page table to the other while they run; both reach the
  trap context through the page table of the process.  Every fetch, load and store goes through the
  translation in force at that instruction.
\<close>

section \<open>The code\<close>

definition uservec :: "instr list" where
  "uservec =
     [Csrrw 31 Sscratch 31] @
     map (\<lambda>i. Sd i (of_nat i * 8) 31) [1..<31] @
     [Csrr 5 Sscratch, Sd 5 (31 * 8) 31, Csrw Sscratch 31,
      Ld 5 (32 * 8) 31, Ld 2 (33 * 8) 31, Sd 4 (34 * 8) 31,
      Csrr 6 Sepc, Sd 6 (35 * 8) 31, Ld 6 (36 * 8) 31,
      SfenceVma, Csrw Satp 5, SfenceVma, Jr 6]"

definition userret :: "instr list" where
  "userret =
     [SfenceVma, Csrw Satp 10, SfenceVma, Csrr 10 Sscratch, Mv 31 10, Ld 10 (35 * 8) 31, Csrw Sepc 10] @
     map (\<lambda>i. Ld i (of_nat i * 8) 31) [2..<31] @
     [Ld 31 (31 * 8) 31, Sret]"

section \<open>The pages that the code reaches\<close>

text \<open>
  Under a value of \<^verbatim>\<open>satp\<close>, the trampoline can be fetched and the trap context read and written,
  whatever the page of the context holds.
\<close>

definition maps_code :: "usize \<Rightarrow> usize \<Rightarrow> usize \<Rightarrow> pmem \<Rightarrow> bool" where
  "maps_code satp tf tramp m \<longleftrightarrow> (\<forall>m'. (\<forall>x. page_of x \<noteq> tf \<longrightarrow> m' x = m x) \<longrightarrow>
     hw_translate satp SupervisorMode m' Fetch TRAMPOLINE_BASE_VA = Some tramp)"

definition maps_context :: "usize \<Rightarrow> usize \<Rightarrow> usize \<Rightarrow> pmem \<Rightarrow> bool" where
  "maps_context satp tf tramp m \<longleftrightarrow> maps_code satp tf tramp m \<and>
     (\<forall>m'. (\<forall>x. page_of x \<noteq> tf \<longrightarrow> m' x = m x) \<longrightarrow> (\<forall>acc i. acc \<noteq> Fetch \<longrightarrow> i < 512 \<longrightarrow>
        hw_translate satp SupervisorMode m' acc (TRAPFRAME_BASE_USER_VA + of_nat i * 8) = Some (cell tf (of_nat i))))"

lemma page_join:
  assumes "page_aligned a" and "page_aligned v" and "k < 4096"
  shows "a OR ((v + of_nat k) AND mask 12) = a + of_nat k"
proof -
  have u: "unat (v + of_nat k) = unat v + k"
    using unat_page_add [OF assms(2,3)] .
  have "unat ((v + of_nat k) AND mask 12) = k"
    unfolding take_bit_eq_mask [symmetric] unsigned_take_bit_eq u
    unfolding take_bit_eq_mod
    using assms(2,3) by (auto simp: page_aligned_def)
  then have e: "(v + of_nat k) AND mask 12 = of_nat k"
    using assms(3) by (simp add: word_unat_eq_iff unat_of_nat)
  have "\<not> bit a n \<or> \<not> bit ((v + of_nat k) AND mask 12) n" for n
  proof (cases "n < 12")
    case True
    have "\<not> bit (page_of a) n" using True by (simp add: page_of_def bit_simps)
    then show ?thesis using assms(1) by (simp add: page_aligned_page_of)
  qed (simp add: bit_simps)
  then have "a + ((v + of_nat k) AND mask 12) = a OR ((v + of_nat k) AND mask 12)"
    by (rule disjunctive_add)
  then show ?thesis by (simp add: e)
qed

lemma running_maps:
  assumes r: "running L h a tf space kspace"
  shows "maps_context (addr_space_make_satp space) tf (ld_trampoline_start L) (hmem h)"
    and "maps_code (addr_space_make_satp kspace) tf (ld_trampoline_start L) (hmem h)"
proof -
  have fl: "(11 :: u16) AND NOT (mask 9) = 0" "(7 :: u16) AND NOT (mask 9) = 0"
    by (simp_all add: mask_eq_exp_minus_1)
  have va: "TRAMPOLINE_BASE_VA < 2 ^ 38" by (simp add: TRAMPOLINE_BASE_VA_value)
  have tr: "page_of (ld_trampoline_start L) OR (TRAMPOLINE_BASE_VA AND mask 12) = ld_trampoline_start L"
    using runningD(9) [OF r] by (simp add: page_aligned_page_of TRAMPOLINE_BASE_VA_value mask_eq_exp_minus_1)
  have code: "maps_code (make_satp pt) tf (ld_trampoline_start L) (hmem h)"
    if "pt_inv (kern h) pt" "tf \<notin> set (node_addrs pt)" "\<forall>n \<in> set (node_addrs pt). n < 2 ^ 56"
      "kmap (kern h) pt TRAMPOLINE_BASE_VA = Some (entry_for (ld_trampoline_start L) 11)" for pt
    unfolding maps_code_def
  proof (intro allI impI)
    fix m' assume m': "\<forall>x. page_of x \<noteq> tf \<longrightarrow> m' x = hmem h x"
    note pf = pt_frame_page [OF that(1,2), of m']
    have "hw_translate (make_satp pt) SupervisorMode (phys_mem ((kern h)\<lparr>phys_mem := m'\<rparr>)) Fetch TRAMPOLINE_BASE_VA =
        Some (page_of (ld_trampoline_start L) OR (TRAMPOLINE_BASE_VA AND mask 12))"
      using pf m' that(3,4) va runningD(8) [OF r] fl(1)
      by (intro hw_translate_entry) (auto simp: hw_permits_def)
    then show "hw_translate (make_satp pt) SupervisorMode m' Fetch TRAMPOLINE_BASE_VA = Some (ld_trampoline_start L)"
      by (simp add: tr)
  qed
  show "maps_code (addr_space_make_satp kspace) tf (ld_trampoline_start L) (hmem h)"
    using code runningD(11,13,15,18) [OF r] by (simp add: addr_space_make_satp_def)
  have "hw_translate (make_satp (page_table space)) SupervisorMode m' acc (TRAPFRAME_BASE_USER_VA + of_nat i * 8) =
      Some (cell tf (of_nat i))"
    if m': "\<forall>x. page_of x \<noteq> tf \<longrightarrow> m' x = hmem h x" and "acc \<noteq> Fetch" "i < 512" for m' acc i
  proof -
    let ?va = "TRAPFRAME_BASE_USER_VA + of_nat (8 * i)"
    have k: "8 * i < 4096" using that(3) by simp
    have u: "unat ?va = 0x3FFFFFD000 + 8 * i"
      using unat_page_add [OF trapframe_aligned(1) k] by (simp add: TRAPFRAME_BASE_USER_VA_value)
    then have "same_page ?va TRAPFRAME_BASE_USER_VA" "?va < 2 ^ 38"
      using k by (simp_all add: same_page_iff TRAPFRAME_BASE_USER_VA_value word_less_nat_alt)
    moreover note pf = pt_frame_page [OF runningD(10,14) [OF r], of m']
    ultimately have "hw_translate (make_satp (page_table space)) SupervisorMode (phys_mem ((kern h)\<lparr>phys_mem := m'\<rparr>)) acc ?va =
        Some (page_of tf OR (?va AND mask 12))"
      using m' that(2) runningD(7,12,17) [OF r] fl(2) pt_map_same_page [of ?va]
      by (intro hw_translate_entry) (auto simp: hw_permits_def split: mem_access.split)
    moreover have "page_of tf OR (?va AND mask 12) = tf + of_nat (8 * i)"
      using page_join [OF runningD(6) [OF r] trapframe_aligned(1) k] runningD(6) [OF r]
      by (simp add: page_aligned_page_of)
    ultimately show ?thesis by (simp add: cell_def mult.commute)
  qed
  then show "maps_context (addr_space_make_satp space) tf (ld_trampoline_start L) (hmem h)"
    using code runningD(10,12,14,16) [OF r] by (simp add: maps_context_def addr_space_make_satp_def)
qed

lemma maps_context_access:
  assumes "maps_context satp tf tramp m" and "\<And>x. page_of x \<noteq> tf \<Longrightarrow> m' x = m x"
  shows "hw_translate satp SupervisorMode m' Fetch TRAMPOLINE_BASE_VA = Some tramp"
    and "i < 512 \<Longrightarrow> hw_translate satp SupervisorMode m' Load (TRAPFRAME_BASE_USER_VA + of_nat i * 8) = Some (cell tf (of_nat i))"
    and "i < 512 \<Longrightarrow> hw_translate satp SupervisorMode m' Store (TRAPFRAME_BASE_USER_VA + of_nat i * 8) = Some (cell tf (of_nat i))"
  using assms unfolding maps_context_def maps_code_def by blast+

section \<open>Saving and loading registers\<close>

text \<open>What the code sees: supervisor mode, the page table of the process, and its context.\<close>

definition in_context :: "usize \<Rightarrow> usize \<Rightarrow> usize \<Rightarrow> pmem \<Rightarrow> 'a hart_scheme \<Rightarrow> bool" where
  "in_context satp tf tramp m h \<longleftrightarrow> mode h = SupervisorMode \<and> csr_satp h = satp \<and>
     (\<forall>x. page_of x \<noteq> tf \<longrightarrow> hmem h x = m x)"

lemma fetch_in_context:
  assumes "maps_context satp tf tramp m" and "in_context satp tf tramp m h"
  shows "xlate h Fetch TRAMPOLINE_BASE_VA = Some tramp"
  using maps_context_access(1) [OF assms(1)] assms(2) by (simp add: in_context_def)

lemma step_Sd:
  assumes "maps_context satp tf tramp m" and "in_context satp tf tramp m h" and "page_aligned tf"
    and "i < 512" and "reg h 31 = TRAPFRAME_BASE_USER_VA"
  shows "step (Sd r (of_nat i * 8) 31) h = Some (set_hmem (store_usize (hmem h) (cell tf (of_nat i)) (reg h r)) h)"
    and "in_context satp tf tramp m (set_hmem (store_usize (hmem h) (cell tf (of_nat i)) v) h)"
proof -
  have "xlate h Store (TRAPFRAME_BASE_USER_VA + of_nat i * 8) = Some (cell tf (of_nat i))"
    using maps_context_access(3) [OF assms(1) _ assms(4), of "hmem h"] assms(2) by (simp add: in_context_def)
  then show "step (Sd r (of_nat i * 8) 31) h = Some (set_hmem (store_usize (hmem h) (cell tf (of_nat i)) (reg h r)) h)"
    by (simp add: assms(5))
  have "unat (of_nat i :: usize) < 512" using assms(4) by (simp add: context_cell(2))
  then show "in_context satp tf tramp m (set_hmem (store_usize (hmem h) (cell tf (of_nat i)) v) h)"
    using assms(2,3) by (simp add: in_context_def store_usize_other_page)
qed

lemma step_Ld:
  assumes "maps_context satp tf tramp m" and "in_context satp tf tramp m h"
    and "i < 512" and "reg h 31 = TRAPFRAME_BASE_USER_VA"
  shows "step (Ld r (of_nat i * 8) 31) h = Some (set_reg r (load_usize (hmem h) (cell tf (of_nat i))) h)"
    and "in_context satp tf tramp m (set_reg r v h)"
proof -
  have "xlate h Load (TRAPFRAME_BASE_USER_VA + of_nat i * 8) = Some (cell tf (of_nat i))"
    using maps_context_access(2) [OF assms(1) _ assms(3), of "hmem h"] assms(2) by (simp add: in_context_def)
  then show "step (Ld r (of_nat i * 8) 31) h = Some (set_reg r (load_usize (hmem h) (cell tf (of_nat i))) h)"
    by (simp add: assms(4))
  show "in_context satp tf tramp m (set_reg r v h)"
    using assms(2) by (simp add: in_context_def)
qed

abbreviation exec_tramp :: "usize \<Rightarrow> instr list \<Rightarrow> 'a hart_scheme \<Rightarrow> 'a hart_scheme option" where
  "exec_tramp tramp \<equiv> exec_page TRAMPOLINE_BASE_VA tramp"

lemma exec_save:
  assumes mc: "maps_context satp tf tramp m" and "page_aligned tf"
    and "in_context satp tf tramp m h" and "\<forall>i \<in> set is. i < 512" and "reg h 31 = TRAPFRAME_BASE_USER_VA"
  shows "exec_tramp tramp (map (\<lambda>i. Sd i (of_nat i * 8) 31) is) h =
      Some (set_hmem (fold (\<lambda>i m. store_usize m (cell tf (of_nat i)) (reg h i)) is (hmem h)) h) \<and>
    in_context satp tf tramp m (set_hmem (fold (\<lambda>i m. store_usize m (cell tf (of_nat i)) (reg h i)) is (hmem h)) h)"
  using assms(3-)
proof (induction "is" arbitrary: h)
  case Nil
  then show ?case by simp
next
  case (Cons i "is")
  let ?h = "set_hmem (store_usize (hmem h) (cell tf (of_nat i)) (reg h i)) h"
  have i: "i < 512" using Cons.prems(2) by simp
  note sd = step_Sd [OF mc Cons.prems(1) assms(2) i Cons.prems(3)]
  show ?case
    using Cons.IH [OF sd(2)] Cons.prems fetch_in_context [OF mc Cons.prems(1)] sd(1)
    by (simp del: step.simps)
qed

lemma exec_load:
  assumes mc: "maps_context satp tf tramp m"
    and "in_context satp tf tramp m h" and "\<forall>i \<in> set is. i < 31" and "reg h 31 = TRAPFRAME_BASE_USER_VA"
  shows "exec_tramp tramp (map (\<lambda>i. Ld i (of_nat i * 8) 31) is) h =
      Some (fold (\<lambda>i h. set_reg i (load_usize (hmem h) (cell tf (of_nat i))) h) is h)"
  using assms(2-)
proof (induction "is" arbitrary: h)
  case (Cons i "is")
  have i: "i < 512" "i < 31" using Cons.prems(2) by auto
  note ld = step_Ld [OF mc Cons.prems(1) i(1) Cons.prems(3)]
  show ?case
    using Cons.IH [OF ld(2)] Cons.prems fetch_in_context [OF mc Cons.prems(1)] ld(1) i(2)
    by (simp add: reg_set_reg del: step.simps)
qed simp

section \<open>Entering the kernel\<close>

definition uservec_tail :: "instr list" where
  "uservec_tail =
     [Csrr 5 Sscratch, Sd 5 (31 * 8) 31, Csrw Sscratch 31,
      Ld 5 (32 * 8) 31, Ld 2 (33 * 8) 31, Sd 4 (34 * 8) 31,
      Csrr 6 Sepc, Sd 6 (35 * 8) 31, Ld 6 (36 * 8) 31,
      SfenceVma, Csrw Satp 5, SfenceVma, Jr 6]"

lemma maps_code_fetch:
  assumes "maps_code satp tf tramp m" and "\<And>x. page_of x \<noteq> tf \<Longrightarrow> m' x = m x"
  shows "hw_translate satp SupervisorMode m' Fetch TRAMPOLINE_BASE_VA = Some tramp"
  using assms unfolding maps_code_def by blast

lemma uservec_tail:
  fixes h :: "'m machine"
  assumes mc: "maps_context satp tf tramp (hmem h)" and kc: "maps_code ksatp tf tramp (hmem h)"
    and h: "mode h = SupervisorMode" "csr_satp h = satp" "gpr h 31 = TRAPFRAME_BASE_USER_VA"
    and tf: "page_aligned tf" and ks: "load_usize (hmem h) (cell tf 32) = ksatp"
  defines "m1 \<equiv> store_usize (hmem h) (cell tf 31) (csr_sscratch h)"
  defines "m2 \<equiv> store_usize m1 (cell tf 34) (gpr h 4)"
  defines "m3 \<equiv> store_usize m2 (cell tf 35) (csr_sepc h)"
  shows "exec_tramp tramp uservec_tail h =
    Some (h\<lparr>kern := (kern h)\<lparr>phys_mem := m3\<rparr>, csr_satp := ksatp, csr_sscratch := TRAPFRAME_BASE_USER_VA,
      gpr := (gpr h)(5 := ksatp, 2 := load_usize (hmem h) (cell tf 33), 6 := load_usize (hmem h) (cell tf 36)),
      pc := load_usize (hmem h) (cell tf 36)\<rparr>)"
proof -
  have st: "store_usize m' (cell tf i) v x = m' x" if "unat i < 512" "page_of x \<noteq> tf" for m' i v x
    using store_usize_other_page [OF tf that(1,2)] .
  have m: "m1 x = hmem h x" "m2 x = hmem h x" "m3 x = hmem h x" if "page_of x \<noteq> tf" for x
    using that by (simp_all add: m1_def m2_def m3_def st)
  note f = maps_context_access(1) [OF mc] maps_context_access(1) [OF mc m(1)] maps_context_access(1) [OF mc m(2)]
    maps_context_access(1) [OF mc m(3)] maps_code_fetch [OF kc m(3)]
  note a = maps_context_access(3) [OF mc, where i = 31] maps_context_access(2) [OF mc m(1), where i = 32]
    maps_context_access(2) [OF mc m(1), where i = 33] maps_context_access(3) [OF mc m(1), where i = 34]
    maps_context_access(3) [OF mc m(2), where i = 35] maps_context_access(2) [OF mc m(3), where i = 36]
  have ld: "load_usize m1 (cell tf 32) = ksatp" "load_usize m1 (cell tf 33) = load_usize (hmem h) (cell tf 33)"
    "load_usize m3 (cell tf 36) = load_usize (hmem h) (cell tf 36)"
    using tf ks by (simp_all add: m1_def m2_def m3_def load_store_cell)
  show ?thesis
    unfolding uservec_tail_def
    by (rule trans, simp add: f a [simplified] h set_reg_def set_hmem_def reg_def ld
        flip: m1_def m2_def m3_def) (rule arg_cong [where f = Some], rule machine.equality; simp add: fun_eq_iff)
qed

lemma load_save:
  assumes "page_aligned p" and "j < 512" and "n \<le> 512"
  shows "load_usize (fold (\<lambda>i m. store_usize m (cell p (of_nat i)) (f i)) [k..<n] m) (cell p (of_nat j)) =
    (if k \<le> j \<and> j < n then f j else load_usize m (cell p (of_nat j)))"
  using assms(3)
proof (induction n)
  case (Suc n)
  let ?m = "fold (\<lambda>i m. store_usize m (cell p (of_nat i)) (f i)) [k..<n] m"
  have "load_usize (store_usize ?m (cell p (of_nat n)) (f n)) (cell p (of_nat j)) =
      (if j = n then f n else load_usize ?m (cell p (of_nat j)))"
    using Suc.prems assms load_store_cell [of p "of_nat n" p "of_nat j" ?m "f n"]
    by (auto simp: context_cell(2) word_unat_eq_iff)
  then show ?case
    using Suc by (cases "k \<le> n") auto
qed simp

lemma save_frame:
  assumes "page_aligned p" and "\<forall>i \<in> set is. i < 512" and "page_of x \<noteq> p"
  shows "fold (\<lambda>i m. store_usize m (cell p (of_nat i)) (f i)) is m x = m x"
  using assms(2)
proof (induction "is" arbitrary: m)
  case (Cons i "is")
  then show ?case
    using store_usize_other_page [OF assms(1) _ assms(3), of "of_nat i"] by (simp add: context_cell(2))
qed simp

text \<open>The context that a trap leaves: the registers, the number of the hart and the return address.\<close>

definition saved_context :: "'a hart_scheme \<Rightarrow> trap_context \<Rightarrow> trap_context" where
  "saved_context h c = c\<lparr>user_regs := (user_regs c ! 0) # map (gpr h) [1..<32], kernel_hardid := gpr h 4,
     context_sepc := csr_sepc h\<rparr>"

lemma length_saved [simp]: "length (user_regs (saved_context h c)) = 32"
  by (simp add: saved_context_def)

lemma saved_word:
  assumes "i < 37" and "length (user_regs c) = 32"
  shows "context_word (saved_context h c) i =
    (if 1 \<le> i \<and> i < 32 then gpr h i else if i = 34 then gpr h 4 else if i = 35 then csr_sepc h else context_word c i)"
proof -
  consider "i = 0" | "1 \<le> i \<and> i < 32" | "i = 32 \<or> i = 33 \<or> i = 34 \<or> i = 35 \<or> i = 36" using assms(1) by linarith
  then show ?thesis
  proof cases
    case 1
    have "user_regs c \<noteq> []" using assms(2) by auto
    with 1 show ?thesis
      using assms(2) by (simp add: context_word_def saved_context_def context_words_def nth_append)
  next
    case 2
    then obtain k where "i = Suc k" "k < 31" by (cases i) auto
    then show ?thesis
      using assms(2) by (simp add: context_word_def saved_context_def context_words_def nth_append nth_Cons' del: upt_rec_numeral)
  next
    case 3
    then show ?thesis
      using assms(2) by (auto simp: context_word_def saved_context_def context_words_def nth_append nth_Cons' simp del: upt_rec_numeral)
  qed
qed

lemma context_eqI:
  assumes "length (user_regs c) = 32" and "length (user_regs d) = 32"
    and "\<And>i. i < 37 \<Longrightarrow> context_word c i = context_word d i"
  shows "c = d"
proof -
  have w: "context_words c = context_words d"
    using assms by (intro nth_equalityI) (auto simp: context_word_def)
  then show ?thesis
    using assms(1,2) by (intro trap_context.equality) (auto simp: context_words_def)
qed

lemma uservec_spec:
  fixes h :: "'m machine"
  assumes mc: "maps_context satp tf tramp (hmem h)" and kc: "maps_code ksatp tf tramp (hmem h)"
    and h: "mode h = SupervisorMode" "csr_satp h = satp" "csr_sscratch h = TRAPFRAME_BASE_USER_VA"
    and tf: "page_aligned tf" and ks: "kernel_satp (context_at (hmem h) tf) = ksatp"
  shows "\<exists>m'. exec_tramp tramp uservec h =
      Some (h\<lparr>kern := (kern h)\<lparr>phys_mem := m'\<rparr>, csr_satp := ksatp,
        gpr := (gpr h)(31 := TRAPFRAME_BASE_USER_VA, 5 := ksatp, 2 := kernel_sp (context_at (hmem h) tf),
          6 := trap_handler (context_at (hmem h) tf)),
        pc := trap_handler (context_at (hmem h) tf)\<rparr>) \<and>
    context_at m' tf = saved_context h (context_at (hmem h) tf) \<and>
    (\<forall>x. page_of x \<noteq> tf \<longrightarrow> m' x = hmem h x)"
proof -
  let ?c = "context_at (hmem h) tf"
  let ?h1 = "set_reg 31 TRAPFRAME_BASE_USER_VA (h\<lparr>csr_sscratch := reg h 31\<rparr>)"
  let ?m = "fold (\<lambda>i m. store_usize m (cell tf (of_nat i)) (gpr h i)) [1..<31] (hmem h)"
  let ?h2 = "set_hmem ?m ?h1"
  let ?m3 = "store_usize (store_usize (store_usize ?m (cell tf 31) (gpr h 31)) (cell tf 34) (gpr h 4)) (cell tf 35) (csr_sepc h)"
  have fr: "?m x = hmem h x" if "page_of x \<noteq> tf" for x
    using save_frame [OF tf _ that] by simp
  have h1: "in_context satp tf tramp (hmem h) h" "in_context satp tf tramp (hmem h) ?h1"
    "reg ?h1 31 = TRAPFRAME_BASE_USER_VA"
    using h by (simp_all add: in_context_def reg_set_reg)
  have "fold (\<lambda>i m. store_usize m (cell tf (of_nat i)) (reg ?h1 i)) [1..<31] (hmem ?h1) = ?m"
    by (rule fold_cong) (auto simp: set_reg_def reg_def)
  then have "exec_tramp tramp (map (\<lambda>i. Sd i (of_nat i * 8) 31) [1..<31]) ?h1 = Some ?h2"
    using exec_save [OF mc tf h1(2) _ h1(3), of "[1..<31]"] by simp
  then have pre: "exec_tramp tramp uservec h = exec_tramp tramp uservec_tail ?h2"
    using fetch_in_context [OF mc h1(1)] h(3)
    by (simp add: uservec_def uservec_tail_def exec_page_append del: upt_rec_numeral)
  have mc2: "maps_context satp tf tramp (hmem ?h2)" and kc2: "maps_code ksatp tf tramp (hmem ?h2)"
    using mc kc fr by (auto simp: maps_context_def maps_code_def)
  have ld: "load_usize ?m (cell tf (of_nat j)) = (if 1 \<le> j \<and> j < 31 then gpr h j else context_word ?c j)" if "j < 37" for j
    using load_save [OF tf, of j 31 "gpr h" 1 "hmem h"] context_word_at [OF that, of "hmem h" tf] that by simp
  have cw: "context_word ?c 32 = kernel_satp ?c" "context_word ?c 33 = kernel_sp ?c" "context_word ?c 36 = trap_handler ?c"
    by (simp_all add: context_word_def context_words_def nth_append)
  have l: "load_usize ?m (cell tf 32) = ksatp" "load_usize ?m (cell tf 33) = kernel_sp ?c"
    "load_usize ?m (cell tf 36) = trap_handler ?c"
    using ld [of 32] ld [of 33] ld [of 36] cw ks by simp_all
  have tail: "exec_tramp tramp uservec_tail ?h2 = Some (?h2\<lparr>kern := (kern ?h2)\<lparr>phys_mem := ?m3\<rparr>, csr_satp := ksatp,
      csr_sscratch := TRAPFRAME_BASE_USER_VA,
      gpr := (gpr ?h2)(5 := ksatp, 2 := kernel_sp ?c, 6 := trap_handler ?c), pc := trap_handler ?c\<rparr>)"
    using uservec_tail [OF mc2 kc2 _ _ _ tf, simplified] h l
    by (simp add: set_reg_def reg_def set_hmem_def)
  have "context_at ?m3 tf = saved_context h ?c"
  proof (rule context_eqI)
    fix i :: nat assume i: "i < 37"
    have s: "load_usize (store_usize m' (cell tf k) v) (cell tf (of_nat i)) =
        (if of_nat i = k then v else load_usize m' (cell tf (of_nat i)))" if "unat k < 512" for m' k v
      using load_store_cell [OF tf that tf context_cell(1) [OF i], of m' v] by auto
    have eq: "(of_nat i = (31 :: usize)) = (i = 31)" "(of_nat i = (34 :: usize)) = (i = 34)" "(of_nat i = (35 :: usize)) = (i = 35)"
      using i by (simp_all add: word_unat_eq_iff unat_of_nat)
    show "context_word (context_at ?m3 tf) i = context_word (saved_context h ?c) i"
      using i ld [OF i] by (auto simp: context_word_at s eq saved_word simp del: upt_rec_numeral)
  qed simp_all
  moreover have "?m3 x = hmem h x" if "page_of x \<noteq> tf" for x
    using that fr [OF that] tf by (simp add: store_usize_other_page)
  moreover have "?h2\<lparr>kern := (kern ?h2)\<lparr>phys_mem := ?m3\<rparr>, csr_satp := ksatp, csr_sscratch := TRAPFRAME_BASE_USER_VA,
      gpr := (gpr ?h2)(5 := ksatp, 2 := kernel_sp ?c, 6 := trap_handler ?c), pc := trap_handler ?c\<rparr> =
    h\<lparr>kern := (kern h)\<lparr>phys_mem := ?m3\<rparr>, csr_satp := ksatp,
        gpr := (gpr h)(31 := TRAPFRAME_BASE_USER_VA, 5 := ksatp, 2 := kernel_sp ?c, 6 := trap_handler ?c),
        pc := trap_handler ?c\<rparr>"
    using h(3) by (intro machine.equality) (simp_all add: set_reg_def set_hmem_def del: upt_rec_numeral)
  ultimately show ?thesis
    using pre tail by (intro exI [of _ ?m3]) (simp del: upt_rec_numeral)
qed

section \<open>Returning to the process\<close>

lemma fold_set_reg:
  assumes "0 \<notin> set is"
  shows "fold (\<lambda>i h. set_reg i (load_usize (hmem h) (cell tf (of_nat i))) h) is h =
    h\<lparr>gpr := (\<lambda>r. if r \<in> set is then load_usize (hmem h) (cell tf (of_nat r)) else gpr h r)\<rparr>"
  using assms
proof (induction "is" arbitrary: h)
  case (Cons i "is")
  have "0 < i" using Cons.prems by auto
  with Cons show ?case
    by (auto simp: set_reg_def intro!: arg_cong [where f = "\<lambda>g. h\<lparr>gpr := g\<rparr>"])
qed simp

text \<open>The registers that the process gets back: all but \<open>x0\<close> and \<open>x1\<close>, which is not loaded.\<close>

definition restored :: "trap_context \<Rightarrow> (nat \<Rightarrow> usize) \<Rightarrow> nat \<Rightarrow> usize" where
  "restored c g i = (if 2 \<le> i \<and> i < 32 then user_regs c ! i else g i)"

lemma userret_spec:
  fixes h :: "'m machine"
  assumes mc: "maps_context satp tf tramp (hmem h)" and kc: "maps_code (csr_satp h) tf tramp (hmem h)"
    and h: "mode h = SupervisorMode" "csr_sscratch h = TRAPFRAME_BASE_USER_VA" "gpr h 10 = satp"
    and spp: "\<not> bit (csr_sstatus h) 8"
  shows "exec_tramp tramp userret h =
    Some (h\<lparr>csr_satp := satp, gpr := restored (context_at (hmem h) tf) (gpr h),
      pc := context_sepc (context_at (hmem h) tf), mode := UserMode,
      csr_sepc := context_sepc (context_at (hmem h) tf), csr_sstatus := sret_status (csr_sstatus h)\<rparr>)"
proof -
  let ?c = "context_at (hmem h) tf"
  let ?h1 = "h\<lparr>csr_satp := satp, gpr := (gpr h)(10 := context_sepc ?c, 31 := TRAPFRAME_BASE_USER_VA), csr_sepc := context_sepc ?c\<rparr>"
  let ?h2 = "?h1\<lparr>gpr := (\<lambda>r. if r \<in> set [2..<31] then load_usize (hmem ?h1) (cell tf (of_nat r)) else gpr ?h1 r)\<rparr>"
  note f = maps_context_access(1) [OF mc] maps_code_fetch [OF kc]
  have w: "load_usize (hmem h) (cell tf (of_nat i)) = context_word ?c i" if "i < 37" for i
    using context_word_at [OF that, of "hmem h" tf] by simp
  have r: "load_usize (hmem h) (cell tf (of_nat i)) = user_regs ?c ! i" if "i < 32" for i
    using that by (simp add: context_at_def del: upt_rec_numeral)
  have w35: "load_usize (hmem h) (cell tf 35) = context_sepc ?c"
    by (simp add: context_at_def)
  have pre: "exec_tramp tramp [SfenceVma, Csrw Satp 10, SfenceVma, Csrr 10 Sscratch, Mv 31 10, Ld 10 (35 * 8) 31, Csrw Sepc 10] h =
      Some ?h1"
    by (rule trans, simp add: f h set_reg_def reg_def w35 maps_context_access(2) [OF mc, where i = 35, simplified])
       (rule arg_cong [where f = Some], rule machine.equality; simp add: fun_eq_iff)
  have h1: "in_context satp tf tramp (hmem h) ?h1" "reg ?h1 31 = TRAPFRAME_BASE_USER_VA"
    using h by (simp_all add: in_context_def reg_def)
  have "exec_tramp tramp (map (\<lambda>i. Ld i (of_nat i * 8) 31) [2..<31]) ?h1 =
      Some (fold (\<lambda>i h. set_reg i (load_usize (hmem h) (cell tf (of_nat i))) h) [2..<31] ?h1)"
    by (rule exec_load [OF mc h1(1) _ h1(2)]) simp
  also have "fold (\<lambda>i h. set_reg i (load_usize (hmem h) (cell tf (of_nat i))) h) [2..<31] ?h1 = ?h2"
    by (rule fold_set_reg) simp
  finally have mid: "exec_tramp tramp (map (\<lambda>i. Ld i (of_nat i * 8) 31) [2..<31]) ?h1 = Some ?h2" .
  have last: "exec_tramp tramp [Ld 31 (31 * 8) 31, Sret] ?h2 = Some (h\<lparr>csr_satp := satp, gpr := restored ?c (gpr h),
      pc := context_sepc ?c, mode := UserMode, csr_sepc := context_sepc ?c, csr_sstatus := sret_status (csr_sstatus h)\<rparr>)"
    using spp r [of 31]
    by (rule_tac trans, simp add: f h set_reg_def reg_def maps_context_access(2) [OF mc, where i = 31, simplified]
          del: upt_rec_numeral)
       (rule arg_cong [where f = Some], rule machine.equality;
        simp add: fun_eq_iff restored_def r del: upt_rec_numeral)
  have split: "userret = [SfenceVma, Csrw Satp 10, SfenceVma, Csrr 10 Sscratch, Mv 31 10, Ld 10 (35 * 8) 31, Csrw Sepc 10] @
      map (\<lambda>i. Ld i (of_nat i * 8) 31) [2..<31] @ [Ld 31 (31 * 8) 31, Sret]"
    by (simp only: userret_def)
  show ?thesis
    unfolding split exec_page_append pre option.case mid last ..
qed

end
