(* ===== verification/First_Process.thy ===== *)
theory First_Process
  imports Trampoline
begin

text \<open>
  The first process, from \<open>process::init\<close> to its first instruction: the control block that the
  manager registers is that of a process that runs on hart 0, and the return path of the trap
  handler enters it in user mode at the start of its text.
\<close>

section \<open>The kernel's space beside a new process\<close>

text \<open>The frames of a new process were free, so the tables that were in use are as they were.\<close>

lemma pcb_since_used:
  assumes wf: "kstate_wf s0" and p: "pcb_since s0 s pcb sk space" and "kstate_wf s"
    and inv: "pt_inv s0 pt"
  shows "pt_inv s pt" and "kmap s pt = kmap s0 pt"
    and "set (node_addrs pt) \<inter> set (sk # space_frames space) = {}"
proof -
  have N: "set (node_addrs pt) \<subseteq> kused s0" using pt_invD(4) [OF inv] .
  show dis: "set (node_addrs pt) \<inter> set (sk # space_frames space) = {}"
    using N p free_used_disjoint [of "FRAME_ALLOCATOR s0"] wf by (auto simp: pcb_since_def kstate_wf_def)
  have fr: "phys_mem s x = phys_mem s0 x" if "page_of x \<in> set (node_addrs pt)" for x
    using p that dis unfolding pcb_since_def by blast
  have us: "set (node_addrs pt) \<subseteq> kused s" using N p by (auto simp: pcb_since_def)
  show "pt_inv s pt" "kmap s pt = kmap s0 pt"
    by (rule pt_frame [OF inv _ assms(3) us], rule fr, assumption)+
qed

lemma pcb_since_heap:
  assumes "heap_ok L s0" and "pcb_since s0 s pcb sk space"
  shows "heap_ok L s" and "kstate_wf s"
proof -
  show wf: "kstate_wf s"
    using assms(2) pt_invD(1) by (auto simp: pcb_since_def space_inv_def)
  show "heap_ok L s"
    using assms wf by (simp add: heap_ok_def pcb_since_def same_heap_def)
qed

lemma kernel_map_trampoline: "kernel_map L TRAMPOLINE_BASE_VA = Some (entry_for (ld_trampoline_start L) 11)"
  by (simp add: kernel_map_def TRAMPOLINE_BASE_VA_value vpn_def tramp_pno_def)

lemma trampoline_small:
  assumes "linker_ok L"
  shows "ld_trampoline_start L < 2 ^ 56"
proof -
  have "pno (ld_trampoline_start L) \<le> pno (ld_text_end L)"
    using assms unfolding linker_ok_def by (meson order_trans pno_mono)
  also have "\<dots> \<le> 0x88000"
    using linker_pnos [OF assms] by simp
  finally show ?thesis
    by (simp add: pno_def word_less_nat_alt)
qed

text \<open>A frame that holds the text or the stack of a process.\<close>

definition user_frame :: "kstate \<Rightarrow> usize \<Rightarrow> addr_space \<Rightarrow> addr_space \<Rightarrow> usize \<Rightarrow> bool" where
  "user_frame s tf space kspace p \<longleftrightarrow> page_aligned p \<and> p \<in> kused s \<and> p < 2 ^ 56 \<and> p \<noteq> tf \<and>
     p \<notin> set (node_addrs (page_table space)) \<union> set (node_addrs (page_table kspace))"

text \<open>What \<open>make_initcode\<close> leaves behind is what a running process needs.\<close>

lemma new_process_maps:
  assumes L: "linker_ok L" and len: "len < 2 ^ 30" and hp: "heap_ok L s0" and kok: "space_ok L kspace s0"
    and p: "pcb_since s0 s pcb sk space" and ar: "virt_areas space = init_areas L len st tx @ [trap_area tf]"
    and al: "page_aligned st" "page_aligned tx" "page_aligned tf"
  shows "pt_inv s (page_table space)" and "space_ok L kspace s"
    and "kmap s (page_table space) = init_map L len st tx tf"
    and "n \<in> set (node_addrs (page_table space)) \<union> set (node_addrs (page_table kspace)) \<Longrightarrow> n < 2 ^ 56 \<and> n \<noteq> tf"
    and "tf < 2 ^ 56" and "tf \<in> kused s"
    and "set (node_addrs (page_table space)) \<inter> set (node_addrs (page_table kspace)) = {}"
    and "q = st \<or> q = tx \<Longrightarrow> user_frame s tf space kspace q" and "st \<noteq> tx"
proof -
  have inv: "space_inv s space" and wf0: "kstate_wf s0"
    using p hp by (simp_all add: pcb_since_def heap_ok_def)
  note hs = pcb_since_heap [OF hp p]
  show pinv: "pt_inv s (page_table space)" using inv by (simp add: space_inv_def)
  have kinv: "pt_inv s0 (page_table kspace)" using kok by (simp add: space_ok_def)
  note k = pcb_since_used [OF wf0 p hs(2) kinv]
  show "space_ok L kspace s" using kok k by (simp add: space_ok_def)
  show "kmap s (page_table space) = init_map L len st tx tf"
    using inv init_map_eq [OF L len al] by (simp add: space_inv_def ar)
  have own: "tf \<in> set (concat (map area_owned (virt_areas space)))"
    using trap_area_facts(4) [OF al(3)] by (simp add: ar)
  then have tf: "tf \<in> set (space_frames space)" "tf \<notin> set (node_addrs (page_table space))"
    using owned_used(3) [OF inv] by (auto simp: space_frames_def simp del: set_concat)
  then show "tf \<in> kused s" using p by (auto simp: pcb_since_def)
  show "set (node_addrs (page_table space)) \<inter> set (node_addrs (page_table kspace)) = {}"
    using k(3) by (auto simp: space_frames_def)
  have small: "n < 2 ^ 56" if "n \<in> kused s" for n
    using heap_frame_small(3) [OF L hs(1)] that by blast
  show "tf < 2 ^ 56" using small tf(1) p by (auto simp: pcb_since_def)
  show "n < 2 ^ 56 \<and> n \<noteq> tf"
    if "n \<in> set (node_addrs (page_table space)) \<union> set (node_addrs (page_table kspace))"
    using that small pt_invD(4) [OF pinv] pt_invD(4) [OF k(1)] tf k(3) by auto
  have "concat (map area_owned (virt_areas space)) = [st, tx, tf]"
    using init_areas_facts(3) [OF L len al(1,2)] trap_area_facts(4) [OF al(3)] by (simp add: ar)
  then have d: "distinct [st, tx, tf]" "{st, tx} \<inter> set (node_addrs (page_table space)) = {}"
    "{st, tx} \<subseteq> set (space_frames space)"
    using inv owned_used(3) [OF inv] by (auto simp: space_inv_def space_frames_def simp del: set_concat)
  then show "st \<noteq> tx" by simp
  have "{st, tx} \<subseteq> kused s" using d(3) p by (auto simp: pcb_since_def)
  then show "user_frame s tf space kspace q" if q: "q = st \<or> q = tx"
    using q d al(1,2) k(3) small by (auto simp: user_frame_def)
qed

lemma process_init_running:
  assumes B: "bitflags_ok B" and L: "linker_ok L" and H: "hash_map_ok H" and hp: "heap_ok L (kern h)"
    and ks: "KERNEL_ADDRESS_SPACE h = Some kspace" and kok: "space_ok L kspace (kern h)"
    and len: "length init_text < 2 ^ 30" and free: "13 \<le> card (kfree (kern h))"
    and new: "PROCESS_MANAGER h = process_manager_new H" "CPUS h = CPUS_init" "pcbs h = []" and id0: "hart_id h = 0"
  shows "\<exists>s' pcb pm sk st tx tf space.
     process_init H B L C 0x1000 init_text h = Inr (h\<lparr>kern := s', pcbs := [pcb], PROCESS_MANAGER := pm,
       CPUS := CPUS_init[0 := \<lparr>cpu_hartid = 0, running_process = Some 0\<rparr>]\<rparr>) \<and>
     running L (h\<lparr>kern := s', pcbs := [pcb], PROCESS_MANAGER := pm,
       CPUS := CPUS_init[0 := \<lparr>cpu_hartid = 0, running_process = Some 0\<rparr>]\<rparr>) 0 tf space kspace \<and>
     pcb_since (kern h) s' pcb sk space \<and> space_ok L kspace s' \<and> heap_ok L s' \<and> tf \<in> kused s' \<and>
     user_frame s' tf space kspace st \<and> user_frame s' tf space kspace tx \<and> st \<noteq> tx \<and>
     set (node_addrs (page_table space)) \<inter> set (node_addrs (page_table kspace)) = {} \<and>
     kmap s' (page_table space) = init_map L (length init_text) st tx tf \<and>
     context_at (phys_mem s') tf = first_context C (addr_space_make_satp kspace) (sk + 0x1000) \<and>
     (\<forall>k < 4096. phys_mem s' (tx + of_nat k) = (if k < length init_text then init_text ! k else 0)) \<and>
     card (kfree (kern h)) \<le> card (kfree s') + 13"
proof -
  from make_initcode_spec [OF B L hp ks len free, of C] obtain pcb s' st tx sk tf space where
    m: "make_initcode_uninitialised B L C 0x1000 init_text 0 h = Inr (pcb, h\<lparr>kern := s'\<rparr>)" "pid pcb = 0"
    "trap_context (inner pcb) = Some (PhysAddr tf)" "pcb_since (kern h) s' pcb sk space"
    "virt_areas space = init_areas L (length init_text) st tx @ [trap_area tf]"
    "page_aligned st" "page_aligned tx" "page_aligned tf"
    "context_at (phys_mem s') tf = first_context C (addr_space_make_satp kspace) (sk + 0x1000)"
    "\<forall>k < 4096. phys_mem s' (tx + of_nat k) = (if k < length init_text then init_text ! k else 0)"
    "card (kfree (kern h)) \<le> card (kfree s') + 13"
    by (elim exE conjE) (rule that; assumption)
  from process_init_eq [OF B L hp ks len free H new id0 m(1,2)] obtain pm where
    pi: "process_init H B L C 0x1000 init_text h = Inr (h\<lparr>kern := s', pcbs := [pcb], PROCESS_MANAGER := pm,
      CPUS := CPUS_init[0 := \<lparr>cpu_hartid = 0, running_process = Some 0\<rparr>]\<rparr>)"
    by blast
  let ?h = "h\<lparr>kern := s', pcbs := [pcb], PROCESS_MANAGER := pm,
    CPUS := CPUS_init[0 := \<lparr>cpu_hartid = 0, running_process = Some 0\<rparr>]\<rparr>"
  note n = new_process_maps [OF L len hp kok m(4-8)]
  have km: "kmap s' (page_table space) TRAMPOLINE_BASE_VA = Some (entry_for (ld_trampoline_start L) 11)"
    "kmap s' (page_table space) TRAPFRAME_BASE_USER_VA = Some (entry_for tf 7)"
    by (simp_all add: n(3) init_map_def TRAMPOLINE_BASE_VA_value TRAPFRAME_BASE_USER_VA_value vpn_def
        tramp_pno_def trap_pno_def)
  have "hart_id ?h = 0" using id0 by (simp add: hart_id_def reg_def)
  then have "running L ?h 0 tf space kspace"
    using m(3,4,8) n km ks trampoline_small [OF L] linker_aligned(11) [OF L]
    by (simp add: running_def CPUS_init_def N_CPUS_def pcb_since_def space_ok_def kernel_map_trampoline)
  then show ?thesis
    using pi m(4,9-11) n(2,3,6-9) pcb_since_heap(1) [OF hp m(4)]
    by (intro exI [of _ s'] exI [of _ pcb] exI [of _ pm] exI [of _ sk] exI [of _ st] exI [of _ tx]
        exI [of _ tf] exI [of _ space]) simp
qed

end
