(* ===== verification/Clint.thy ===== *)
theory Clint
  imports First_Process
begin

text \<open>
  \<^verbatim>\<open>kernel/src/clint.rs\<close> and the machine-mode handler \<^verbatim>\<open>__timervec\<close> of
  \<^verbatim>\<open>kernel/src/asm/kernelvec.S\<close>: the timer.  The registers \<open>mtime\<close> and \<open>mtimecmp\<close> of the
  interruptor are words of memory; \<open>mtime\<close> holds whatever the counter shows when it is read.
\<close>

section \<open>Starting the timer\<close>

definition SCHEDULER_INTERVAL :: usize where "SCHEDULER_INTERVAL = 1000000"

definition CLINT_TIMECMP :: "usize \<Rightarrow> usize result" where
  "CLINT_TIMECMP hart = and_then (checked_mul 8 hart) (checked_add CLINT_MTIMECMP_BASE)"

record timer_scratch =
  tmp_regs :: "usize list"       \<comment> \<open>an array of 3\<close>
  mtime_addr :: usize
  mtimecmp_addr :: usize
  interval :: usize

definition scratch_at :: "pmem \<Rightarrow> usize \<Rightarrow> timer_scratch" where
  "scratch_at m p =
     \<lparr>tmp_regs = [load_usize m p, load_usize m (p + 8), load_usize m (p + 16)],
      mtime_addr = load_usize m (p + 24), mtimecmp_addr = load_usize m (p + 32),
      interval = load_usize m (p + 40)\<rparr>"

text \<open>The element of \<open>TIMER_SCRATCHES\<close> with a given index: six words each.\<close>

definition TIMER_SCRATCHES :: "code_symbols \<Rightarrow> usize \<Rightarrow> usize result" where
  "TIMER_SCRATCHES C i =
     (if unat i < N_CPUS then Ok (sym_timer_scratches C + 48 * i) else Panic IndexOutOfBounds)"

definition timer_init :: "riscv_ops \<Rightarrow> code_symbols \<Rightarrow> 'a hart_scheme \<Rightarrow> 'a hart_scheme result" where
  "timer_init R C h =
     (let i = hart_id h
      in and_then (CLINT_TIMECMP i) (\<lambda>mtimecmp.
         and_then (checked_add (load_usize (hmem h) CLINT_MTIME_BASE) SCHEDULER_INTERVAL) (\<lambda>next_time.
         let m1 = store_usize (hmem h) mtimecmp next_time
         in and_then (TIMER_SCRATCHES C i) (\<lambda>scratch.
            let m2 = store_usize m1 (scratch + 24) CLINT_MTIME_BASE;
                m3 = store_usize m2 (scratch + 32) mtimecmp;
                m4 = store_usize m3 (scratch + 40) SCHEDULER_INTERVAL
            in Ok ((set_hmem m4 h)\<lparr>csr_mscratch := scratch, csr_mtvec := stvec_direct R (sym_timervec C),
                 csr_mstatus := set_mie R (csr_mstatus h), csr_mie := set_mtimer R (csr_mie h)\<rparr>)))))"

section \<open>The handler\<close>

definition timervec :: "instr list" where
  "timervec =
     [Csrrw 10 Mscratch 10,
      Sd 11 (0 * 8) 10, Sd 12 (1 * 8) 10, Sd 13 (2 * 8) 10,
      Ld 11 (4 * 8) 10, Ld 12 (5 * 8) 10, Ld 13 0 11, Add 13 13 12, Sd 13 0 11,
      Li 11 2, Csrw Sip 11,
      Ld 11 (0 * 8) 10, Ld 12 (1 * 8) 10, Ld 13 (2 * 8) 10,
      Csrrw 10 Mscratch 10, Mret]"

text \<open>
  What the hardware does on a trap to machine mode: it saves the program counter, moves \<open>MIE\<close> to
  \<open>MPIE\<close>, records the mode in \<open>MPP\<close> and jumps to the handler.  Nothing reads \<^verbatim>\<open>mcause\<close>.
\<close>

definition mtrap_status :: "privilege \<Rightarrow> usize \<Rightarrow> usize" where
  "mtrap_status p x =
     (let y = unset_bit 3 (if bit x 3 then set_bit 7 x else unset_bit 7 x)
      in case p of
           UserMode \<Rightarrow> unset_bit 12 (unset_bit 11 y)
         | SupervisorMode \<Rightarrow> unset_bit 12 (set_bit 11 y)
         | MachineMode \<Rightarrow> set_bit 12 (set_bit 11 y))"

definition take_mtrap :: "'a hart_scheme \<Rightarrow> 'a hart_scheme" where
  "take_mtrap h = h\<lparr>csr_mepc := pc h, csr_mstatus := mtrap_status (mode h) (csr_mstatus h),
     mode := MachineMode, pc := csr_mtvec h\<rparr>"

lemma mret_mode_mtrap: "mret_mode (mtrap_status p x) = p"
  by (cases p) (simp_all add: mret_mode_def mtrap_status_def Let_def bit_unset_bit_iff bit_set_bit_iff)

section \<open>The scratch area of a hart\<close>

text \<open>
  The words of the scratch area at \<open>p\<close> and the compare register at \<open>c\<close> do not overlap.
\<close>

definition scratch_ok :: "usize \<Rightarrow> usize \<Rightarrow> bool" where
  "scratch_ok p c \<longleftrightarrow> unat p + 48 \<le> 2 ^ 64 \<and> unat c + 8 \<le> unat p"

lemma scratch_apart:
  assumes "scratch_ok p c" and "i < 6" and "j < 6" and "i \<noteq> j"
  shows "words_apart (p + of_nat (8 * i)) (p + of_nat (8 * j))" and "words_apart c (p + of_nat (8 * i))"
    and "words_apart (p + of_nat (8 * i)) c"
proof -
  have u: "unat (p + of_nat (8 * k)) = unat p + 8 * k" if "k < 6" for k
  proof -
    have "unat (of_nat (8 * k) :: usize) = 8 * k" using that by (intro unat_of_nat_small) simp
    then show ?thesis using that assms(1) by (simp add: scratch_ok_def unat_word_ariths(1))
  qed
  have b: "unat (p + of_nat (8 * k)) + 8 \<le> 2 ^ 64" if "k < 6" for k
    using u [OF that] that assms(1) by (simp add: scratch_ok_def)
  show "words_apart (p + of_nat (8 * i)) (p + of_nat (8 * j))"
    using assms(2-4) u [OF assms(2)] u [OF assms(3)] b [OF assms(2)] b [OF assms(3)]
    by (cases "i < j") (auto intro: words_apartI)
  show "words_apart c (p + of_nat (8 * i))" "words_apart (p + of_nat (8 * i)) c"
    using assms(1,2) u [OF assms(2)] b [OF assms(2)] by (auto simp: scratch_ok_def intro: words_apartI)
qed

text \<open>The handler as one step: it advances the compare register and raises the software interrupt.\<close>

definition tick_mem :: "'a hart_scheme \<Rightarrow> pmem" where
  "tick_mem h =
     (let m = hmem h; p = csr_mscratch h; c = load_usize m (p + 32);
          m1 = store_usize m p (gpr h 11);
          m2 = store_usize m1 (p + 8) (gpr h 12);
          m3 = store_usize m2 (p + 16) (gpr h 13)
      in store_usize m3 c (load_usize m c + load_usize m (p + 40)))"

lemma timervec_spec:
  assumes mode: "mode h = MachineMode" and ok: "scratch_ok (csr_mscratch h) (load_usize (hmem h) (csr_mscratch h + 32))"
  shows "exec timervec h =
    Some (h\<lparr>kern := (kern h)\<lparr>phys_mem := tick_mem h\<rparr>, pc := csr_mepc h, mode := mret_mode (csr_mstatus h),
      csr_sip := set_bit 1 (csr_sip h), csr_mstatus := mret_status (csr_mstatus h)\<rparr>)"
proof -
  let ?p = "csr_mscratch h" and ?c = "load_usize (hmem h) (csr_mscratch h + 32)"
  have ap: "words_apart (?p + of_nat (8 * i)) (?p + of_nat (8 * j))" if "i < 6" "j < 6" "i \<noteq> j" for i j
    using scratch_apart(1) [OF ok that] .
  note a = ap [of 0 1, simplified] ap [of 0 2, simplified] ap [of 0 4, simplified] ap [of 0 5, simplified]
    ap [of 1 0, simplified] ap [of 1 2, simplified] ap [of 1 4, simplified] ap [of 1 5, simplified]
    ap [of 2 0, simplified] ap [of 2 1, simplified] ap [of 2 4, simplified] ap [of 2 5, simplified]
  have cp: "words_apart ?c (?p + of_nat (8 * i))" "words_apart (?p + of_nat (8 * i)) ?c" if "i < 5" for i
    using scratch_apart(2,3) [OF ok, of i 5] that by simp_all
  note c = cp [of 0, simplified] cp [of 1, simplified] cp [of 2, simplified]
  have x: "hw_translate satp MachineMode m acc va = Some va" for satp m acc va
    by (simp add: hw_translate_def)
  show ?thesis
    unfolding timervec_def tick_mem_def Let_def
    by (rule trans, simp add: mode x set_reg_def reg_def set_hmem_def load_store_apart a c)
       (rule arg_cong [where f = Some], rule hart.equality; simp add: fun_eq_iff)
qed

lemma tick_mem_loads:
  assumes ok: "scratch_ok (csr_mscratch h) (load_usize (hmem h) (csr_mscratch h + 32))"
  defines "p \<equiv> csr_mscratch h" and "c \<equiv> load_usize (hmem h) (csr_mscratch h + 32)"
  shows "load_usize (tick_mem h) c = load_usize (hmem h) c + load_usize (hmem h) (p + 40)"
    and "load_usize (tick_mem h) (p + 32) = load_usize (hmem h) (p + 32)"
    and "load_usize (tick_mem h) (p + 40) = load_usize (hmem h) (p + 40)"
    and "\<not> unat (x - p) < 48 \<Longrightarrow> \<not> unat (x - c) < 8 \<Longrightarrow> tick_mem h x = hmem h x"
proof -
  show "load_usize (tick_mem h) c = load_usize (hmem h) c + load_usize (hmem h) (p + 40)"
    by (simp add: tick_mem_def Let_def c_def p_def)
  have ap: "words_apart (p + of_nat (8 * i)) (p + of_nat (8 * j))" "words_apart c (p + of_nat (8 * j))"
    if "i < 6" "j < 6" "i \<noteq> j" for i j
    using scratch_apart [OF ok that] scratch_apart [OF ok that(2,1)] that(3) by (simp_all add: p_def c_def)
  note a = ap [of 0 4, simplified] ap [of 0 5, simplified] ap [of 1 4, simplified] ap [of 1 5, simplified]
    ap [of 2 4, simplified] ap [of 2 5, simplified]
  show "load_usize (tick_mem h) (p + 32) = load_usize (hmem h) (p + 32)"
    "load_usize (tick_mem h) (p + 40) = load_usize (hmem h) (p + 40)"
    using a by (simp_all add: tick_mem_def Let_def load_store_apart p_def c_def)
  assume x: "\<not> unat (x - p) < 48" "\<not> unat (x - c) < 8"
  have "\<not> unat (x - (p + of_nat k)) < 8" if "k \<le> 16" for k
  proof
    assume y: "unat (x - (p + of_nat k)) < 8"
    have "x - p = (x - (p + of_nat k)) + of_nat k" by simp
    then have "unat (x - p) \<le> unat (x - (p + of_nat k)) + unat (of_nat k :: usize)"
      using mod_less_eq_dividend by (metis unat_word_ariths(1))
    moreover have "unat (of_nat k :: usize) = k" using that by (intro unat_of_nat_small) simp
    ultimately show False using x(1) y that by simp
  qed
  from this [of 0] this [of 8] this [of 16] x(2) show "tick_mem h x = hmem h x"
    by (simp add: tick_mem_def Let_def store_usize_def p_def c_def)
qed

section \<open>The timer after its start\<close>

lemma CLINT_TIMECMP_small:
  assumes "unat i < 8"
  shows "CLINT_TIMECMP i = Inr (CLINT_MTIMECMP_BASE + 8 * i)"
    and "unat (CLINT_MTIMECMP_BASE + 8 * i) = 0x2004000 + 8 * unat i"
proof -
  have u: "unat (8 * i) = 8 * unat i" using assms by (simp add: unat_word_ariths(2))
  then have "checked_mul 8 i = Inr (8 * i)" using assms by (simp add: checked_mul_def)
  then show "CLINT_TIMECMP i = Inr (CLINT_MTIMECMP_BASE + 8 * i)"
    using u assms by (simp add: CLINT_TIMECMP_def checked_add_def CLINT_MTIMECMP_BASE_def CLINT_BASE_def)
  show "unat (CLINT_MTIMECMP_BASE + 8 * i) = 0x2004000 + 8 * unat i"
    using u assms by (simp add: CLINT_MTIMECMP_BASE_def CLINT_BASE_def unat_word_ariths(1))
qed

lemma timer_scratch_bounds:
  assumes L: "linker_ok L" and C: "code_ok L C" and i: "unat i < 8"
  shows "unat (sym_timer_scratches C + 48 * i) = unat (sym_timer_scratches C) + 48 * unat i"
    and "0x80000000 \<le> unat (sym_timer_scratches C + 48 * i)"
    and "unat (sym_timer_scratches C + 48 * i) + 48 \<le> unat (ld_bss_end L)"
    and "unat (ld_bss_end L) \<le> 0x88000000"
proof -
  have s: "unat (sym_timer_scratches C) + 384 \<le> unat (ld_bss_end L)" "ld_bss_start L \<le> sym_timer_scratches C"
    using C by (simp_all add: code_ok_def)
  show e: "unat (ld_bss_end L) \<le> 0x88000000" using linker_stack(2) [OF L] by simp
  have "unat (48 * i) = 48 * unat i" using i by (simp add: unat_word_ariths(2))
  then show u: "unat (sym_timer_scratches C + 48 * i) = unat (sym_timer_scratches C) + 48 * unat i"
    using i s(1) e by (simp add: unat_word_ariths(1))
  show "unat (sym_timer_scratches C + 48 * i) + 48 \<le> unat (ld_bss_end L)"
    using u i s(1) by simp
  have "0x80000 \<le> pno (ld_bss_start L)"
    using linker_pnos [OF L] by simp
  then have "0x80000000 \<le> unat (ld_bss_start L)" by (simp add: pno_def)
  then show "0x80000000 \<le> unat (sym_timer_scratches C + 48 * i)"
    using s(2) u by (simp add: word_le_nat_alt)
qed

lemma timer_init_spec:
  assumes R: "riscv_ok R" and L: "linker_ok L" and C: "code_ok L C" and i: "unat (hart_id h) < 8"
    and t: "unat (load_usize (hmem h) CLINT_MTIME_BASE) + 1000000 < 2 ^ 64"
  defines "p \<equiv> sym_timer_scratches C + 48 * hart_id h" and "c \<equiv> CLINT_MTIMECMP_BASE + 8 * hart_id h"
  shows "\<exists>m'. timer_init R C h = Inr (h\<lparr>kern := (kern h)\<lparr>phys_mem := m'\<rparr>, csr_mstatus := set_bit 3 (csr_mstatus h),
      csr_mie := set_bit 7 (csr_mie h), csr_mtvec := sym_timervec C, csr_mscratch := p\<rparr>) \<and>
    scratch_ok p c \<and> load_usize m' (p + 24) = CLINT_MTIME_BASE \<and> load_usize m' (p + 32) = c \<and>
    load_usize m' (p + 40) = SCHEDULER_INTERVAL \<and>
    load_usize m' c = load_usize (hmem h) CLINT_MTIME_BASE + SCHEDULER_INTERVAL"
proof -
  note b = timer_scratch_bounds [OF L C i, folded p_def] and tc = CLINT_TIMECMP_small [OF i, folded c_def]
  have ok: "scratch_ok p c" using b tc(2) i by (simp add: scratch_ok_def)
  have ap: "words_apart (p + of_nat (8 * i)) (p + of_nat (8 * j))" "words_apart (p + of_nat (8 * i)) c"
    if "i < 6" "j < 6" "i \<noteq> j" for i j
    using scratch_apart(1,3) [OF ok that] by simp_all
  note a = ap [of 3 4, simplified] ap [of 3 5, simplified] ap [of 4 5, simplified] ap [of 4 3, simplified]
    ap [of 5 3, simplified] ap [of 5 4, simplified]
  let ?t = "load_usize (hmem h) CLINT_MTIME_BASE + SCHEDULER_INTERVAL"
  let ?m = "store_usize (store_usize (store_usize (store_usize (hmem h) c ?t) (p + 24) CLINT_MTIME_BASE)
    (p + 32) c) (p + 40) SCHEDULER_INTERVAL"
  have nt: "checked_add (load_usize (hmem h) CLINT_MTIME_BASE) SCHEDULER_INTERVAL = Inr ?t"
    using t by (simp add: checked_add_def SCHEDULER_INTERVAL_def)
  have sv: "stvec_direct R (sym_timervec C) = sym_timervec C"
    using C by (intro riscv_okD(1) [OF R]) (simp add: code_ok_def)
  have sc: "TIMER_SCRATCHES C (hart_id h) = Inr p"
    using i by (simp add: TIMER_SCRATCHES_def N_CPUS_def p_def)
  have "timer_init R C h = Inr (h\<lparr>kern := (kern h)\<lparr>phys_mem := ?m\<rparr>, csr_mstatus := set_bit 3 (csr_mstatus h),
      csr_mie := set_bit 7 (csr_mie h), csr_mtvec := sym_timervec C, csr_mscratch := p\<rparr>)"
    unfolding timer_init_def Let_def tc(1) nt sc and_then_Ok sv riscv_okD(7,8) [OF R] set_hmem_def
    by (rule arg_cong [where f = Inr], rule hart.equality) simp_all
  moreover have "load_usize ?m (p + 24) = CLINT_MTIME_BASE \<and> load_usize ?m (p + 32) = c \<and>
      load_usize ?m (p + 40) = SCHEDULER_INTERVAL \<and> load_usize ?m c = ?t"
    using a by (simp add: load_store_apart)
  ultimately show ?thesis using ok by blast
qed

end
