(* ===== verification/Boot.thy ===== *)
theory Boot
  imports Clint
begin

text \<open>
  \<^verbatim>\<open>kernel/src/asm/boot.S\<close>: the first code that every hart runs.  It clears the section
  \<^verbatim>\<open>.bss\<close> in a loop and gives the hart its part of the boot stacks.
\<close>

section \<open>The code\<close>

text \<open>The loop at label 1: \<open>a\<close> and \<open>e\<close> are the registers \<open>a0\<close> and \<open>a1\<close>.\<close>

partial_function (option) bss_loop :: "usize \<Rightarrow> usize \<Rightarrow> pmem \<Rightarrow> pmem option" where
  "bss_loop a e m =
     (let m1 = store_usize m a 0; a1 = a + 8
      in if a1 < e then bss_loop a1 e m1 else Some m1)"

definition clear_bss :: "linker_symbols \<Rightarrow> pmem \<Rightarrow> pmem option" where
  "clear_bss L m =
     (if ld_bss_end L \<le> ld_bss_start L then Some m else bss_loop (ld_bss_start L) (ld_bss_end L) m)"

definition boot_stack :: "linker_symbols \<Rightarrow> instr list" where
  "boot_stack L =
     [Li 2 (ld_kernel_stack_start L), Li 10 0x10000, Csrr 11 Mhartid, Addi 11 11 1, Mul 10 10 11, Add 2 2 10]"

definition boot_start :: "linker_symbols \<Rightarrow> 'a hart_scheme \<Rightarrow> 'a hart_scheme option" where
  "boot_start L h = Option.bind (clear_bss L (hmem h)) (\<lambda>m. exec (boot_stack L) (set_hmem m h))"

section \<open>The loop\<close>

lemma bss_loop_spec:
  assumes "unat a + 8 * Suc n = unat e"
  shows "\<exists>m'. bss_loop a e m = Some m' \<and> (\<forall>x. m' x = (if a \<le> x \<and> x < e then 0 else m x))"
  using assms
proof (induction n arbitrary: a m)
  case 0
  have u: "unat (a + 8) = unat e"
    using 0 unat_usize_less [of e] by (simp add: unat_word_ariths(1))
  then have e: "a + 8 = e" by (simp add: word_unat_eq_iff)
  have "store_usize m a 0 x = (if a \<le> x \<and> x < e then 0 else m x)" for x
    using 0 unat_usize_less [of e]
    by (auto simp: store_usize_def word_le_nat_alt word_less_nat_alt unat_sub_if')
  then show ?case
    by (subst bss_loop.simps) (simp add: e Let_def)
next
  case (Suc n)
  have u: "unat (a + 8) = unat a + 8"
    using Suc.prems unat_usize_less [of e] by (simp add: unat_word_ariths(1))
  have "unat (a + 8) + 8 * Suc n = unat e" using u Suc.prems by simp
  from Suc.IH [OF this, of "store_usize m a 0"] obtain m' where
    m': "bss_loop (a + 8) e (store_usize m a 0) = Some m'"
    "\<And>x. m' x = (if a + 8 \<le> x \<and> x < e then 0 else store_usize m a 0 x)"
    by blast
  have "m' x = (if a \<le> x \<and> x < e then 0 else m x)" for x
    using u Suc.prems unat_usize_less [of e] unfolding m'(2)
    by (auto simp: store_usize_def word_le_nat_alt word_less_nat_alt unat_sub_if' split: if_splits)
  moreover have "a + 8 < e" using u Suc.prems by (simp add: word_less_nat_alt)
  ultimately show ?case
    using m'(1) by (subst bss_loop.simps) (simp add: Let_def)
qed

lemma clear_bss_spec:
  assumes L: "linker_ok L"
  shows "\<exists>m'. clear_bss L m = Some m' \<and> (\<forall>x. m' x = (if ld_bss_start L \<le> x \<and> x < ld_bss_end L then 0 else m x))"
proof (cases "ld_bss_end L \<le> ld_bss_start L")
  case True
  then have "\<not> (ld_bss_start L \<le> x \<and> x < ld_bss_end L)" for x by auto
  with True show ?thesis by (auto simp: clear_bss_def)
next
  case False
  obtain j k where "unat (ld_bss_start L) = 4096 * j" "unat (ld_bss_end L) = 4096 * k"
    using linker_aligned(7,8) [OF L] by (auto simp: page_aligned_def elim!: dvdE)
  moreover from this False have "j < k" by (simp add: word_le_nat_alt)
  ultimately have "unat (ld_bss_start L) + 8 * Suc (512 * (k - j) - 1) = unat (ld_bss_end L)" by simp
  from bss_loop_spec [OF this, of m] False show ?thesis by (simp add: clear_bss_def)
qed

lemma boot_start_spec:
  assumes L: "linker_ok L"
  shows "\<exists>m'. boot_start L h = Some (h\<lparr>kern := (kern h)\<lparr>phys_mem := m'\<rparr>,
      gpr := (gpr h)(10 := 0x10000 * (csr_mhartid h + 1), 11 := csr_mhartid h + 1,
        2 := ld_kernel_stack_start L + 0x10000 * (csr_mhartid h + 1))\<rparr>) \<and>
    (\<forall>x. m' x = (if ld_bss_start L \<le> x \<and> x < ld_bss_end L then 0 else hmem h x))"
proof -
  obtain m' where m': "clear_bss L (hmem h) = Some m'"
    "\<forall>x. m' x = (if ld_bss_start L \<le> x \<and> x < ld_bss_end L then 0 else hmem h x)"
    using clear_bss_spec [OF L] by blast
  have "exec (boot_stack L) (set_hmem m' h) = Some (h\<lparr>kern := (kern h)\<lparr>phys_mem := m'\<rparr>,
      gpr := (gpr h)(10 := 0x10000 * (csr_mhartid h + 1), 11 := csr_mhartid h + 1,
        2 := ld_kernel_stack_start L + 0x10000 * (csr_mhartid h + 1))\<rparr>)"
    unfolding boot_stack_def
    by (rule trans, simp add: set_reg_def reg_def set_hmem_def, rule arg_cong [where f = Some])
       (rule hart.equality; simp add: fun_eq_iff distrib_left)
  with m' show ?thesis
    unfolding boot_start_def by (intro exI [of _ m'] conjI) simp_all
qed

end
