(* ===== verification/Mmio.thy ===== *)
theory Mmio
  imports Layout
begin

text \<open>
  Memory-mapped devices.  A device is not code of the kernel: its state is a type \<open>'d\<close>, and the
  volatile accesses of the drivers are the fields of the record \<open>D\<close>, an argument of every
  driver function.  A read may change the device.
\<close>

record 'd mmio =
  read_u8 :: "usize \<Rightarrow> 'd \<Rightarrow> u8 \<times> 'd"
  write_u8 :: "usize \<Rightarrow> u8 \<Rightarrow> 'd \<Rightarrow> 'd"
  read_u32 :: "usize \<Rightarrow> 'd \<Rightarrow> u32 \<times> 'd"
  write_u32 :: "usize \<Rightarrow> u32 \<Rightarrow> 'd \<Rightarrow> 'd"

end
