(* ===== verification/Plic.thy ===== *)
theory Plic
  imports Mmio Hart
begin

text \<open>
  \<^verbatim>\<open>kernel/src/plic.rs\<close>: the driver of the interrupt controller.  The registers are 32-bit words at
  addresses computed, with checked arithmetic, from the number of the hart.
\<close>

section \<open>Registers\<close>

definition PLIC_MENABLE_BASE :: usize where "PLIC_MENABLE_BASE = PLIC_BASE + 0x2000"
definition PLIC_SENABLE_BASE :: usize where "PLIC_SENABLE_BASE = PLIC_BASE + 0x2080"
definition PLIC_MPRIORITY_BASE :: usize where "PLIC_MPRIORITY_BASE = PLIC_BASE + 0x200000"
definition PLIC_SPRIORITY_BASE :: usize where "PLIC_SPRIORITY_BASE = PLIC_BASE + 0x201000"
definition PLIC_MCLAIM_BASE :: usize where "PLIC_MCLAIM_BASE = PLIC_BASE + 0x200004"
definition PLIC_SCLAIM_BASE :: usize where "PLIC_SCLAIM_BASE = PLIC_BASE + 0x201004"

definition PLIC_MENABLE :: "usize \<Rightarrow> usize result" where
  "PLIC_MENABLE hart = and_then (checked_mul hart 0x100) (checked_add PLIC_MENABLE_BASE)"

definition PLIC_SENABLE :: "usize \<Rightarrow> usize result" where
  "PLIC_SENABLE hart = and_then (checked_mul hart 0x100) (checked_add PLIC_SENABLE_BASE)"

definition PLIC_MPRIORITY :: "usize \<Rightarrow> usize result" where
  "PLIC_MPRIORITY hart = and_then (checked_mul hart 0x2000) (checked_add PLIC_MPRIORITY_BASE)"

definition PLIC_SPRIORITY :: "usize \<Rightarrow> usize result" where
  "PLIC_SPRIORITY hart = and_then (checked_mul hart 0x2000) (checked_add PLIC_SPRIORITY_BASE)"

definition PLIC_MCLAIM :: "usize \<Rightarrow> usize result" where
  "PLIC_MCLAIM hart = and_then (checked_mul hart 0x2000) (checked_add PLIC_MCLAIM_BASE)"

definition PLIC_SCLAIM :: "usize \<Rightarrow> usize result" where
  "PLIC_SCLAIM hart = and_then (checked_mul hart 0x2000) (checked_add PLIC_SCLAIM_BASE)"

definition URT0_IRQ :: u32 where "URT0_IRQ = 10"
definition VIRTIO0_IRQ :: u32 where "VIRTIO0_IRQ = 1"

section \<open>The driver\<close>

definition plic_next :: "'d mmio \<Rightarrow> 'a hart_scheme \<Rightarrow> 'd \<Rightarrow> (u32 option \<times> 'd) result" where
  "plic_next D h d =
     and_then (PLIC_SCLAIM (hart_id h)) (\<lambda>claim_reg.
       let (int_id, d') = read_u32 D claim_reg d
       in Ok (if int_id = 0 then None else Some int_id, d'))"

definition plic_complete :: "'d mmio \<Rightarrow> 'a hart_scheme \<Rightarrow> u32 \<Rightarrow> 'd \<Rightarrow> 'd result" where
  "plic_complete D h n d =
     and_then (PLIC_SCLAIM (hart_id h)) (\<lambda>complete_reg. Ok (write_u32 D complete_reg n d))"

definition plic_set_priority :: "'d mmio \<Rightarrow> 'a hart_scheme \<Rightarrow> u32 \<Rightarrow> u8 \<Rightarrow> 'd \<Rightarrow> 'd result" where
  "plic_set_priority D h n prio d =
     and_then (PLIC_SPRIORITY (hart_id h)) (\<lambda>prio_reg.
       let int_prio_bit = prio_reg + 4 * ucast n;
           actual_prio = ucast prio AND 7
       in Ok (write_u32 D int_prio_bit actual_prio d))"

definition plic_set_threshold :: "'d mmio \<Rightarrow> 'a hart_scheme \<Rightarrow> u8 \<Rightarrow> 'd \<Rightarrow> 'd result" where
  "plic_set_threshold D h tsh d =
     (let actual_tsh = ucast tsh AND 7
      in and_then (PLIC_SPRIORITY (hart_id h)) (\<lambda>tsh_reg. Ok (write_u32 D tsh_reg actual_tsh d)))"

definition plic_enable :: "'d mmio \<Rightarrow> 'a hart_scheme \<Rightarrow> u32 \<Rightarrow> 'd \<Rightarrow> 'd result" where
  "plic_enable D h n d =
     and_then (PLIC_SENABLE (hart_id h)) (\<lambda>enables.
     and_then (checked_shl 1 n) (\<lambda>actual_id.
       let (v, d1) = read_u32 D enables d
       in Ok (write_u32 D enables (v OR actual_id) d1)))"

definition plic_is_pending :: "'d mmio \<Rightarrow> u32 \<Rightarrow> 'd \<Rightarrow> (bool \<times> 'd) result" where
  "plic_is_pending D n d =
     and_then (checked_shl 1 n) (\<lambda>int_pending_bit.
       let (pending_bits, d') = read_u32 D PLIC_PENDING d
       in Ok (pending_bits AND int_pending_bit \<noteq> 0, d'))"

definition plic_init_irq :: "'d mmio \<Rightarrow> u32 \<Rightarrow> 'd \<Rightarrow> 'd" where
  "plic_init_irq D n d = write_u32 D (PLIC_BASE + 4 * ucast n) 1 d"

definition plic_init :: "'d mmio \<Rightarrow> 'd \<Rightarrow> 'd" where
  "plic_init D d = plic_init_irq D VIRTIO0_IRQ (plic_init_irq D URT0_IRQ d)"

definition plic_hart_init :: "'d mmio \<Rightarrow> 'a hart_scheme \<Rightarrow> 'd \<Rightarrow> 'd result" where
  "plic_hart_init D h d =
     and_then (plic_enable D h URT0_IRQ d) (\<lambda>d1.
     and_then (plic_enable D h VIRTIO0_IRQ d1) (\<lambda>d2.
     and_then (plic_set_threshold D h 0 d2) (\<lambda>d3.
     and_then (plic_set_priority D h URT0_IRQ 1 d3) (\<lambda>d4.
       plic_set_priority D h VIRTIO0_IRQ 1 d4))))"

section \<open>Addresses\<close>

lemma checked_stride:
  fixes b :: usize
  assumes "unat i < 8" and "k \<le> 0x2000" and "unat b < 2 ^ 63"
  shows "and_then (checked_mul i k) (checked_add b) = Inr (b + i * k)" and "unat (b + i * k) = unat b + unat i * unat k"
proof -
  have k: "unat k \<le> 0x2000" using assms(2) by (simp add: word_le_nat_alt)
  have le: "unat i * unat k \<le> 7 * 0x2000" using assms(1) k by (intro mult_le_mono) simp_all
  then have u: "unat (i * k) = unat i * unat k" by (simp add: unat_word_ariths(2))
  show "and_then (checked_mul i k) (checked_add b) = Inr (b + i * k)"
    using le u assms(3) by (simp add: checked_mul_def checked_add_def)
  show "unat (b + i * k) = unat b + unat i * unat k"
    using le u assms(3) by (simp add: unat_word_ariths(1))
qed

lemmas plic_bases = PLIC_BASE_def PLIC_SENABLE_BASE_def PLIC_SPRIORITY_BASE_def PLIC_SCLAIM_BASE_def

lemma plic_addresses:
  assumes "unat i < 8"
  shows "PLIC_SENABLE i = Inr (PLIC_SENABLE_BASE + i * 0x100)"
    and "PLIC_SPRIORITY i = Inr (PLIC_SPRIORITY_BASE + i * 0x2000)"
    and "PLIC_SCLAIM i = Inr (PLIC_SCLAIM_BASE + i * 0x2000)"
    and "unat (PLIC_SENABLE_BASE + i * 0x100) = 0xc002080 + unat i * 0x100"
    and "unat (PLIC_SPRIORITY_BASE + i * 0x2000) = 0xc201000 + unat i * 0x2000"
  using checked_stride [OF assms, where k = "0x100" and b = PLIC_SENABLE_BASE] checked_stride [OF assms, where k = "0x2000" and b = PLIC_SPRIORITY_BASE]
    checked_stride [OF assms, where k = "0x2000" and b = PLIC_SCLAIM_BASE]
  by (simp_all add: PLIC_SENABLE_def PLIC_SPRIORITY_def PLIC_SCLAIM_def plic_bases)

lemma plic_hart_init_eq:
  assumes "unat (hart_id h) < 8"
  defines "en \<equiv> PLIC_SENABLE_BASE + hart_id h * 0x100" and "pr \<equiv> PLIC_SPRIORITY_BASE + hart_id h * 0x2000"
  shows "plic_hart_init D h d =
    (let (v, d1) = read_u32 D en d; d2 = write_u32 D en (v OR 0x400) d1;
         (w, d3) = read_u32 D en d2; d4 = write_u32 D en (w OR 2) d3
     in Inr (write_u32 D (pr + 4) 1 (write_u32 D (pr + 40) 1 (write_u32 D pr 0 d4))))"
  by (simp add: plic_hart_init_def plic_enable_def plic_set_threshold_def plic_set_priority_def checked_shl_def
      plic_addresses [OF assms(1)] en_def pr_def URT0_IRQ_def VIRTIO0_IRQ_def Let_def split_def)

lemma plic_words:
  assumes i: "unat i < 8"
    and a: "a \<in> {PLIC_BASE + 40, PLIC_BASE + 4, PLIC_SENABLE_BASE + i * 0x100, PLIC_SPRIORITY_BASE + i * 0x2000,
      PLIC_SPRIORITY_BASE + i * 0x2000 + 40, PLIC_SPRIORITY_BASE + i * 0x2000 + 4}"
  shows "0xc000000 \<le> unat a \<and> unat a < 0xc400000 \<and> 4 dvd unat a"
proof -
  let ?pr = "PLIC_SPRIORITY_BASE + i * 0x2000"
  note u = plic_addresses(4,5) [OF i]
  have "unat (?pr + 40) = unat ?pr + 40" "unat (?pr + 4) = unat ?pr + 4"
    using u(2) i by (simp_all add: unat_word_ariths(1))
  then show ?thesis using a u i by (auto simp: PLIC_BASE_def)
qed

section \<open>Properties\<close>

text \<open>A device that only records which registers are accessed.\<close>

definition access_log :: "usize list mmio" where
  "access_log = \<lparr>read_u8 = (\<lambda>a d. (0, d @ [a])), write_u8 = (\<lambda>a _ d. d @ [a]),
     read_u32 = (\<lambda>a d. (0, d @ [a])), write_u32 = (\<lambda>a _ d. d @ [a])\<rparr>"

lemma region_mapped:
  assumes L: "linker_ok L" and r: "(name, f, b, e) \<in> set (kernel_regions L)"
    and a: "pno b \<le> pno a" "pno a < pno e" "unat a < 2 ^ 39"
  shows "kernel_map L a = Some (entry_for (page_of a) (f OR 1))"
proof -
  have v: "vpn a = pno a" using a(3) by (simp add: vpn_def pno_def)
  have "pno a < 2 ^ 27" using a(3) by (simp add: pno_def)
  then have "page_at (vpn a) = page_of a"
    by (simp add: word_unat_eq_iff page_at v unat_page_of pno_def)
  with region_perms [OF L r a(1,2)] show ?thesis
    by (simp add: kernel_map_def v)
qed

lemma plic_mapped:
  assumes L: "linker_ok L" and a: "0xc000000 \<le> unat a" "unat a < 0xc400000"
  shows "kernel_map L a = Some (entry_for (page_of a) 7)"
proof -
  have "(''plic'', 6, PLIC_BASE, PLIC_BASE + PLIC_SIZE) \<in> set (kernel_regions L)"
    by (simp add: kernel_regions_def)
  from region_mapped [OF L this, of a] a show ?thesis
    by (simp add: pno_def PLIC_BASE_def PLIC_SIZE_def)
qed

text \<open>
  C24. The interrupt controller's driver stays in its registers: on harts 0 to 7, \<open>plic::init\<close> and
  \<open>plic::hart_init\<close> return and touch only words of the controller's region, at addresses that are
  multiples of 4 and that the kernel maps readable and writable at their own address.
\<close>

theorem plic_stays_in_region:
  assumes "linker_ok L" and "unat (hart_id h) < 8"
  shows "\<exists>accessed. plic_hart_init access_log h (plic_init access_log []) = Inr accessed \<and>
    (\<forall>a \<in> set accessed. PLIC_BASE \<le> a \<and> a < PLIC_BASE + PLIC_SIZE \<and> 4 dvd unat a \<and>
       kernel_map L a = Some (entry_for (page_of a) 7))"
proof -
  let ?en = "PLIC_SENABLE_BASE + hart_id h * 0x100" and ?pr = "PLIC_SPRIORITY_BASE + hart_id h * 0x2000"
  let ?log = "[PLIC_BASE + 40, PLIC_BASE + 4, ?en, ?en, ?en, ?en, ?pr, ?pr + 40, ?pr + 4]"
  have "plic_hart_init access_log h (plic_init access_log []) = Inr ?log"
    by (simp add: plic_hart_init_eq [OF assms(2)] access_log_def plic_init_def plic_init_irq_def URT0_IRQ_def
        VIRTIO0_IRQ_def Let_def)
  moreover have "PLIC_BASE \<le> a \<and> a < PLIC_BASE + PLIC_SIZE \<and> 4 dvd unat a \<and> kernel_map L a = Some (entry_for (page_of a) 7)"
    if "a \<in> set ?log" for a
    using plic_words [OF assms(2), of a] plic_mapped [OF assms(1), of a] that
    by (auto simp: PLIC_BASE_def PLIC_SIZE_def word_le_nat_alt word_less_nat_alt)
  ultimately show ?thesis by blast
qed

theorem plic_stays_in_region_witness:
  "\<exists>(h :: hart) accessed. plic_hart_init access_log h (plic_init access_log []) = Inr accessed \<and>
    kernel_map sample_linker (hd accessed) = Some (entry_for (page_of (hd accessed)) 7)"
proof -
  let ?h = "zero_hart"
  have "unat (hart_id ?h) < 8" by (simp add: hart_id_def reg_def zero_hart_def)
  from plic_stays_in_region [OF sample_linker_ok this] obtain accessed where
    a: "plic_hart_init access_log ?h (plic_init access_log []) = Inr accessed"
    "\<forall>a \<in> set accessed. kernel_map sample_linker a = Some (entry_for (page_of a) 7)"
    by blast
  have "accessed \<noteq> []"
    using a(1) plic_hart_init_eq [OF \<open>unat (hart_id ?h) < 8\<close>, of access_log]
    by (auto simp: access_log_def Let_def)
  then have "hd accessed \<in> set accessed" by simp
  with a show ?thesis by blast
qed

text \<open>
  C39. Setting the priority of the disk's interrupt completes an interrupt instead: \<open>set_priority\<close> adds the
  number of the interrupt to the threshold register of the hart, not to the table of priorities at
  the start of the controller, so for interrupt 1 it writes to the claim register, exactly as
  \<open>complete\<close> does, and for number 0 it writes the threshold.
\<close>

theorem set_priority_completes:
  assumes "unat (hart_id h) < 8"
  shows "plic_set_priority D h VIRTIO0_IRQ prio d = plic_complete D h (ucast prio AND 7) d \<and>
    plic_set_priority D h 0 prio d = plic_set_threshold D h prio d"
  by (simp add: plic_set_priority_def plic_complete_def plic_set_threshold_def plic_addresses [OF assms]
      VIRTIO0_IRQ_def plic_bases Let_def)

theorem set_priority_completes_witness:
  "\<exists>h :: hart. plic_set_priority access_log h VIRTIO0_IRQ 1 [] = Inr [PLIC_SCLAIM_BASE]"
proof -
  let ?h = "zero_hart"
  have "unat (hart_id ?h) < 8" "hart_id ?h = 0" by (simp_all add: hart_id_def reg_def zero_hart_def)
  from set_priority_completes [OF this(1), of access_log 1 "[]"] this(2) have
    "plic_set_priority access_log ?h VIRTIO0_IRQ 1 [] = Inr [PLIC_SCLAIM_BASE]"
    using plic_addresses(3) [of 0] by (simp add: plic_complete_def access_log_def)
  then show ?thesis by blast
qed

end
