(* ===== verification/Uart.thy ===== *)
theory Uart
  imports Mmio
begin

text \<open>
  \<^verbatim>\<open>kernel/src/uart.rs\<close>: the driver of the serial line.  Sending a byte polls the line status
  register until the transmitter is idle, a loop that only the device can end; it is a partial
  function, and \<open>None\<close> means that it does not return.
\<close>

section \<open>The driver\<close>

definition UART_BASE_ADDR :: usize where "UART_BASE_ADDR = 0x10000000"

definition RHR :: usize where "RHR = 0"
definition THR :: usize where "THR = 0"
definition IER :: usize where "IER = 1"
definition FCR :: usize where "FCR = 2"
definition LCR :: usize where "LCR = 3"
definition LSR :: usize where "LSR = 5"
definition LSR_TX_IDLE :: u8 where "LSR_TX_IDLE = push_bit 5 1"

lemmas uart_regs = RHR_def THR_def IER_def FCR_def LCR_def LSR_def LSR_TX_IDLE_def

record uart =
  uart_base_addr :: usize

definition uart_new :: "usize \<Rightarrow> uart" where
  "uart_new b = \<lparr>uart_base_addr = b\<rparr>"

definition uart_get :: "'d mmio \<Rightarrow> uart \<Rightarrow> 'd \<Rightarrow> u8 option \<times> 'd" where
  "uart_get D u d =
     (let ptr = uart_base_addr u; (v, d1) = read_u8 D (ptr + LCR) d
      in if v AND 1 = 0 then (None, d1)
         else let (c, d2) = read_u8 D (ptr + RHR) d1 in (Some c, d2))"

partial_function (option) uart_wait :: "'d mmio \<Rightarrow> uart \<Rightarrow> 'd \<Rightarrow> 'd option" where
  "uart_wait D u d =
     (let (v, d1) = read_u8 D (uart_base_addr u + LSR) d
      in if v AND LSR_TX_IDLE \<noteq> 0 then Some d1 else uart_wait D u d1)"

definition uart_put :: "'d mmio \<Rightarrow> uart \<Rightarrow> u8 \<Rightarrow> 'd \<Rightarrow> 'd option" where
  "uart_put D u c d =
     map_option (write_u8 D (uart_base_addr u + THR) c) (uart_wait D u d)"

definition uart_init :: "'d mmio \<Rightarrow> uart \<Rightarrow> 'd \<Rightarrow> 'd" where
  "uart_init D u d =
     (let ptr = uart_base_addr u;
          lcr = push_bit 0 1 OR push_bit 1 1;
          d1 = write_u8 D (ptr + LCR) lcr d;
          d2 = write_u8 D (ptr + FCR) (push_bit 0 1) d1;
          d3 = write_u8 D (ptr + IER) (push_bit 0 1) d2;
          divisor = 592 :: u16;
          divisor_least = ucast (divisor AND 0xff) :: u8;
          divisor_most = ucast (drop_bit 8 divisor) :: u8;
          d4 = write_u8 D (ptr + 3) (lcr OR push_bit 7 1) d3;
          d5 = write_u8 D (ptr + 0) divisor_least d4;
          d6 = write_u8 D (ptr + 1) divisor_most d5
      in write_u8 D (ptr + 3) lcr d6)"

fun uart_write_str :: "'d mmio \<Rightarrow> uart \<Rightarrow> u8 list \<Rightarrow> 'd \<Rightarrow> 'd option" where
  "uart_write_str D u [] d = Some d"
| "uart_write_str D u (c # s) d = Option.bind (uart_put D u c d) (uart_write_str D u s)"

text \<open>The static \<open>UART\<close> and the function that initialises it.\<close>

definition UART :: uart where
  "UART = uart_new UART_BASE_ADDR"

definition uart_module_init :: "'d mmio \<Rightarrow> 'd \<Rightarrow> 'd" where
  "uart_module_init D d = uart_init D UART d"

section \<open>The device\<close>

text \<open>
  What the data sheet of the 16550 says of the registers that the driver uses.  Offset 0 is the transmitter or the
  low byte of the divisor, offset 1 the interrupt enable register or the high byte, according to bit 7 of
  the line control register.  A byte written to the transmitter waits in its holding register or its FIFO,
  \<open>ua_queue\<close>; \<open>ua_line\<close> is what the transmitter has taken out of there so far.  \<open>ua_left\<close> bounds the number of
  polls until the queue is empty: each poll takes time, and the transmitter sends at a fixed rate.
\<close>

record uart_view =
  ua_lcr :: u8
  ua_ier :: u8
  ua_fifo_on :: bool
  ua_dll :: u8
  ua_dlm :: u8
  ua_line :: "u8 list"
  ua_queue :: "u8 list"
  ua_left :: nat

definition uart_sent :: "uart_view \<Rightarrow> u8 list" where
  "uart_sent w = ua_line w @ ua_queue w"

definition same_regs :: "uart_view \<Rightarrow> uart_view \<Rightarrow> bool" where
  "same_regs w w' \<longleftrightarrow> ua_lcr w' = ua_lcr w \<and> ua_ier w' = ua_ier w \<and> ua_fifo_on w' = ua_fifo_on w \<and>
     ua_dll w' = ua_dll w \<and> ua_dlm w' = ua_dlm w"

text \<open>Time passes: the transmitter takes some bytes from the front of the queue.\<close>

definition uart_runs :: "uart_view \<Rightarrow> uart_view \<Rightarrow> bool" where
  "uart_runs w w' \<longleftrightarrow> same_regs w w' \<and>
     (\<exists>n. ua_line w' = ua_line w @ take n (ua_queue w) \<and> ua_queue w' = drop n (ua_queue w))"

text \<open>
  Writing a register.  A byte for the transmitter is accepted when the queue is empty; what becomes of it
  otherwise depends on the FIFO.  A write to the FIFO control register may clear the queue.
\<close>

definition uart_writes :: "usize \<Rightarrow> u8 \<Rightarrow> uart_view \<Rightarrow> uart_view \<Rightarrow> bool" where
  "uart_writes off v w w' \<longleftrightarrow>
     (if off = 0 then
        (if bit (ua_lcr w) 7 then uart_runs (w\<lparr>ua_dll := v\<rparr>) w'
         else if ua_queue w = [] then uart_runs (w\<lparr>ua_queue := [v]\<rparr>) w' else same_regs w w')
      else if off = 1 then
        uart_runs (if bit (ua_lcr w) 7 then w\<lparr>ua_dlm := v\<rparr> else w\<lparr>ua_ier := v AND 0x0F\<rparr>) w'
      else if off = 2 then (\<exists>q \<in> {ua_queue w, []}. uart_runs (w\<lparr>ua_fifo_on := bit v 0, ua_queue := q\<rparr>) w')
      else uart_runs (w\<lparr>ua_lcr := v\<rparr>) w')"

text \<open>
  Reading a register.  Bit 5 of the line status register, at offset 5, says that the queue is empty; its other
  bits, and what the other registers return, are left open.
\<close>

definition uart_reads :: "usize \<Rightarrow> u8 \<Rightarrow> uart_view \<Rightarrow> uart_view \<Rightarrow> bool" where
  "uart_reads off v w w' \<longleftrightarrow> uart_runs w w' \<and>
     (off = 3 \<longrightarrow> v = ua_lcr w) \<and>
     (off = 5 \<longrightarrow> (if bit v 5 then ua_queue w' = [] else ua_left w' < ua_left w))"

text \<open>A device behaves like a 16550 at an address, seen through \<open>view\<close>.\<close>

definition uart_ok :: "'d mmio \<Rightarrow> usize \<Rightarrow> ('d \<Rightarrow> uart_view) \<Rightarrow> bool" where
  "uart_ok D b view \<longleftrightarrow>
     (\<forall>off v d. off < 4 \<longrightarrow> uart_writes off v (view d) (view (write_u8 D (b + off) v d))) \<and>
     (\<forall>off d. off < 8 \<longrightarrow> uart_reads off (fst (read_u8 D (b + off) d)) (view d) (view (snd (read_u8 D (b + off) d))))"

lemma uart_writeD:
  assumes "uart_ok D b view" and "off < 4"
  shows "uart_writes off v (view d) (view (write_u8 D (b + off) v d))"
  using assms unfolding uart_ok_def by blast

lemma uart_readD:
  assumes "uart_ok D b view" and "off < 8" and "read_u8 D (b + off) d = (v, d')"
  shows "uart_reads off v (view d) (view d')"
  using assms unfolding uart_ok_def by (metis fst_conv snd_conv)

lemma uart_runs_refl [simp]: "uart_runs w w"
  by (auto simp: uart_runs_def same_regs_def intro: exI [of _ 0])

lemma uart_runs_trans: "uart_runs w w1 \<Longrightarrow> uart_runs w1 w2 \<Longrightarrow> uart_runs w w2"
  unfolding uart_runs_def same_regs_def
  by (elim conjE exE, rename_tac n k) (rule conjI, simp, rule_tac x = "n + k" in exI, simp add: take_add add.commute)

lemma uart_runsD: "uart_runs w w' \<Longrightarrow> same_regs w w'" "uart_runs w w' \<Longrightarrow> uart_sent w' = uart_sent w"
  by (auto simp: uart_runs_def uart_sent_def)

lemma uart_runs_left [simp]: "uart_runs w (w'\<lparr>ua_left := n\<rparr>) \<longleftrightarrow> uart_runs w w'"
  by (simp add: uart_runs_def same_regs_def)

lemma uart_runs_lcr: "uart_runs w w' \<Longrightarrow> ua_lcr w' = ua_lcr w"
  by (simp add: uart_runs_def same_regs_def)

lemma same_regs_trans: "same_regs w w1 \<Longrightarrow> same_regs w1 w2 \<Longrightarrow> same_regs w w2"
  by (simp add: same_regs_def)

subsection \<open>A 16550\<close>

text \<open>
  A device of this kind, for the witnesses: the bytes of the queue go out together after three polls; the line
  status is 0x60 when nothing is left to send; a byte for a full transmitter overwrites the last one.
\<close>

definition ns16550_write :: "usize \<Rightarrow> u8 \<Rightarrow> uart_view \<Rightarrow> uart_view" where
  "ns16550_write off v w =
     (if off = 0 then
        (if bit (ua_lcr w) 7 then w\<lparr>ua_dll := v\<rparr>
         else if ua_fifo_on w \<and> length (ua_queue w) < 16 then w\<lparr>ua_queue := ua_queue w @ [v], ua_left := 3\<rparr>
         else w\<lparr>ua_queue := butlast (ua_queue w) @ [v], ua_left := 3\<rparr>)
      else if off = 1 then (if bit (ua_lcr w) 7 then w\<lparr>ua_dlm := v\<rparr> else w\<lparr>ua_ier := v AND 0x0F\<rparr>)
      else if off = 2 then w\<lparr>ua_fifo_on := bit v 0, ua_queue := if bit v 0 = ua_fifo_on w \<and> \<not> bit v 2 then ua_queue w else []\<rparr>
      else if off = 3 then w\<lparr>ua_lcr := v\<rparr> else w)"

definition ns16550_read :: "usize \<Rightarrow> uart_view \<Rightarrow> u8 \<times> uart_view" where
  "ns16550_read off w =
     (if off = 0 then (if bit (ua_lcr w) 7 then ua_dll w else 0, w)
      else if off = 1 then (if bit (ua_lcr w) 7 then ua_dlm w else ua_ier w, w)
      else if off = 2 then (if ua_fifo_on w then 0xC1 else 1, w)
      else if off = 3 then (ua_lcr w, w)
      else if off = 5 then
        (if ua_queue w = [] \<or> ua_left w = 0 then (0x60, w\<lparr>ua_line := ua_line w @ ua_queue w, ua_queue := []\<rparr>)
         else (0, w\<lparr>ua_left := ua_left w - 1\<rparr>))
      else (0, w))"

definition sim_uart :: "uart_view mmio" where
  "sim_uart = \<lparr>read_u8 = (\<lambda>a. ns16550_read (a - UART_BASE_ADDR)),
     write_u8 = (\<lambda>a. ns16550_write (a - UART_BASE_ADDR)), read_u32 = (\<lambda>_ d. (0, d)), write_u32 = (\<lambda>_ _ d. d)\<rparr>"

lemma ns16550_writes:
  assumes "off < 4"
  shows "uart_writes off v w (ns16550_write off v w)"
proof -
  have "unat off < 4" using assms by (simp add: word_less_nat_alt)
  then have "unat off = 0 \<or> unat off = 1 \<or> unat off = 2 \<or> unat off = 3" by linarith
  then consider "off = 0" | "off = 1" | "off = 2" | "off = 3" by (auto simp: word_unat_eq_iff)
  then show ?thesis
  proof cases
    case 1
    then show ?thesis by (simp add: uart_writes_def ns16550_write_def same_regs_def)
  qed (simp_all add: uart_writes_def ns16550_write_def)
qed

lemma ns16550_reads: "uart_reads off (fst (ns16550_read off w)) w (snd (ns16550_read off w))"
proof (cases "off = 5 \<and> (ua_queue w = [] \<or> ua_left w = 0)")
  case True
  then show ?thesis
    by (auto simp: uart_reads_def ns16550_read_def uart_runs_def same_regs_def bit_numeral_rec
        intro!: exI [of _ "length (ua_queue w)"])
next
  case False
  then show ?thesis by (auto simp: uart_reads_def ns16550_read_def)
qed

lemma sim_uart_ok: "uart_ok sim_uart UART_BASE_ADDR (\<lambda>w. w)"
  using ns16550_writes ns16550_reads by (simp add: uart_ok_def sim_uart_def)

definition reset_uart :: uart_view where
  "reset_uart = \<lparr>ua_lcr = 0, ua_ier = 0, ua_fifo_on = False, ua_dll = 0, ua_dlm = 0, ua_line = [], ua_queue = [], ua_left = 2\<rparr>"

section \<open>Sending\<close>

lemma uart_wait_returns:
  assumes ok: "uart_ok D b view"
  shows "\<exists>d'. uart_wait D \<lparr>uart_base_addr = b\<rparr> d = Some d' \<and> uart_runs (view d) (view d') \<and> ua_queue (view d') = []"
proof (induction "ua_left (view d)" arbitrary: d rule: less_induct)
  case less
  obtain v d1 where r: "read_u8 D (b + 5) d = (v, d1)" by fastforce
  have w: "uart_reads 5 v (view d) (view d1)" by (rule uart_readD [OF ok _ r]) simp
  have b5: "v AND LSR_TX_IDLE \<noteq> 0 \<longleftrightarrow> bit v 5"
    by (simp add: LSR_TX_IDLE_def bit_iff_and_push_bit_not_eq_0)
  show ?case
  proof (cases "bit v 5")
    case True
    then show ?thesis
      using w r b5 by (subst uart_wait.simps) (simp add: uart_reads_def LSR_def)
  next
    case False
    then have "ua_left (view d1) < ua_left (view d)" using w by (simp add: uart_reads_def)
    from less.hyps [OF this] obtain d' where "uart_wait D \<lparr>uart_base_addr = b\<rparr> d1 = Some d'"
      "uart_runs (view d1) (view d')" "ua_queue (view d') = []"
      by blast
    then show ?thesis
      using False w r b5 uart_runs_trans by (subst uart_wait.simps) (auto simp: uart_reads_def LSR_def)
  qed
qed

lemma uart_put_returns:
  assumes ok: "uart_ok D b view" and "\<not> bit (ua_lcr (view d)) 7"
  shows "\<exists>d'. uart_put D \<lparr>uart_base_addr = b\<rparr> c d = Some d' \<and> same_regs (view d) (view d') \<and>
    uart_sent (view d') = uart_sent (view d) @ [c]"
proof -
  obtain d1 where d1: "uart_wait D \<lparr>uart_base_addr = b\<rparr> d = Some d1" "uart_runs (view d) (view d1)" "ua_queue (view d1) = []"
    using uart_wait_returns [OF ok] by blast
  let ?d = "write_u8 D (b + 0) c d1"
  have "uart_writes 0 c (view d1) (view ?d)" by (rule uart_writeD [OF ok]) simp
  then have r: "uart_runs ((view d1)\<lparr>ua_queue := [c]\<rparr>) (view ?d)"
    using assms(2) uart_runs_lcr [OF d1(2)] d1(3) by (simp add: uart_writes_def)
  have "same_regs (view d1) (view ?d)" using uart_runsD(1) [OF r] by (simp add: same_regs_def)
  moreover have "uart_sent (view ?d) = uart_sent (view d1) @ [c]"
    using uart_runsD(2) [OF r] d1(3) by (simp add: uart_sent_def)
  ultimately show ?thesis
    using d1(1) uart_runsD [OF d1(2)] same_regs_trans by (auto simp: uart_put_def THR_def)
qed

lemma uart_write_str_returns:
  assumes ok: "uart_ok D b view" and "\<not> bit (ua_lcr (view d)) 7"
  shows "\<exists>d'. uart_write_str D \<lparr>uart_base_addr = b\<rparr> s d = Some d' \<and> uart_sent (view d') = uart_sent (view d) @ s \<and>
    same_regs (view d) (view d')"
  using assms(2)
proof (induction s arbitrary: d)
  case Nil
  then show ?case by (simp add: same_regs_def)
next
  case (Cons c s)
  obtain d1 where d1: "uart_put D \<lparr>uart_base_addr = b\<rparr> c d = Some d1" "same_regs (view d) (view d1)"
    "uart_sent (view d1) = uart_sent (view d) @ [c]"
    using uart_put_returns [OF ok Cons.prems] by blast
  have "\<not> bit (ua_lcr (view d1)) 7" using Cons.prems d1(2) by (simp add: same_regs_def)
  from Cons.IH [OF this] d1 show ?case using same_regs_trans by auto
qed

lemma uart_init_view:
  fixes d :: 'd
  assumes "uart_ok D b view"
  defines "w \<equiv> view (uart_init D \<lparr>uart_base_addr = b\<rparr> d)"
  shows "ua_lcr w = 3 \<and> ua_fifo_on w \<and> ua_ier w = 1 \<and> ua_dll w = 80 \<and> ua_dlm w = 2"
proof -
  define d1 where "d1 = write_u8 D (b + 3) 3 d"
  define d2 where "d2 = write_u8 D (b + 2) 1 d1"
  define d3 where "d3 = write_u8 D (b + 1) 1 d2"
  define d4 where "d4 = write_u8 D (b + 3) 0x83 d3"
  define d5 where "d5 = write_u8 D (b + 0) 80 d4"
  define d6 where "d6 = write_u8 D (b + 1) 2 d5"
  have w: "w = view (write_u8 D (b + 3) 3 d6)"
    by (simp add: w_def uart_init_def uart_regs Let_def d1_def d2_def d3_def d4_def d5_def d6_def)
  note wr = uart_writeD [OF assms(1)]
  have 1: "ua_lcr (view d1) = 3"
    using wr [of 3 3 d] by (simp add: uart_writes_def d1_def uart_runs_def same_regs_def)
  have 2: "ua_lcr (view d2) = 3 \<and> ua_fifo_on (view d2)"
    using wr [of 2 1 d1] 1 by (auto simp: uart_writes_def d2_def uart_runs_def same_regs_def)
  have 3: "ua_lcr (view d3) = 3 \<and> ua_fifo_on (view d3) \<and> ua_ier (view d3) = 1"
    using wr [of 1 1 d2] 2 by (simp add: uart_writes_def d3_def uart_runs_def same_regs_def bit_numeral_rec)
  have 4: "ua_lcr (view d4) = 0x83 \<and> ua_fifo_on (view d4) \<and> ua_ier (view d4) = 1"
    using wr [of 3 "0x83" d3] 3 by (simp add: uart_writes_def d4_def uart_runs_def same_regs_def)
  have 5: "ua_lcr (view d5) = 0x83 \<and> ua_fifo_on (view d5) \<and> ua_ier (view d5) = 1 \<and> ua_dll (view d5) = 80"
    using wr [of 0 80 d4] 4 by (simp add: uart_writes_def d5_def uart_runs_def same_regs_def bit_numeral_rec)
  have 6: "ua_lcr (view d6) = 0x83 \<and> ua_fifo_on (view d6) \<and> ua_ier (view d6) = 1 \<and> ua_dll (view d6) = 80 \<and> ua_dlm (view d6) = 2"
    using wr [of 1 2 d5] 5 by (simp add: uart_writes_def d6_def uart_runs_def same_regs_def bit_numeral_rec)
  show ?thesis
    unfolding w using wr [of 3 3 d6] 6 by (simp add: uart_writes_def uart_runs_def same_regs_def)
qed

section \<open>Properties\<close>

text \<open>
  C20. The serial line works: after \<open>uart::init\<close> on a 16550 the line is set to 8 bits with the divisor 592, the
  FIFO and the receive interrupt are enabled and the divisor latch is closed; from then on printing
  a string returns, although every byte waits for the transmitter in a loop, leaves these settings alone and
  hands exactly its bytes to the transmitter, in order and none of them lost.
\<close>

theorem uart_sends_string:
  assumes "uart_ok D UART_BASE_ADDR view"
  shows "let d1 = uart_module_init D d
    in ua_lcr (view d1) = 3 \<and> ua_fifo_on (view d1) \<and> ua_ier (view d1) = 1 \<and>
       unat (ua_dlm (view d1)) * 256 + unat (ua_dll (view d1)) = 592 \<and>
       (\<exists>d2. uart_write_str D UART s d1 = Some d2 \<and> same_regs (view d1) (view d2) \<and>
          ua_line (view d2) @ ua_queue (view d2) = ua_line (view d1) @ ua_queue (view d1) @ s)"
proof -
  let ?d = "uart_init D \<lparr>uart_base_addr = UART_BASE_ADDR\<rparr> d"
  have i: "uart_module_init D d = ?d" "UART = \<lparr>uart_base_addr = UART_BASE_ADDR\<rparr>"
    by (simp_all add: uart_module_init_def UART_def uart_new_def)
  note v = uart_init_view [OF assms, of d]
  have "\<not> bit (ua_lcr (view ?d)) 7" using v by (simp add: bit_numeral_rec)
  from uart_write_str_returns [OF assms this, of s] v show ?thesis
    unfolding Let_def i by (auto simp: uart_sent_def)
qed

theorem uart_sends_string_witness:
  "\<exists>d2. uart_write_str sim_uart UART [72, 105] (uart_module_init sim_uart reset_uart) = Some d2 \<and>
    ua_line d2 @ ua_queue d2 = [72, 105] \<and> ua_dlm d2 = 2"
proof -
  have "ua_line (uart_module_init sim_uart reset_uart) = []" "ua_queue (uart_module_init sim_uart reset_uart) = []"
    "ua_dlm (uart_module_init sim_uart reset_uart) = 2"
    by code_simp+
  then show ?thesis
    using uart_sends_string [OF sim_uart_ok, of reset_uart "[72, 105]"] by (auto simp: Let_def same_regs_def)
qed

text \<open>
  Receiving does not look for data: \<open>get\<close> tests bit 0 of the line control register, a part of
  the word length that \<open>init\<close> has set, instead of the data-ready bit of the line status register.
  After \<open>uart::init\<close> it therefore always returns a byte, also when none was received.
\<close>

lemma uart_get_never_none:
  assumes "uart_ok D UART_BASE_ADDR view"
  shows "\<exists>c d'. uart_get D UART (uart_module_init D d) = (Some c, d')"
proof -
  let ?d = "uart_init D \<lparr>uart_base_addr = UART_BASE_ADDR\<rparr> d"
  have i: "uart_module_init D d = ?d" "UART = \<lparr>uart_base_addr = UART_BASE_ADDR\<rparr>"
    by (simp_all add: uart_module_init_def UART_def uart_new_def)
  obtain v d1 where r: "read_u8 D (UART_BASE_ADDR + 3) ?d = (v, d1)" by fastforce
  have "uart_reads 3 v (view ?d) (view d1)" by (rule uart_readD [OF assms _ r]) simp
  then have "v = 3" using uart_init_view [OF assms, of d] by (simp add: uart_reads_def)
  then show ?thesis
    using r unfolding i by (simp add: uart_get_def uart_regs split: prod.split)
qed

end
