(* ===== verification/Print.thy ===== *)
theory Print
  imports Uart Phys_Mem
begin

text \<open>
  \<^verbatim>\<open>kernel/src/print.rs\<close>, \<open>time\<close> of \<^verbatim>\<open>kernel/src/arch.rs\<close> and the panic handler's message of
  \<^verbatim>\<open>kernel/src/lib.rs\<close>.  A message is a string of characters, one byte each on the serial
  line; the formatting of numbers that the macros use is the one of \<^verbatim>\<open>core::fmt\<close>.
\<close>

section \<open>Formatting\<close>

definition digit :: "nat \<Rightarrow> char" where
  "digit n = char_of (48 + n)"

fun dec :: "nat \<Rightarrow> string" where
  "dec n = (if n < 10 then [digit n] else dec (n div 10) @ [digit (n mod 10)])"

declare dec.simps [simp del]

text \<open>\<^verbatim>\<open>{:>w}\<close> and \<^verbatim>\<open>{:0w}\<close>: padding on the left.\<close>

definition pad_left :: "char \<Rightarrow> nat \<Rightarrow> string \<Rightarrow> string" where
  "pad_left c w s = replicate (w - length s) c @ s"

definition bytes :: "string \<Rightarrow> u8 list" where
  "bytes s = map of_char s"

text \<open>A number in decimal notation, without leading zeros, and the value of a string of digits.\<close>

definition digits :: string where
  "digits = ''0123456789''"

fun is_number :: "string \<Rightarrow> bool" where
  "is_number [] = False"
| "is_number (c # s) = (set (c # s) \<subseteq> set digits \<and> (s = [] \<or> c \<noteq> CHR ''0''))"

definition dec_value :: "string \<Rightarrow> nat" where
  "dec_value s = foldl (\<lambda>n c. 10 * n + (of_char c - 48)) 0 s"

section \<open>Printing\<close>

record duration =
  as_secs :: usize
  subsec_nanos :: usize

definition time :: "pmem \<Rightarrow> duration" where
  "time m =
     (let time = load_usize m CLINT_MTIME_BASE
      in \<lparr>as_secs = time div 1000000000, subsec_nanos = time mod 1000000000\<rparr>)"

definition subsec_micros :: "duration \<Rightarrow> usize" where
  "subsec_micros t = subsec_nanos t div 1000"

definition print_uart :: "'d mmio \<Rightarrow> string \<Rightarrow> 'd \<Rightarrow> 'd option" where
  "print_uart D s d = uart_write_str D UART (bytes s) d"

definition panic_print :: "'d mmio \<Rightarrow> string \<Rightarrow> 'd \<Rightarrow> 'd option" where
  "panic_print D s d = uart_write_str D (uart_new UART_BASE_ADDR) (bytes s) d"

definition println :: "'d mmio \<Rightarrow> string \<Rightarrow> 'd \<Rightarrow> 'd option" where
  "println D s d = uart_write_str D (uart_new 0x10000000) (bytes (s @ [CHR 0x0D, CHR 0x0A])) d"

definition timestamp :: "duration \<Rightarrow> string" where
  "timestamp t =
     (let timestamp_subsec_us = subsec_micros t
      in pad_left CHR '' '' 3 (dec (unat (as_secs t))) @ ''.'' @
         pad_left CHR ''0'' 3 (dec (unat (timestamp_subsec_us div 1000))) @
         pad_left CHR ''0'' 3 (dec (unat (timestamp_subsec_us mod 1000))))"

definition info :: "'d mmio \<Rightarrow> pmem \<Rightarrow> string \<Rightarrow> 'd \<Rightarrow> 'd option" where
  "info D m s d =
     print_uart D (CHR 0x1B # ''[0;36m[  '' @ timestamp (time m) @ '']'' @ CHR 0x1B # ''[0m '' @ s @ [CHR 0x0A]) d"

definition debug :: "'d mmio \<Rightarrow> pmem \<Rightarrow> string \<Rightarrow> 'd \<Rightarrow> 'd option" where
  "debug D m s d =
     print_uart D (CHR 0x1B # ''[0;36m[  '' @ timestamp (time m) @ '']'' @ CHR 0x1B # ''[0m '' @ s @ [CHR 0x0A]) d"

text \<open>What the panic handler prints, before it waits for ever.\<close>

definition panic_message :: "(nat \<times> string) option \<Rightarrow> string \<Rightarrow> string" where
  "panic_message location message =
     (case location of
        Some (line, file) \<Rightarrow> ''line '' @ dec line @ '', file '' @ file @ '': '' @ message
      | None \<Rightarrow> ''no information available.'')"

section \<open>The digits\<close>

lemma of_char_digit [simp]: "n < 10 \<Longrightarrow> of_char (digit n) = 48 + n"
  by (simp add: digit_def)

lemma dec_value_append: "dec_value (s @ [c]) = 10 * dec_value s + (of_char c - 48)"
  by (simp add: dec_value_def)

lemma dec_value_dec: "dec_value (dec n) = n"
proof (induction n rule: dec.induct)
  case (1 n)
  show ?case
  proof (cases "n < 10")
    case True
    then show ?thesis by (subst dec.simps) (simp add: dec_value_def)
  next
    case False
    then show ?thesis using 1 by (subst dec.simps) (simp add: dec_value_append)
  qed
qed

lemma digit_digits: "n < 10 \<Longrightarrow> digit n \<in> set digits"
proof -
  have "\<forall>n \<in> set [0..<10]. digit n \<in> set digits" by code_simp
  then show "n < 10 \<Longrightarrow> digit n \<in> set digits" by simp
qed

lemma is_number_dec: "is_number (dec n)"
proof (induction n rule: dec.induct)
  case (1 n)
  show ?case
  proof (cases "n < 10")
    case True
    then show ?thesis using digit_digits by (subst dec.simps) simp
  next
    case False
    have d: "digit (n mod 10) \<in> set digits" by (simp add: digit_digits)
    have "dec (n div 10) \<noteq> ''0''"
      using False dec_value_dec [of "n div 10"] by (auto simp: dec_value_def)
    then show ?thesis
      using 1 [OF False] d False by (subst dec.simps) (cases "dec (n div 10)"; auto)
  qed
qed

lemma dec_digits: "set (dec n) \<subseteq> set digits"
  using is_number_dec [of n] by (cases "dec n") auto

lemma dec_value_zeros: "dec_value (replicate k CHR ''0'' @ s) = dec_value s"
  by (induction k) (simp_all add: dec_value_def)

lemma length_dec_le: "0 < k \<Longrightarrow> n < 10 ^ k \<Longrightarrow> length (dec n) \<le> k"
proof (induction k arbitrary: n)
  case (Suc k)
  show ?case
  proof (cases "n < 10")
    case True
    then show ?thesis by (subst dec.simps) simp
  next
    case False
    then have "0 < k" "n div 10 < 10 ^ k" using Suc.prems by (cases k; simp)+
    from Suc.IH [OF this] False show ?thesis by (subst dec.simps) simp
  qed
qed simp

lemma foldl_dec: "foldl (\<lambda>n c. 10 * n + (of_char c - 48)) a s = a * 10 ^ length s + dec_value s"
  unfolding dec_value_def
proof (induction s arbitrary: a rule: rev_induct)
  case (snoc c s)
  show ?case using snoc.IH [of a] by simp
qed simp

lemma dec_value_append_string: "dec_value (s @ t) = dec_value s * 10 ^ length t + dec_value t"
  using foldl_dec [of "dec_value s" t] by (simp add: dec_value_def)

lemma three_digits:
  assumes "n < 1000"
  shows "length (pad_left CHR ''0'' 3 (dec n)) = 3" and "dec_value (pad_left CHR ''0'' 3 (dec n)) = n"
    and "set (pad_left CHR ''0'' 3 (dec n)) \<subseteq> set digits"
  using length_dec_le [of 3 n] dec_digits [of n] assms
  by (auto simp: pad_left_def dec_value_zeros dec_value_dec digits_def)

section \<open>Property\<close>

text \<open>
  C32. The time stamp of a message can be read back: it is the seconds, a decimal number without
  leading zeros that is padded with blanks to three characters and no further, a point and exactly six
  decimal digits, and the two numbers are the whole and the fractional part in microseconds of the
  counter, which the kernel takes to count nanoseconds.
\<close>

theorem timestamp_roundtrip:
  "\<exists>secs micros. timestamp (time m) = replicate (3 - length secs) CHR '' '' @ secs @ ''.'' @ micros \<and>
     is_number secs \<and> length micros = 6 \<and> set micros \<subseteq> set digits \<and>
     dec_value secs * 1000000 + dec_value micros = unat (load_usize m CLINT_MTIME_BASE) div 1000"
proof -
  define t where "t = load_usize m CLINT_MTIME_BASE"
  define us where "us = (t mod 1000000000) div 1000"
  have us: "unat us = unat t mod 1000000000 div 1000" by (simp add: us_def unat_div unat_mod)
  have "unat us < 1000000" unfolding us by (rule less_mult_imp_div_less) simp
  then have lt: "unat (us div 1000) < 1000" "unat (us mod 1000) < 1000"
    by (simp_all add: unat_div unat_mod less_mult_imp_div_less)
  define hi lo secs where "hi = pad_left CHR ''0'' 3 (dec (unat (us div 1000)))"
    and "lo = pad_left CHR ''0'' 3 (dec (unat (us mod 1000)))" and "secs = dec (unat (t div 1000000000))"
  have d: "length hi = 3" "dec_value hi = unat (us div 1000)" "length lo = 3" "dec_value lo = unat (us mod 1000)"
    "set (hi @ lo) \<subseteq> set digits"
    using three_digits [OF lt(1)] three_digits [OF lt(2)] by (simp_all only: hi_def lo_def set_append Un_subset_iff)
  have "dec_value secs * 1000000 + dec_value (hi @ lo) = unat t div 1000000000 * 1000000 + unat us"
    by (simp add: dec_value_append_string d secs_def dec_value_dec unat_div unat_mod)
  also have "\<dots> = (unat t mod 1000000000 + unat t div 1000000000 * 1000000 * 1000) div 1000"
    by (simp only: us div_mult_self3)
  also have "\<dots> = unat t div 1000"
    using mod_div_mult_eq [of "unat t" 1000000000] by (simp add: mult.assoc)
  finally have v: "dec_value secs * 1000000 + dec_value (hi @ lo) = unat t div 1000" .
  have "timestamp (time m) = replicate (3 - length secs) CHR '' '' @ secs @ ''.'' @ (hi @ lo)"
    by (simp add: timestamp_def time_def subsec_micros_def Let_def t_def us_def hi_def lo_def secs_def
        pad_left_def [of "CHR '' ''"])
  moreover have "is_number secs" by (simp add: secs_def is_number_dec)
  ultimately show ?thesis
    using v d unfolding t_def
    by (rule_tac exI [of _ secs], rule_tac exI [of _ "hi @ lo"]) simp
qed

end
