(* ===== verification/Trap_Theorems.thy ===== *)
theory Trap_Theorems
  imports First_Process
begin

text \<open>
  The properties of traps: the way of a system call from user mode through the trampoline, the
  handlers and back, and what goes wrong on the way.
\<close>

section \<open>User mode\<close>

text \<open>A process in user mode, with the registers that the kernel relies on.\<close>

definition user_mode :: "linker_symbols \<Rightarrow> 'm machine \<Rightarrow> usize \<Rightarrow> addr_space \<Rightarrow> addr_space \<Rightarrow> bool" where
  "user_mode L h tf space kspace \<longleftrightarrow>
     mode h = UserMode \<and> csr_satp h = addr_space_make_satp space \<and> csr_stvec h = TRAMPOLINE_BASE_VA \<and>
     csr_sscratch h = TRAPFRAME_BASE_USER_VA \<and>
     kernel_satp (context_at (hmem h) tf) = addr_space_make_satp kspace"

lemma ret_status_bits: "\<not> bit (ret_status x) 8" "bit (sret_status (ret_status x)) 1"
  by (simp_all add: ret_status_def sret_status_def bit_unset_bit_iff bit_set_bit_iff)

text \<open>\<^verbatim>\<open>__userret\<close> resumes the process of the hart, whatever the registers hold but \<open>a0\<close>.\<close>

lemma resume_user:
  assumes r: "running L h a tf space kspace" and "csr_satp h = addr_space_make_satp kspace"
    and "mode h = SupervisorMode" and "csr_sscratch h = TRAPFRAME_BASE_USER_VA" and "\<not> bit (csr_sstatus h) 8"
    and "g 10 = addr_space_make_satp space"
  defines "c \<equiv> context_at (hmem h) tf"
  shows "exec_tramp (ld_trampoline_start L) userret (h\<lparr>gpr := g, pc := addr\<rparr>) =
    Some (h\<lparr>csr_satp := addr_space_make_satp space, gpr := restored c g, pc := context_sepc c, mode := UserMode,
      csr_sepc := context_sepc c, csr_sstatus := sret_status (csr_sstatus h)\<rparr>)"
proof -
  let ?h = "h\<lparr>gpr := g, pc := addr\<rparr>"
  have "maps_context (addr_space_make_satp space) tf (ld_trampoline_start L) (hmem ?h)"
    "maps_code (csr_satp ?h) tf (ld_trampoline_start L) (hmem ?h)"
    using running_maps [OF r] assms(2) by simp_all
  from userret_spec [OF this] show ?thesis
    using assms(3-6) by (simp add: c_def)
qed

text \<open>From a trap in user mode to the call of \<open>usertrap\<close>.\<close>

lemma enter_kernel:
  assumes r: "running L h a tf space kspace" and u: "user_mode L h tf space kspace"
    and g: "h' = take_trap cause tval (h\<lparr>gpr := g\<rparr>)"
  shows "\<exists>m'. exec_tramp (ld_trampoline_start L) uservec h' =
      Some (h'\<lparr>kern := (kern h)\<lparr>phys_mem := m'\<rparr>, csr_satp := addr_space_make_satp kspace,
        gpr := g(31 := TRAPFRAME_BASE_USER_VA, 5 := addr_space_make_satp kspace,
          2 := kernel_sp (context_at (hmem h) tf), 6 := trap_handler (context_at (hmem h) tf)),
        pc := trap_handler (context_at (hmem h) tf)\<rparr>) \<and>
    context_at m' tf = (context_at (hmem h) tf)\<lparr>user_regs := (user_regs (context_at (hmem h) tf) ! 0) # map g [1..<32],
      kernel_hardid := g 4, context_sepc := pc h\<rparr> \<and>
    (\<forall>x. page_of x \<noteq> tf \<longrightarrow> m' x = hmem h x)"
proof -
  have h': "hmem h' = hmem h" "mode h' = SupervisorMode" "csr_satp h' = addr_space_make_satp space"
    "csr_sscratch h' = TRAPFRAME_BASE_USER_VA" "kern h' = kern h" "gpr h' = g" "csr_sepc h' = pc h"
    using u by (simp_all add: g take_trap_def user_mode_def)
  have mc: "maps_context (addr_space_make_satp space) tf (ld_trampoline_start L) (hmem h')"
    and kc: "maps_code (addr_space_make_satp kspace) tf (ld_trampoline_start L) (hmem h')"
    using running_maps [OF r] by (simp_all add: h')
  have ks: "kernel_satp (context_at (hmem h') tf) = addr_space_make_satp kspace"
    using u by (simp add: h' user_mode_def)
  show ?thesis
    using uservec_spec [OF mc kc h'(2-4) runningD(6) [OF r] ks] unfolding saved_context_def h' .
qed

section \<open>A system call\<close>

lemma usertrap_syscall:
  assumes B: "bitflags_ok B" and R: "riscv_ok R" and C: "code_ok L C" and Q: "syscall_from_ok Q"
    and r: "running L h a tf space kspace" and sc: "csr_scause h = 8"
    and ss: "csr_sscratch h = TRAPFRAME_BASE_USER_VA"
    and satp: "csr_satp h = kernel_satp (context_at (hmem h) tf)"
    and n: "unat (user_regs (context_at (hmem h) tf) ! 17) < length syscalls"
    and pc: "unat (context_sepc (context_at (hmem h) tf)) + 4 < 2 ^ 64"
  defines "c \<equiv> set_tp ((context_at (hmem h) tf)\<lparr>context_sepc := context_sepc (context_at (hmem h) tf) + 4\<rparr>) (hart_id h)"
  shows "\<exists>m'. usertrap R B L C Q h =
    Inr ((TRAMPOLINE_BASE_VA + (sym_userret C - sym_uservec C), addr_space_make_satp space),
      h\<lparr>kern := (kern h)\<lparr>phys_mem := m'\<rparr>, csr_stvec := TRAMPOLINE_BASE_VA,
        csr_sstatus := ret_status (unset_bit 1 (csr_sstatus h))\<rparr>) \<and>
    context_at m' tf = c \<and> (\<forall>x. page_of x \<noteq> tf \<longrightarrow> m' x = hmem h x)"
proof -
  let ?c0 = "context_at (hmem h) tf"
  let ?c1 = "?c0\<lparr>context_sepc := context_sepc ?c0 + 4\<rparr>"
  let ?m1 = "put_context (hmem h) tf ?c1"
  let ?h1 = "h\<lparr>csr_sstatus := unset_bit 1 (csr_sstatus h), csr_stvec := sym_kernelvec C\<rparr>"
  let ?h2 = "?h1\<lparr>kern := (kern h)\<lparr>phys_mem := ?m1\<rparr>\<rparr>"
  note tf = runningD(6) [OF r]
  have l1: "length (user_regs ?c1) = 32" and lc: "length (user_regs c) = 32" by (simp_all add: c_def)
  have h1: "(intr_off R h)\<lparr>csr_stvec := stvec_direct R (sym_kernelvec C)\<rparr> = ?h1"
    using C by (simp add: intr_off_def riscv_okD(5) [OF R] riscv_okD(1) [OF R] code_ok_def)
  have r1: "running L ?h1 a tf space kspace"
    by (rule running_cong [OF r, of _ "hmem h"]) (simp_all add: reg_def)
  have r2: "running L ?h2 a tf space kspace"
    by (rule running_cong [OF r, of _ ?m1]) (simp_all add: reg_def put_context_frame [OF tf l1])
  have sys: "syscall_handle Q ?h1 = Inr ?h2"
    using syscall_handle_spec [OF Q r1] n pc by simp
  have c2: "context_at ?m1 tf = ?c1" by (rule context_roundtrip [OF tf l1])
  have "set_tp ?c1 (hart_id ?h2) = c" by (simp add: c_def hart_id_def reg_def)
  then have ret: "usertrapret R B L C ?h2 =
      Inr ((TRAMPOLINE_BASE_VA + (sym_userret C - sym_uservec C), addr_space_make_satp space),
        ?h2\<lparr>kern := (kern ?h2)\<lparr>phys_mem := put_context ?m1 tf c\<rparr>, csr_stvec := TRAMPOLINE_BASE_VA,
          csr_sstatus := ret_status (csr_sstatus ?h2)\<rparr>)"
    using usertrapret_spec [OF B R C r2] ss satp c2 by simp
  have fin: "?h2\<lparr>kern := (kern ?h2)\<lparr>phys_mem := m'\<rparr>, csr_stvec := TRAMPOLINE_BASE_VA,
          csr_sstatus := ret_status (csr_sstatus ?h2)\<rparr> =
      h\<lparr>kern := (kern h)\<lparr>phys_mem := m'\<rparr>, csr_stvec := TRAMPOLINE_BASE_VA,
          csr_sstatus := ret_status (unset_bit 1 (csr_sstatus h))\<rparr>" for m'
    by (rule machine.equality) simp_all
  have "usertrap R B L C Q h = usertrapret R B L C ?h2"
    unfolding usertrap_def Let_def h1
    using sc sys by (simp add: riscv_okD(9) [OF R] del: One_nat_def)
  then show ?thesis
    unfolding ret fin
    by (intro exI [of _ "put_context ?m1 tf c"])
       (simp add: context_roundtrip [OF tf lc] put_context_frame [OF tf lc] put_context_frame [OF tf l1])
qed

text \<open>The state in which a process resumes after a system call; \<open>g\<close> is what the kernel left in the registers.\<close>

definition resumed ::
  "linker_symbols \<Rightarrow> 'm machine \<Rightarrow> arc \<Rightarrow> usize \<Rightarrow> addr_space \<Rightarrow> addr_space \<Rightarrow> (nat \<Rightarrow> usize) \<Rightarrow> 'm machine \<Rightarrow> bool" where
  "resumed L h a tf space kspace g h3 \<longleftrightarrow>
     mode h3 = UserMode \<and> pc h3 = pc h + 4 \<and> csr_satp h3 = csr_satp h \<and>
     bit (csr_sstatus h3) 1 \<and> csr_stvec h3 = TRAMPOLINE_BASE_VA \<and>
     csr_sscratch h3 = TRAPFRAME_BASE_USER_VA \<and>
     (\<forall>i. 2 \<le> i \<longrightarrow> i < 32 \<longrightarrow> gpr h3 i = gpr h i) \<and>
     gpr h3 1 = g 1 \<and> (\<forall>x. page_of x \<noteq> tf \<longrightarrow> hmem h3 x = hmem h x) \<and>
     running L h3 a tf space kspace \<and> user_mode L h3 tf space kspace \<and>
     trap_handler (context_at (hmem h3) tf) = trap_handler (context_at (hmem h) tf) \<and>
     (\<exists>m. kern h3 = (kern h)\<lparr>phys_mem := m\<rparr>)"

text \<open>The whole way of a system call, with the state in which the process resumes.\<close>

lemma syscall_returns:
  assumes "bitflags_ok B" and "riscv_ok R" and "code_ok L C" and "syscall_from_ok Q"
    and "running L h a tf space kspace" and "user_mode L h tf space kspace"
    and "unat (gpr h 17) < length syscalls" and "unat (pc h) + 4 < 2 ^ 64"
  shows "\<exists>h1 h2 addr. exec_tramp (ld_trampoline_start L) uservec (take_trap 8 0 h) = Some h1 \<and>
    pc h1 = trap_handler (context_at (hmem h) tf) \<and> gpr h1 2 = kernel_sp (context_at (hmem h) tf) \<and>
    csr_satp h1 = addr_space_make_satp kspace \<and>
    usertrap R B L C Q h1 = Inr ((addr, addr_space_make_satp space), h2) \<and>
    addr = TRAMPOLINE_BASE_VA + (sym_userret C - sym_uservec C) \<and>
    (\<forall>g. g 10 = addr_space_make_satp space \<longrightarrow>
       (\<exists>h3. exec_tramp (ld_trampoline_start L) userret (h2\<lparr>gpr := g, pc := addr\<rparr>) = Some h3 \<and> resumed L h a tf space kspace g h3))"
proof -
  let ?c = "context_at (hmem h) tf" and ?tramp = "ld_trampoline_start L" and ?usatp = "addr_space_make_satp space"
  let ?h0 = "take_trap 8 0 h"
  note r = assms(5) and u = assms(6)
  obtain m1 where e: "exec_tramp ?tramp uservec ?h0 =
      Some (?h0\<lparr>kern := (kern h)\<lparr>phys_mem := m1\<rparr>, csr_satp := addr_space_make_satp kspace,
        gpr := (gpr h)(31 := TRAPFRAME_BASE_USER_VA, 5 := addr_space_make_satp kspace, 2 := kernel_sp ?c, 6 := trap_handler ?c),
        pc := trap_handler ?c\<rparr>)"
    and c1: "context_at m1 tf = ?c\<lparr>user_regs := (user_regs ?c ! 0) # map (gpr h) [1..<32], kernel_hardid := gpr h 4, context_sepc := pc h\<rparr>"
    and fr1: "\<And>x. page_of x \<noteq> tf \<Longrightarrow> m1 x = hmem h x"
    using enter_kernel [OF r u, of ?h0 8 0 "gpr h"] by auto
  let ?h1 = "?h0\<lparr>kern := (kern h)\<lparr>phys_mem := m1\<rparr>, csr_satp := addr_space_make_satp kspace,
      gpr := (gpr h)(31 := TRAPFRAME_BASE_USER_VA, 5 := addr_space_make_satp kspace, 2 := kernel_sp ?c, 6 := trap_handler ?c),
      pc := trap_handler ?c\<rparr>"
  have r1: "running L ?h1 a tf space kspace"
    by (rule running_cong [OF r, of _ m1]) (simp_all add: take_trap_def reg_def fr1)
  have pre: "csr_scause ?h1 = 8" "csr_sscratch ?h1 = TRAPFRAME_BASE_USER_VA"
    "csr_satp ?h1 = kernel_satp (context_at (hmem ?h1) tf)"
    "unat (user_regs (context_at (hmem ?h1) tf) ! 17) < length syscalls"
    "unat (context_sepc (context_at (hmem ?h1) tf)) + 4 < 2 ^ 64"
    using u assms(7,8) c1 by (simp_all add: take_trap_def user_mode_def del: upt_rec_numeral)
  obtain m2 where t: "usertrap R B L C Q ?h1 =
      Inr ((TRAMPOLINE_BASE_VA + (sym_userret C - sym_uservec C), ?usatp),
        ?h1\<lparr>kern := (kern ?h1)\<lparr>phys_mem := m2\<rparr>, csr_stvec := TRAMPOLINE_BASE_VA,
          csr_sstatus := ret_status (unset_bit 1 (csr_sstatus ?h1))\<rparr>)"
    and c2: "context_at m2 tf = set_tp ((context_at (hmem ?h1) tf)\<lparr>context_sepc := context_sepc (context_at (hmem ?h1) tf) + 4\<rparr>) (hart_id ?h1)"
    and fr2: "\<And>x. page_of x \<noteq> tf \<Longrightarrow> m2 x = m1 x"
    using usertrap_syscall [OF assms(1-4) r1 pre] by auto
  let ?h2 = "?h1\<lparr>kern := (kern ?h1)\<lparr>phys_mem := m2\<rparr>, csr_stvec := TRAMPOLINE_BASE_VA,
      csr_sstatus := ret_status (unset_bit 1 (csr_sstatus ?h1))\<rparr>"
  let ?addr = "TRAMPOLINE_BASE_VA + (sym_userret C - sym_uservec C)"
  have r2: "running L ?h2 a tf space kspace"
    by (rule running_cong [OF r1, of _ m2]) (simp_all add: reg_def fr2)
  have h2: "csr_satp ?h2 = addr_space_make_satp kspace" "mode ?h2 = SupervisorMode"
    "csr_sscratch ?h2 = TRAPFRAME_BASE_USER_VA" "\<not> bit (csr_sstatus ?h2) 8"
    using u ret_status_bits(1) by (simp_all add: take_trap_def user_mode_def)
  have c: "user_regs (context_at (hmem ?h2) tf) ! i = gpr h i" if "2 \<le> i" "i < 32" for i
    using that c1 c2 by (cases i)
      (auto simp: set_tp_def TP_def nth_list_update hart_id_def reg_def take_trap_def simp del: upt_rec_numeral)
  have "context_sepc (context_at (hmem ?h2) tf) = pc h + 4"
    using c1 c2 by (simp add: set_tp_def del: upt_rec_numeral)
  moreover have "kernel_satp (context_at (hmem ?h2) tf) = addr_space_make_satp kspace"
    "trap_handler (context_at (hmem ?h2) tf) = trap_handler ?c"
    using c1 c2 u by (simp_all add: set_tp_def user_mode_def del: upt_rec_numeral)
  moreover have "running L (?h2\<lparr>csr_satp := v, gpr := g', pc := p, mode := w, csr_sepc := p, csr_sstatus := x\<rparr>) a tf space kspace"
    if "g' 4 = gpr h 4" for v g' p w x
    by (rule running_cong [OF r2, of _ m2]) (use that in \<open>simp_all add: reg_def take_trap_def\<close>)
  ultimately have "\<exists>h3. exec_tramp ?tramp userret (?h2\<lparr>gpr := g, pc := ?addr\<rparr>) = Some h3 \<and> resumed L h a tf space kspace g h3" if g: "g 10 = ?usatp" for g
    using resume_user [where g = g and addr = ?addr, OF r2 h2 g] u c fr1 fr2 ret_status_bits(2)
    by (simp add: resumed_def take_trap_def user_mode_def restored_def del: upt_rec_numeral) blast
  then show ?thesis
    using e t by (intro exI [of _ ?h1] exI [of _ ?h2] exI [of _ ?addr]) simp
qed

text \<open>
  C5. A system call comes back: a process in user mode that executes \<^verbatim>\<open>ecall\<close> with a valid call number
  in \<open>a7\<close> enters \<^verbatim>\<open>__uservec\<close>, which saves its registers and reaches \<open>usertrap\<close> on the page table and
  the stack of the kernel; the handler returns to \<^verbatim>\<open>__userret\<close>, and, whatever the compiled kernel left
  in the registers, that code resumes the process in user mode, on its own page table, at the
  instruction after the \<^verbatim>\<open>ecall\<close>, with interrupts enabled and registers \<open>x2\<close> to \<open>x31\<close> as they were.  No
  fetch, load or store on the way faults.  Register \<open>x1\<close> (\<open>ra\<close>) is left as the kernel left it.
\<close>

theorem syscall_roundtrip:
  assumes "bitflags_ok B" and "riscv_ok R" and "code_ok L C" and "syscall_from_ok Q"
    and "running L h a tf space kspace" and "user_mode L h tf space kspace"
    and "unat (gpr h 17) < length syscalls" and "unat (pc h) + 4 < 2 ^ 64"
  shows "\<exists>h1 h2 addr. exec_tramp (ld_trampoline_start L) uservec (take_trap 8 0 h) = Some h1 \<and>
    pc h1 = trap_handler (context_at (hmem h) tf) \<and> gpr h1 2 = kernel_sp (context_at (hmem h) tf) \<and>
    csr_satp h1 = addr_space_make_satp kspace \<and>
    usertrap R B L C Q h1 = Inr ((addr, addr_space_make_satp space), h2) \<and>
    addr = TRAMPOLINE_BASE_VA + (sym_userret C - sym_uservec C) \<and>
    (\<forall>g. g 10 = addr_space_make_satp space \<longrightarrow>
       (\<exists>h3. exec_tramp (ld_trampoline_start L) userret (h2\<lparr>gpr := g, pc := addr\<rparr>) = Some h3 \<and>
          mode h3 = UserMode \<and> pc h3 = pc h + 4 \<and> csr_satp h3 = csr_satp h \<and> bit (csr_sstatus h3) 1 \<and>
          csr_stvec h3 = TRAMPOLINE_BASE_VA \<and> csr_sscratch h3 = TRAPFRAME_BASE_USER_VA \<and>
          (\<forall>i. 2 \<le> i \<longrightarrow> i < 32 \<longrightarrow> gpr h3 i = gpr h i) \<and> gpr h3 1 = g 1 \<and>
          (\<forall>x. page_of x \<noteq> tf \<longrightarrow> hmem h3 x = hmem h x)))"
  using syscall_returns [OF assms] unfolding resumed_def
  by (elim exE conjE)
     (rule exI, rule exI, rule exI, intro conjI, assumption+, intro allI impI, drule spec, drule (1) mp,
      elim exE conjE, rule exI, intro conjI, assumption+)

text \<open>The first process of the sample machine, on its way into user mode.\<close>

lemma sample_user:
  "\<exists>h :: (usize \<Rightarrow> arc option option) machine. \<exists>tf space kspace. running sample_linker h 0 tf space kspace \<and>
     user_mode sample_linker h tf space kspace \<and> gpr h = (\<lambda>_. 0) \<and> pc h = TEXT_BASE_USER_VA \<and>
     heap_ok sample_linker (kern h) \<and> tf \<in> kused (kern h) \<and>
     trap_handler (context_at (hmem h) tf) = sym_usertrap sample_code \<and>
     (\<exists>stk tx. stk \<noteq> tx \<and> kmap (kern h) (page_table space) = init_map sample_linker 4 stk tx tf \<and>
        user_frame (kern h) tf space kspace stk \<and> user_frame (kern h) tf space kspace tx)"
proof -
  obtain kspace s where b: "space_ok sample_linker kspace s" "heap_ok sample_linker s" "1000 \<le> card (kfree s)"
    using sample_boot by blast
  let ?h = "idle_machine s kspace"
  have h: "heap_ok sample_linker (kern ?h)" "KERNEL_ADDRESS_SPACE ?h = Some kspace" "space_ok sample_linker kspace (kern ?h)"
    "length [0x13, 0, 0, 0 :: u8] < 2 ^ 30" "13 \<le> card (kfree (kern ?h))"
    "PROCESS_MANAGER ?h = process_manager_new map_ops" "CPUS ?h = CPUS_init" "pcbs ?h = []" "hart_id ?h = 0"
    using b by (simp_all add: idle_machine_def hart_id_def reg_def)
  from process_init_running [OF plain_bitflags_ok sample_linker_ok map_ops_ok h, of sample_code]
  obtain h1 s1 pcb pm tf space sk st tx where h1: "h1 = ?h\<lparr>kern := s1, pcbs := [pcb], PROCESS_MANAGER := pm,
      CPUS := CPUS_init[0 := \<lparr>cpu_hartid = 0, running_process = Some 0\<rparr>]\<rparr>"
    and p: "running sample_linker h1 0 tf space kspace"
    "context_at (phys_mem s1) tf = first_context sample_code (addr_space_make_satp kspace) sk"
    "heap_ok sample_linker s1" "tf \<in> kused s1"
    "kmap s1 (page_table space) = init_map sample_linker (length [0x13, 0, 0, 0 :: u8]) st tx tf"
    "user_frame s1 tf space kspace st" "user_frame s1 tf space kspace tx" "st \<noteq> tx"
    by blast
  let ?h1 = "h1\<lparr>mode := UserMode, csr_satp := addr_space_make_satp space, csr_stvec := TRAMPOLINE_BASE_VA,
    pc := TEXT_BASE_USER_VA\<rparr>"
  have "running sample_linker ?h1 0 tf space kspace"
    by (rule running_cong [OF p(1), of _ "hmem h1"]) (simp_all add: reg_def)
  moreover have "user_mode sample_linker ?h1 tf space kspace"
    using p(2) by (simp add: h1 idle_machine_def user_mode_def first_context_def)
  moreover have "gpr ?h1 = (\<lambda>_. 0)" "trap_handler (context_at (hmem ?h1) tf) = sym_usertrap sample_code"
    using p(2) by (simp_all add: h1 idle_machine_def first_context_def)
  moreover have "kmap s1 (page_table space) = init_map sample_linker 4 st tx tf"
    using p(5) by (simp add: eval_nat_numeral)
  then have "\<exists>stk tx. stk \<noteq> tx \<and> kmap (kern ?h1) (page_table space) = init_map sample_linker 4 stk tx tf \<and>
      user_frame (kern ?h1) tf space kspace stk \<and> user_frame (kern ?h1) tf space kspace tx"
    using p(6-8) by (rule_tac exI [of _ st], rule_tac exI [of _ tx]) (simp add: h1)
  ultimately show ?thesis
    using p(3,4) by (intro exI [of _ ?h1] exI [of _ tf] exI [of _ space] exI [of _ kspace]) (simp add: h1)
qed

theorem syscall_roundtrip_witness:
  "\<exists>h :: (usize \<Rightarrow> arc option option) machine. \<exists>tf space h1 h2 addr. mode h = UserMode \<and>
    exec_tramp (ld_trampoline_start sample_linker) uservec (take_trap 8 0 h) = Some h1 \<and>
    usertrap plain_riscv plain_bitflags sample_linker sample_code plain_syscalls h1 =
      Inr ((addr, addr_space_make_satp space), h2)"
proof -
  obtain h :: "(usize \<Rightarrow> arc option option) machine" and tf space kspace where
    h: "running sample_linker h 0 tf space kspace" "user_mode sample_linker h tf space kspace"
    "gpr h = (\<lambda>_. 0)" "pc h = TEXT_BASE_USER_VA"
    using sample_user by blast
  have "unat (gpr h 17) < length syscalls" "unat (pc h) + 4 < 2 ^ 64"
    using h(3,4) by (simp_all add: syscalls_def TEXT_BASE_USER_VA_def)
  from syscall_roundtrip [OF plain_bitflags_ok plain_riscv_ok sample_code_ok plain_syscalls_ok h(1,2) this]
  show ?thesis using h(2) unfolding user_mode_def by blast
qed

text \<open>
  C31. The assembly code and the structure \<^verbatim>\<open>TrapContext\<close> agree: whatever the cause of a trap in user mode,
  \<^verbatim>\<open>__uservec\<close> leaves register \<open>i\<close> of the process in \<open>user_regs[i]\<close> for \<open>i\<close> from 1 to 31, the hart in
  \<open>kernel_hardid\<close> and the address of the trapped instruction in \<open>sepc\<close>, takes the page table, the stack and the
  address to jump to from \<open>kernel_satp\<close>, \<open>kernel_sp\<close> and \<open>trap_handler\<close>, which it keeps, and writes no byte outside
  the page; and whatever context the kernel then leaves in the page, \<^verbatim>\<open>__userret\<close> resumes in user mode at its \<open>sepc\<close> with
  register \<open>i\<close> from \<open>user_regs[i]\<close> for \<open>i\<close> from 2 to 31, and register 1 as the kernel left it.
\<close>

theorem trap_context_layout:
  assumes "running L h a tf space kspace" and "user_mode L h tf space kspace"
  defines "c \<equiv> context_at (hmem h) tf"
  shows "\<exists>h1. exec_tramp (ld_trampoline_start L) uservec (take_trap cause tval h) = Some h1 \<and>
    (\<forall>i. 1 \<le> i \<longrightarrow> i < 32 \<longrightarrow> user_regs (context_at (hmem h1) tf) ! i = gpr h i) \<and>
    kernel_hardid (context_at (hmem h1) tf) = gpr h 4 \<and> context_sepc (context_at (hmem h1) tf) = pc h \<and>
    csr_satp h1 = kernel_satp c \<and> kernel_satp (context_at (hmem h1) tf) = kernel_satp c \<and>
    gpr h1 2 = kernel_sp c \<and> kernel_sp (context_at (hmem h1) tf) = kernel_sp c \<and>
    pc h1 = trap_handler c \<and> trap_handler (context_at (hmem h1) tf) = trap_handler c \<and>
    (\<forall>x. page_of x \<noteq> tf \<longrightarrow> hmem h1 x = hmem h x) \<and>
    (\<forall>d g addr. length (user_regs d) = 32 \<longrightarrow> g 10 = addr_space_make_satp space \<longrightarrow>
       (\<exists>h2. exec_tramp (ld_trampoline_start L) userret
           (set_hmem (put_context (hmem h1) tf d) h1\<lparr>gpr := g, pc := addr\<rparr>) = Some h2 \<and>
          mode h2 = UserMode \<and> pc h2 = context_sepc d \<and> csr_satp h2 = addr_space_make_satp space \<and>
          (\<forall>i. 2 \<le> i \<longrightarrow> i < 32 \<longrightarrow> gpr h2 i = user_regs d ! i) \<and> gpr h2 1 = g 1))"
proof -
  let ?h0 = "take_trap cause tval h" and ?tramp = "ld_trampoline_start L"
  let ?h1 = "\<lambda>m'. ?h0\<lparr>kern := (kern h)\<lparr>phys_mem := m'\<rparr>, csr_satp := addr_space_make_satp kspace,
      gpr := (gpr h)(31 := TRAPFRAME_BASE_USER_VA, 5 := addr_space_make_satp kspace, 2 := kernel_sp c, 6 := trap_handler c),
      pc := trap_handler c\<rparr>"
  obtain m1 where e: "exec_tramp ?tramp uservec ?h0 = Some (?h1 m1)"
    and c1: "context_at m1 tf = c\<lparr>user_regs := (user_regs c ! 0) # map (gpr h) [1..<32], kernel_hardid := gpr h 4, context_sepc := pc h\<rparr>"
    and fr: "\<And>x. page_of x \<noteq> tf \<Longrightarrow> m1 x = hmem h x"
    using enter_kernel [OF assms(1,2), of ?h0 cause tval "gpr h"] by (auto simp: c_def)
  have regs: "user_regs (context_at m1 tf) ! i = gpr h i" if "1 \<le> i" "i < 32" for i
    using that c1 by (cases i) (simp_all del: upt_rec_numeral)
  have ret: "exec_tramp ?tramp userret (set_hmem (put_context m1 tf d) (?h1 m1)\<lparr>gpr := g, pc := addr\<rparr>) =
      Some ((set_hmem (put_context m1 tf d) (?h1 m1))\<lparr>csr_satp := addr_space_make_satp space, gpr := restored d g,
        pc := context_sepc d, mode := UserMode, csr_sepc := context_sepc d, csr_sstatus := sret_status (csr_sstatus ?h0)\<rparr>)"
    if d: "length (user_regs d) = 32" "g 10 = addr_space_make_satp space" for d g addr
  proof -
    let ?h = "set_hmem (put_context m1 tf d) (?h1 m1)"
    have r: "running L ?h a tf space kspace"
      by (rule running_cong [OF assms(1), of _ "put_context m1 tf d"])
         (simp_all add: set_hmem_def take_trap_def reg_def fr put_context_frame [OF runningD(6) [OF assms(1)] d(1)])
    have "csr_satp ?h = addr_space_make_satp kspace" "mode ?h = SupervisorMode"
      "csr_sscratch ?h = TRAPFRAME_BASE_USER_VA" "\<not> bit (csr_sstatus ?h) 8"
      using assms(2) by (simp_all add: set_hmem_def take_trap_def user_mode_def trap_status_def bit_unset_bit_iff)
    from resume_user [where g = g and addr = addr, OF r this d(2)] show ?thesis
      by (simp add: set_hmem_def context_roundtrip [OF runningD(6) [OF assms(1)] d(1)])
  qed
  have "kernel_satp c = addr_space_make_satp kspace" using assms(2) by (simp add: user_mode_def c_def)
  then show ?thesis
    using e c1 regs fr ret
    by (intro exI [of _ "?h1 m1"]) (simp add: restored_def set_hmem_def del: upt_rec_numeral)
qed

theorem trap_context_layout_witness:
  "\<exists>h h1 :: (usize \<Rightarrow> arc option option) machine. \<exists>tf. mode h = UserMode \<and>
    exec_tramp (ld_trampoline_start sample_linker) uservec (take_trap 8 0 h) = Some h1 \<and>
    context_sepc (context_at (hmem h1) tf) = TEXT_BASE_USER_VA \<and> pc h1 = sym_usertrap sample_code"
proof -
  obtain h :: "(usize \<Rightarrow> arc option option) machine" and tf space kspace where
    h: "running sample_linker h 0 tf space kspace" "user_mode sample_linker h tf space kspace"
    "pc h = TEXT_BASE_USER_VA" "trap_handler (context_at (hmem h) tf) = sym_usertrap sample_code"
    using sample_user by blast
  from trap_context_layout [OF h(1,2), of 8 0] obtain h1 where
    "exec_tramp (ld_trampoline_start sample_linker) uservec (take_trap 8 0 h) = Some h1"
    "context_sepc (context_at (hmem h1) tf) = pc h" "pc h1 = trap_handler (context_at (hmem h) tf)"
    by blast
  then show ?thesis using h(2-4) unfolding user_mode_def by metis
qed

section \<open>What a process can do to the kernel\<close>

lemma syscall_handle_invalid:
  assumes Q: "syscall_from_ok Q" and r: "running L h a tf space kspace"
    and n: "\<not> unat (user_regs (context_at (hmem h) tf) ! 17) < length syscalls"
    and pc: "unat (context_sepc (context_at (hmem h) tf)) + 4 < 2 ^ 64"
  shows "syscall_handle Q h = Inl UnwrapNone"
proof -
  let ?c = "(context_at (hmem h) tf)\<lparr>context_sepc := context_sepc (context_at (hmem h) tf) + 4\<rparr>"
  have len: "length (user_regs ?c) = 32" by simp
  have "get_syscall Q (context_at (put_context (hmem h) tf ?c) tf) = Inr None"
    using Q n by (simp add: context_roundtrip [OF runningD(6) [OF r] len] get_syscall_def get_arg_def A0_def
        syscall_from_ok_def)
  moreover have "checked_add (context_sepc (context_at (hmem h) tf)) 4 =
      Inr (context_sepc (context_at (hmem h) tf) + 4)"
    using pc by (intro checked_addI) simp
  ultimately show ?thesis
    using runningD(3) [OF r]
    by (simp add: syscall_handle_def current_pcb_running [OF r] write_trap_context_def incr_user_space_pc_def
        get_context_ref_def)
qed

text \<open>
  C35. A process can stop the kernel with one instruction: an \<^verbatim>\<open>ecall\<close> with a value of \<open>tp\<close> that is no
  hart number panics, since the handler takes the number of the hart from the \<open>tp\<close> that the process
  left (an index out of bounds); and so does an \<^verbatim>\<open>ecall\<close> with an unknown call number in \<open>a7\<close>, which
  the handler unwraps.
\<close>

theorem ecall_can_panic:
  assumes "riscv_ok R" and "syscall_from_ok Q" and "running L h a tf space kspace" and "user_mode L h tf space kspace"
    and "unat (pc h) + 4 < 2 ^ 64"
    and "length (CPUS h) \<le> unat (g 4) \<and> p = IndexOutOfBounds \<or>
      g 4 = reg h 4 \<and> length syscalls \<le> unat (g 17) \<and> p = UnwrapNone"
  shows "\<exists>h1. exec_tramp (ld_trampoline_start L) uservec (take_trap 8 0 (h\<lparr>gpr := g\<rparr>)) = Some h1 \<and>
    usertrap R B L C Q h1 = Inl p"
proof -
  let ?c = "context_at (hmem h) tf" and ?h0 = "take_trap 8 0 (h\<lparr>gpr := g\<rparr>)"
  let ?h1 = "\<lambda>m'. ?h0\<lparr>kern := (kern h)\<lparr>phys_mem := m'\<rparr>, csr_satp := addr_space_make_satp kspace,
        gpr := g(31 := TRAPFRAME_BASE_USER_VA, 5 := addr_space_make_satp kspace, 2 := kernel_sp ?c, 6 := trap_handler ?c),
        pc := trap_handler ?c\<rparr>"
  obtain m' where e: "exec_tramp (ld_trampoline_start L) uservec ?h0 = Some (?h1 m')"
    and c: "context_at m' tf = ?c\<lparr>user_regs := (user_regs ?c ! 0) # map g [1..<32], kernel_hardid := g 4, context_sepc := pc h\<rparr>"
    and fr: "\<And>x. page_of x \<noteq> tf \<Longrightarrow> m' x = hmem h x"
    using enter_kernel [OF assms(3,4) refl, of 8 0 g] by auto
  let ?h2 = "(intr_off R (?h1 m'))\<lparr>csr_stvec := stvec_direct R (sym_kernelvec C)\<rparr>"
  have sc: "scause_cause R (csr_scause ?h2) = Exception UserEnvCall"
    using riscv_okD(9) [OF assms(1)] by (simp add: intr_off_def take_trap_def)
  have "syscall_handle Q ?h2 = Inl p"
    using assms(6)
  proof
    assume "length (CPUS h) \<le> unat (g 4) \<and> p = IndexOutOfBounds"
    then show ?thesis
      by (simp add: syscall_handle_def current_pcb_def current_process_def intr_off_def take_trap_def hart_id_def
          reg_def vec_index_def)
  next
    assume g: "g 4 = reg h 4 \<and> length syscalls \<le> unat (g 17) \<and> p = UnwrapNone"
    have r2: "running L ?h2 a tf space kspace"
      by (rule running_cong [OF assms(3), of _ m']) (use g fr in \<open>simp_all add: intr_off_def take_trap_def reg_def\<close>)
    have "\<not> unat (user_regs (context_at m' tf) ! 17) < length syscalls"
      "unat (context_sepc (context_at m' tf)) + 4 < 2 ^ 64"
      unfolding c using g assms(5) by (simp_all del: upt_rec_numeral)
    then show ?thesis
      using g syscall_handle_invalid [OF assms(2) r2] by (simp add: intr_off_def)
  qed
  then have "usertrap R B L C Q (?h1 m') = Inl p"
    unfolding usertrap_def Let_def sc by simp
  with e show ?thesis by blast
qed

theorem ecall_can_panic_witness:
  "\<exists>(h :: (usize \<Rightarrow> arc option option) machine) g h1. mode h = UserMode \<and>
    exec_tramp (ld_trampoline_start sample_linker) uservec (take_trap 8 0 (h\<lparr>gpr := g\<rparr>)) = Some h1 \<and>
    usertrap plain_riscv plain_bitflags sample_linker sample_code plain_syscalls h1 = Inl UnwrapNone"
proof -
  obtain h :: "(usize \<Rightarrow> arc option option) machine" and tf space kspace where
    h: "running sample_linker h 0 tf space kspace" "user_mode sample_linker h tf space kspace"
    "gpr h = (\<lambda>_. 0)" "pc h = TEXT_BASE_USER_VA"
    using sample_user by blast
  let ?g = "(\<lambda>_. 0)(17 := 100) :: nat \<Rightarrow> usize"
  have "unat (pc h) + 4 < 2 ^ 64" "?g 4 = reg h 4 \<and> length syscalls \<le> unat (?g 17)"
    using h(3,4) by (simp_all add: syscalls_def TEXT_BASE_USER_VA_def reg_def)
  with ecall_can_panic [OF plain_riscv_ok plain_syscalls_ok h(1,2), of ?g UnwrapNone] h(2)
  show ?thesis unfolding user_mode_def by blast
qed

end
