(* ===== verification/Start.thy ===== *)
theory Start
  imports Boot Plic Print Trap_Theorems
begin

text \<open>
  \<^verbatim>\<open>kernel/src/start.rs\<close>: from the reset of a hart to user mode.  \<open>kstart\<close> runs in machine mode and
  ends with \<^verbatim>\<open>mret\<close> to \<open>kmain\<close>, which prints, sets up the kernel and ends in \<open>usertrapret\<close>.
  A result \<open>None\<close> means that \<open>kmain\<close> does not return: it polls the serial line, and the harts
  other than 0 poll \<open>HART0_STARTED\<close>.  The messages of \<open>kmain\<close> itself are printed; those of the functions
  it calls are not part of their models.

  Interrupts are off in \<open>kmain\<close> until \<open>intr_on\<close> in line 103: those that have arrived by then are
  an argument, \<open>pend\<close>, and are served there.  None arrives later, between line 103 and \<^verbatim>\<open>sret\<close>.
\<close>

section \<open>\<^verbatim>\<open>kstart\<close>\<close>

definition SIE_SEIE :: usize where "SIE_SEIE = push_bit 9 1"
definition SIE_STIE :: usize where "SIE_STIE = push_bit 5 1"
definition SIE_SSIE :: usize where "SIE_SSIE = push_bit 1 1"

definition kstart :: "riscv_ops \<Rightarrow> code_symbols \<Rightarrow> 'a hart_scheme \<Rightarrow> 'a hart_scheme result" where
  "kstart R C h =
     (let h1 = h\<lparr>csr_mstatus := set_mpp_supervisor R (csr_mstatus h)\<rparr>;
          h2 = h1\<lparr>csr_mepc := sym_kmain C\<rparr>;
          h3 = h2\<lparr>csr_satp := 0\<rparr>;
          h4 = set_reg 5 0xffff h3;
          h5 = h4\<lparr>csr_medeleg := reg h4 5, csr_mideleg := reg h4 5\<rparr>;
          h6 = h5\<lparr>csr_sie := csr_sie h5 OR SIE_SEIE OR SIE_STIE OR SIE_SSIE\<rparr>;
          h7 = set_reg 11 (csr_mhartid h6) h6;
          h8 = set_reg 4 (reg h7 11) h7
      in and_then (timer_init R C h8) (\<lambda>h9. Ok (the (step Mret h9))))"

section \<open>\<^verbatim>\<open>kmain\<close>\<close>

text \<open>A call that may panic, in code that may not return.\<close>

definition on_ok :: "'a result \<Rightarrow> ('a \<Rightarrow> 'b result option) \<Rightarrow> 'b result option" where
  "on_ok r f = (case r of Inl p \<Rightarrow> Some (Inl p) | Inr x \<Rightarrow> f x)"

lemma on_ok_simps [simp]: "on_ok (Inr x) f = f x" "on_ok (Inl p) f = Some (Inl p)"
  by (simp_all add: on_ok_def)

partial_function (option) wait_hart0 :: "'m machine \<Rightarrow> unit option" where
  "wait_hart0 h = (if HART0_STARTED h then Some () else wait_hart0 h)"

text \<open>
  Interrupts in supervisor mode.  An interrupt that is pending in \<^verbatim>\<open>sip\<close> and enabled in \<^verbatim>\<open>sie\<close> is taken before the next
  instruction as long as bit 1 of \<^verbatim>\<open>sstatus\<close> is set, an external one before a software one before
  one of the timer.  \<^verbatim>\<open>__kernelvec\<close> calls \<open>kerneltrap\<close> and returns to the interrupted code with \<^verbatim>\<open>sret\<close>; all that
  pends is served before that code goes on, which it may never do.
\<close>

definition pending_cause :: "'a hart_scheme \<Rightarrow> usize option" where
  "pending_cause h =
     (let ip = csr_sip h AND csr_sie h
      in if bit ip 9 then Some (2 ^ 63 + 9) else if bit ip 1 then Some (2 ^ 63 + 1)
         else if bit ip 5 then Some (2 ^ 63 + 5) else None)"

partial_function (option) serve :: "riscv_ops \<Rightarrow> 'm machine \<Rightarrow> 'm machine result option" where
  "serve R h =
     (case (if bit (csr_sstatus h) 1 then pending_cause h else None) of
        None \<Rightarrow> Some (Inr h)
      | Some c \<Rightarrow>
          (case kerneltrap R (take_trap c 0 h) of
             Inl p \<Rightarrow> Some (Inl p)
           | Inr h1 \<Rightarrow> serve R (the (step Sret h1))))"

text \<open>The end of \<open>kmain\<close>: the kernel's table is locked, and the hart goes to user mode.\<close>

definition kmain_end ::
  "bitflags_ops \<Rightarrow> linker_symbols \<Rightarrow> satp_encoding \<Rightarrow> riscv_ops \<Rightarrow> code_symbols \<Rightarrow> usize \<Rightarrow> 'm machine
     \<Rightarrow> ((usize \<times> usize) \<times> 'm machine) result option" where
  "kmain_end B L S R C pend h =
     (let h1 = intr_off R h
      in on_ok (KERNEL_ADDRESS_SPACE_force B L h1) (\<lambda>(space, h2).
         on_ok (lock_space B L S space h2) (\<lambda>h3.
         let h4 = intr_on R (h3\<lparr>csr_sip := csr_sip h3 OR pend\<rparr>)
         in Option.bind (serve R h4) (\<lambda>r.
            on_ok r (\<lambda>h5.
            on_ok (usertrapret R B L C h5) (\<lambda>x. Some (Inr x)))))))"

definition kmain ::
  "'m pcb_slots \<Rightarrow> bitflags_ops \<Rightarrow> linker_symbols \<Rightarrow> satp_encoding \<Rightarrow> riscv_ops \<Rightarrow> code_symbols \<Rightarrow> 'd mmio
     \<Rightarrow> usize \<Rightarrow> u8 list \<Rightarrow> heap_stats \<Rightarrow> usize \<Rightarrow> 'm machine \<Rightarrow> 'd \<Rightarrow> (((usize \<times> usize) \<times> 'm machine) \<times> 'd) result option" where
  "kmain H B L S R C D vps init_text st pend h d =
     (if hart_id h = 0 then
        let d1 = uart_module_init D d
        in Option.bind (info D (hmem h) (''booting derek-core on hart '' @ dec (unat (hart_id h)) @ ''...'') d1) (\<lambda>d2.
           Option.bind (info D (hmem h) ''UART initialised'' d2) (\<lambda>d3.
           on_ok (mm_init B L h) (\<lambda>h1.
           on_ok (mm_hart_init B L S h1) (\<lambda>h2.
           let h3 = trap_init_hart R C h2; d4 = plic_init D d3
           in on_ok (plic_hart_init D h3 d4) (\<lambda>d5.
              Option.bind (info D (hmem h3) ''PLIC initialised'' d5) (\<lambda>d6.
              on_ok (process_init H B L C vps init_text h3) (\<lambda>h4.
              on_ok (print_kernel_heap_status st) (\<lambda>_.
              Option.bind (kmain_end B L S R C pend (h4\<lparr>HART0_STARTED := True\<rparr>)) (\<lambda>r.
              on_ok r (\<lambda>x. Some (Inr (x, d6))))))))))))
      else
        Option.bind (wait_hart0 h) (\<lambda>_.
        Option.bind (info D (hmem h) (''hart '' @ dec (unat (hart_id h)) @ '' booting...'') d) (\<lambda>d1.
        on_ok (mm_hart_init B L S h) (\<lambda>h1.
        let h2 = trap_init_hart R C h1
        in on_ok (plic_hart_init D h2 d1) (\<lambda>d2.
           Option.bind (kmain_end B L S R C pend h2) (\<lambda>r.
           on_ok r (\<lambda>x. Some (Inr (x, d2)))))))))"

section \<open>Machine mode\<close>

lemma kstart_status:
  "mret_mode (set_bit 3 (set_bit 11 (unset_bit 12 x))) = SupervisorMode"
  by (simp add: mret_mode_def bit_set_bit_iff bit_unset_bit_iff)

lemma kstart_spec:
  assumes R: "riscv_ok R" and L: "linker_ok L" and C: "code_ok L C" and i: "unat (csr_mhartid h) < 8"
    and t: "unat (load_usize (hmem h) CLINT_MTIME_BASE) + 1000000 < 2 ^ 64"
  shows "\<exists>m'. kstart R C h = Inr (h\<lparr>kern := (kern h)\<lparr>phys_mem := m'\<rparr>, csr_satp := 0,
      gpr := (gpr h)(5 := 0xffff, 11 := csr_mhartid h, 4 := csr_mhartid h), pc := sym_kmain C, mode := SupervisorMode,
      csr_sie := csr_sie h OR SIE_SEIE OR SIE_STIE OR SIE_SSIE,
      csr_mstatus := mret_status (set_bit 3 (set_bit 11 (unset_bit 12 (csr_mstatus h)))), csr_mepc := sym_kmain C,
      csr_medeleg := 0xffff, csr_mideleg := 0xffff, csr_mie := set_bit 7 (csr_mie h),
      csr_mtvec := sym_timervec C, csr_mscratch := sym_timer_scratches C + 48 * csr_mhartid h\<rparr>)"
proof -
  let ?h = "h\<lparr>csr_satp := 0, gpr := (gpr h)(5 := 0xffff, 11 := csr_mhartid h, 4 := csr_mhartid h),
      csr_sie := csr_sie h OR SIE_SEIE OR SIE_STIE OR SIE_SSIE,
      csr_mstatus := set_bit 11 (unset_bit 12 (csr_mstatus h)), csr_mepc := sym_kmain C,
      csr_medeleg := 0xffff, csr_mideleg := 0xffff\<rparr>"
  have id: "hart_id ?h = csr_mhartid h" by (simp add: hart_id_def reg_def)
  obtain m' where ti: "timer_init R C ?h = Inr (?h\<lparr>kern := (kern ?h)\<lparr>phys_mem := m'\<rparr>,
      csr_mstatus := set_bit 3 (csr_mstatus ?h), csr_mie := set_bit 7 (csr_mie ?h), csr_mtvec := sym_timervec C,
      csr_mscratch := sym_timer_scratches C + 48 * hart_id ?h\<rparr>)"
    using timer_init_spec [OF R L C, of ?h] i t id by auto
  have "kstart R C h = and_then (timer_init R C ?h) (\<lambda>h9. Ok (the (step Mret h9)))"
    unfolding kstart_def Let_def
    by (rule arg_cong [where f = "\<lambda>x. and_then (timer_init R C x) _"], rule hart.equality)
       (simp_all add: set_reg_def reg_def riscv_okD(6) [OF R])
  then show ?thesis
    unfolding ti id and_then_Ok
    by (intro exI [of _ m']) (simp add: kstart_status)
qed

section \<open>Supervisor mode\<close>

lemma wait_hart0_eq: "wait_hart0 h = (if HART0_STARTED h then Some () else None)"
proof -
  have "HART0_STARTED h" if "wait_hart0 h = Some y" for y
    using that by (rule wait_hart0.raw_induct [rotated]) (auto split: if_splits)
  then show ?thesis by (cases "wait_hart0 h") (subst wait_hart0.simps, auto)
qed

text \<open>
  With nothing pending the code goes on; a software interrupt that is pending and enabled is served for
  ever, since \<open>kerneltrap\<close> leaves it pending.
\<close>

lemma serve_none: "pending_cause h = None \<Longrightarrow> serve R h = Some (Inr h)"
  by (subst serve.simps) simp

lemma pending_cause_none: "csr_sip h AND csr_sie h = 0 \<Longrightarrow> pending_cause h = None"
  by (simp add: pending_cause_def)

definition soft_stuck_at :: "'m machine \<Rightarrow> bool" where
  "soft_stuck_at h \<longleftrightarrow> bit (csr_sip h) 1 \<and> \<not> bit (csr_sip h) 9 \<and> bit (csr_sie h) 1 \<and> bit (csr_sstatus h) 1 \<and>
     mode h = SupervisorMode"

lemma soft_served:
  assumes "riscv_ok R" and "soft_stuck_at h"
  shows "pending_cause h = Some (2 ^ 63 + 1)" and "kerneltrap R (take_trap (2 ^ 63 + 1) 0 h) = Inr (take_trap (2 ^ 63 + 1) 0 h)"
    and "soft_stuck_at (the (step Sret (take_trap (2 ^ 63 + 1) 0 h)))"
proof -
  show "pending_cause h = Some (2 ^ 63 + 1)"
    using assms(2) by (simp add: pending_cause_def soft_stuck_at_def bit_and_iff)
  show "kerneltrap R (take_trap (2 ^ 63 + 1) 0 h) = Inr (take_trap (2 ^ 63 + 1) 0 h)"
    using riscv_okD(11) [OF assms(1)] by (simp add: kerneltrap_def take_trap_def)
  show "soft_stuck_at (the (step Sret (take_trap (2 ^ 63 + 1) 0 h)))"
    using assms(2)
    by (simp add: soft_stuck_at_def take_trap_def trap_status_def sret_status_def bit_set_bit_iff bit_unset_bit_iff Let_def)
qed

lemma serve_soft:
  assumes R: "riscv_ok R" and p: "soft_stuck_at h"
  shows "serve R h = None"
proof -
  have "riscv_ok R \<longrightarrow> \<not> soft_stuck_at h" if "serve R h = Some y" for y
    using that
  proof (rule serve.raw_induct [rotated])
    fix f R' and h' :: "'a machine" and y'
    assume ih: "\<And>R h y. f R h = Some y \<Longrightarrow> riscv_ok R \<longrightarrow> \<not> soft_stuck_at h"
      and e: "(case (if bit (csr_sstatus h') 1 then pending_cause h' else None) of None \<Rightarrow> Some (Inr h')
        | Some c \<Rightarrow> (case kerneltrap R' (take_trap c 0 h') of Inl p \<Rightarrow> Some (Inl p) | Inr h1 \<Rightarrow> f R' (the (step Sret h1)))) = Some y'"
    show "riscv_ok R' \<longrightarrow> \<not> soft_stuck_at h'"
    proof (intro impI notI)
      assume a: "riscv_ok R'" "soft_stuck_at h'"
      note s = soft_served [OF a]
      have "f R' (the (step Sret (take_trap (2 ^ 63 + 1) 0 h'))) = Some y'"
        using e s(1,2) a(2) by (simp add: soft_stuck_at_def del: step.simps)
      with ih a(1) s(3) show False by blast
    qed
  qed
  then show ?thesis using assms by (cases "serve R h") auto
qed

lemma ret_status_sie: "ret_status (set_bit 1 (unset_bit 1 x)) = ret_status x"
  by (rule bit_word_eqI) (auto simp: ret_status_def bit_set_bit_iff bit_unset_bit_iff)

text \<open>The process still runs when the kernel's table is locked.\<close>

lemma running_locked:
  assumes L: "linker_ok L" and r: "running L h a tf space kspace" and hp: "heap_ok L (kern h)"
    and k: "kern h' = (kern h)\<lparr>phys_mem := m\<rparr>"
    and dis: "set (node_addrs (page_table space)) \<inter> set (node_addrs (page_table kspace)) = {}"
    and m: "\<forall>x. page_of x \<notin> set (node_addrs (page_table kspace)) \<union> kfree (kern h) \<longrightarrow> m x = hmem h x"
    and inv: "pt_inv (kern h') (page_table kspace)"
    and km: "\<forall>b. kmap (kern h') (page_table kspace) b =
      (if \<exists>n \<in> set (node_addrs (page_table kspace)). same_page n b
       then map_option locked_entry (kmap (kern h) (page_table kspace) b) else kmap (kern h) (page_table kspace) b)"
    and "reg h' 4 = reg h 4" "CPUS h' = CPUS h" "pcbs h' = pcbs h" "KERNEL_ADDRESS_SPACE h' = KERNEL_ADDRESS_SPACE h"
  shows "running L h' a tf space kspace" and "kmap (kern h') (page_table space) = kmap (kern h) (page_table space)"
proof -
  let ?pt = "page_table space" and ?kpt = "page_table kspace"
  note uinv = runningD(10) [OF r]
  have us: "set (node_addrs ?pt) \<subseteq> kused (kern h)" using pt_invD(4) [OF uinv] .
  have fr: "phys_mem (kern h') x = phys_mem (kern h) x" if "page_of x \<in> set (node_addrs ?pt)" for x
    using that us dis free_used_disjoint [of "FRAME_ALLOCATOR (kern h)"] pt_invD(1) [OF uinv]
    by (auto simp: k kstate_wf_def intro!: m [rule_format])
  have wf: "kstate_wf (kern h')" "set (node_addrs ?pt) \<subseteq> kused (kern h')"
    using us pt_invD(1) [OF uinv] by (simp_all add: k kstate_wf_def)
  have u: "pt_inv (kern h') ?pt" "kmap (kern h') ?pt = kmap (kern h) ?pt"
    by (rule pt_frame [OF uinv _ wf], rule fr, assumption)+
  then show "kmap (kern h') ?pt = kmap (kern h) ?pt" by blast
  have "\<not> same_page n TRAMPOLINE_BASE_VA" if "n \<in> set (node_addrs ?kpt)" for n
  proof -
    have "pno n < 0x88000"
      using that heap_frames_mapped(2) [OF L hp] pt_invD(4) [OF runningD(11) [OF r]] by blast
    then show ?thesis by (simp add: same_page_iff TRAMPOLINE_BASE_VA_value pno_def)
  qed
  then have "kmap (kern h') ?kpt TRAMPOLINE_BASE_VA = kmap (kern h) ?kpt TRAMPOLINE_BASE_VA"
    using km by auto
  then show "running L h' a tf space kspace"
    using r u inv assms(9-) by (simp add: running_def hart_id_def)
qed

text \<open>The end of \<open>kmain\<close> up to the interrupts that are served in line 103.\<close>

lemma kmain_locked:
  assumes B: "bitflags_ok B" and L: "linker_ok L" and S: "satp_set_ok S" and R: "riscv_ok R"
    and r: "running L h a tf space kspace" and hp: "heap_ok L (kern h)" and kok: "space_ok L kspace (kern h)"
    and free: "73 \<le> card (kfree (kern h))"
    and dis: "set (node_addrs (page_table space)) \<inter> set (node_addrs (page_table kspace)) = {}"
  shows "\<exists>m. (\<forall>pend. kmain_end B L S R C pend h =
      Option.bind (serve R (h\<lparr>kern := (kern h)\<lparr>phys_mem := m\<rparr>, csr_satp := addr_space_make_satp kspace,
        csr_sip := csr_sip h OR pend, csr_sstatus := set_bit 1 (unset_bit 1 (csr_sstatus h))\<rparr>)) (\<lambda>r.
      on_ok r (\<lambda>h5. on_ok (usertrapret R B L C h5) (\<lambda>x. Some (Inr x))))) \<and>
    running L (h\<lparr>kern := (kern h)\<lparr>phys_mem := m\<rparr>\<rparr>) a tf space kspace \<and>
    kmap ((kern h)\<lparr>phys_mem := m\<rparr>) (page_table space) = kmap (kern h) (page_table space) \<and>
    (\<forall>x. page_of x \<notin> set (node_addrs (page_table kspace)) \<union> kfree (kern h) \<longrightarrow> m x = hmem h x)"
proof -
  let ?kpt = "page_table kspace"
  define h1 where "h1 = h\<lparr>csr_sstatus := unset_bit 1 (csr_sstatus h)\<rparr>"
  have kinv: "pt_inv (kern h1) ?kpt" using kok by (simp add: space_ok_def h1_def)
  have pre: "heap_ok L (kern h1)" "73 \<le> card (kfree (kern h1))" "nodes_mapped (kern h1) ?kpt"
    using hp free space_nodes_mapped [OF L hp kok] by (simp_all add: h1_def)
  obtain m where lk: "lock_space B L S kspace h1 = Inr (h1\<lparr>kern := (kern h1)\<lparr>phys_mem := m\<rparr>,
       csr_satp := addr_space_make_satp kspace\<rparr>)"
     "pt_inv ((kern h1)\<lparr>phys_mem := m\<rparr>) ?kpt"
     "\<forall>x. page_of x \<notin> set (node_addrs ?kpt) \<union> kfree (kern h1) \<longrightarrow> m x = phys_mem (kern h1) x"
     "\<forall>b. kmap ((kern h1)\<lparr>phys_mem := m\<rparr>) ?kpt b = (if \<exists>n \<in> set (node_addrs ?kpt). same_page n b
         then map_option locked_entry (kmap (kern h1) ?kpt b) else kmap (kern h1) ?kpt b)"
    using lock_space_spec [OF B L S pre(1,2) kinv pre(3)] by blast
  let ?h2 = "h\<lparr>kern := (kern h)\<lparr>phys_mem := m\<rparr>\<rparr>"
  have k: "kern h1 = kern h" "kern ?h2 = (kern h)\<lparr>phys_mem := m\<rparr>" "reg ?h2 4 = reg h 4" "CPUS ?h2 = CPUS h"
    "pcbs ?h2 = pcbs h" "KERNEL_ADDRESS_SPACE ?h2 = KERNEL_ADDRESS_SPACE h"
    by (simp_all add: h1_def reg_def)
  note l = running_locked [OF L r hp k(2) dis lk(3) [unfolded k(1)] _ _ k(3-6)]
  have "running L ?h2 a tf space kspace" "kmap (kern ?h2) (page_table space) = kmap (kern h) (page_table space)"
    by (rule l; use lk(2,4) in \<open>simp add: k(1)\<close>)+
  moreover have "kmain_end B L S R C pend h =
      Option.bind (serve R (h\<lparr>kern := (kern h)\<lparr>phys_mem := m\<rparr>, csr_satp := addr_space_make_satp kspace,
        csr_sip := csr_sip h OR pend, csr_sstatus := set_bit 1 (unset_bit 1 (csr_sstatus h))\<rparr>)) (\<lambda>r.
      on_ok r (\<lambda>h5. on_ok (usertrapret R B L C h5) (\<lambda>x. Some (Inr x))))" for pend
    using lk(1) runningD(5) [OF r]
    by (simp add: kmain_end_def intr_off_def intr_on_def riscv_okD(4,5) [OF R] KERNEL_ADDRESS_SPACE_force_def
        h1_def Let_def)
  ultimately show ?thesis using lk(3) by (intro exI [of _ m]) (simp add: k(1))
qed

lemma kmain_end_spec:
  assumes B: "bitflags_ok B" and L: "linker_ok L" and S: "satp_set_ok S" and R: "riscv_ok R" and C: "code_ok L C"
    and r: "running L h a tf space kspace" and hp: "heap_ok L (kern h)" and kok: "space_ok L kspace (kern h)"
    and free: "73 \<le> card (kfree (kern h))" and tf: "tf \<in> kused (kern h)"
    and dis: "set (node_addrs (page_table space)) \<inter> set (node_addrs (page_table kspace)) = {}"
    and ss: "csr_sscratch h = TRAPFRAME_BASE_USER_VA"
    and ctx: "kernel_satp (context_at (hmem h) tf) = addr_space_make_satp kspace" and ip: "csr_sip h = 0"
  shows "\<exists>m. kmain_end B L S R C 0 h =
      Some (Inr ((TRAMPOLINE_BASE_VA + (sym_userret C - sym_uservec C), addr_space_make_satp space),
        h\<lparr>kern := (kern h)\<lparr>phys_mem := m\<rparr>, csr_satp := addr_space_make_satp kspace,
          csr_stvec := TRAMPOLINE_BASE_VA, csr_sstatus := ret_status (csr_sstatus h)\<rparr>)) \<and>
    running L (h\<lparr>kern := (kern h)\<lparr>phys_mem := m\<rparr>\<rparr>) a tf space kspace \<and>
    kmap ((kern h)\<lparr>phys_mem := m\<rparr>) (page_table space) = kmap (kern h) (page_table space) \<and>
    context_at m tf = set_tp (context_at (hmem h) tf) (hart_id h) \<and>
    (\<forall>x. page_of x \<in> kused (kern h) - set (node_addrs (page_table kspace)) - {tf} \<longrightarrow> m x = hmem h x)"
proof -
  let ?kpt = "page_table kspace"
  obtain m where lk: "\<And>pend. kmain_end B L S R C pend h =
      Option.bind (serve R (h\<lparr>kern := (kern h)\<lparr>phys_mem := m\<rparr>, csr_satp := addr_space_make_satp kspace,
        csr_sip := csr_sip h OR pend, csr_sstatus := set_bit 1 (unset_bit 1 (csr_sstatus h))\<rparr>)) (\<lambda>r.
      on_ok r (\<lambda>h5. on_ok (usertrapret R B L C h5) (\<lambda>x. Some (Inr x))))"
    "running L (h\<lparr>kern := (kern h)\<lparr>phys_mem := m\<rparr>\<rparr>) a tf space kspace"
    "kmap ((kern h)\<lparr>phys_mem := m\<rparr>) (page_table space) = kmap (kern h) (page_table space)"
    "\<forall>x. page_of x \<notin> set (node_addrs ?kpt) \<union> kfree (kern h) \<longrightarrow> m x = hmem h x"
    using kmain_locked [OF B L S R r hp kok free dis, of C] by blast
  define h2 where "h2 = h\<lparr>kern := (kern h)\<lparr>phys_mem := m\<rparr>, csr_satp := addr_space_make_satp kspace,
    csr_sstatus := set_bit 1 (unset_bit 1 (csr_sstatus h))\<rparr>"
  have r2: "running L h2 a tf space kspace"
    by (rule running_cong [OF lk(2), of _ m]) (simp_all add: h2_def reg_def)
  have free_used: "kfree (kern h) \<inter> kused (kern h) = {}"
    using free_used_disjoint [of "FRAME_ALLOCATOR (kern h)"] pt_invD(1) [OF runningD(10) [OF r]] by (simp add: kstate_wf_def)
  have c2: "context_at m tf = context_at (hmem h) tf"
    using lk(4) runningD(15) [OF r] tf free_used by (intro context_at_page [OF runningD(6) [OF r]]) auto
  let ?c = "set_tp (context_at (hmem h) tf) (hart_id h)"
  let ?m = "put_context m tf ?c"
  have len: "length (user_regs ?c) = 32" by simp
  have h2: "h\<lparr>kern := (kern h)\<lparr>phys_mem := m\<rparr>, csr_satp := addr_space_make_satp kspace,
      csr_sip := csr_sip h OR 0, csr_sstatus := set_bit 1 (unset_bit 1 (csr_sstatus h))\<rparr> = h2"
    unfolding h2_def by (rule machine.equality) simp_all
  have id: "hart_id h2 = hart_id h" by (simp add: h2_def hart_id_def reg_def)
  have "serve R h2 = Some (Inr h2)"
    using ip by (intro serve_none pending_cause_none) (simp add: h2_def)
  then have "kmain_end B L S R C 0 h = on_ok (usertrapret R B L C h2) (\<lambda>x. Some (Inr x))"
    unfolding lk(1) h2 by simp
  also have "usertrapret R B L C h2 = Inr ((TRAMPOLINE_BASE_VA + (sym_userret C - sym_uservec C), addr_space_make_satp space),
      h2\<lparr>kern := (kern h2)\<lparr>phys_mem := ?m\<rparr>, csr_stvec := TRAMPOLINE_BASE_VA, csr_sstatus := ret_status (csr_sstatus h2)\<rparr>)"
    using usertrapret_spec [OF B R C r2] ss ctx c2 id by (simp add: h2_def)
  finally have e: "kmain_end B L S R C 0 h = Some (Inr ((TRAMPOLINE_BASE_VA + (sym_userret C - sym_uservec C), addr_space_make_satp space),
      h\<lparr>kern := (kern h)\<lparr>phys_mem := ?m\<rparr>, csr_satp := addr_space_make_satp kspace,
        csr_stvec := TRAMPOLINE_BASE_VA, csr_sstatus := ret_status (csr_sstatus h)\<rparr>))"
    by (simp add: h2_def) (rule machine.equality; simp add: ret_status_sie [unfolded One_nat_def])
  have pm: "?m x = m x" if "page_of x \<noteq> tf" for x
    using put_context_frame [OF runningD(6) [OF r] len that] .
  have "running L (h\<lparr>kern := (kern h)\<lparr>phys_mem := ?m\<rparr>\<rparr>) a tf space kspace"
    by (rule running_cong [OF r2, of _ ?m]) (simp_all add: h2_def reg_def pm)
  moreover have "kmap ((kern h)\<lparr>phys_mem := ?m\<rparr>) (page_table space) = kmap (kern h) (page_table space)"
    using pt_frame_page(2) [OF runningD(10,14) [OF r2], of ?m] lk(3) pm by (simp add: h2_def)
  moreover have "context_at ?m tf = ?c" using context_roundtrip [OF runningD(6) [OF r] len] .
  moreover have "?m x = hmem h x" if "page_of x \<in> kused (kern h) - set (node_addrs ?kpt) - {tf}" for x
    using that pm lk(4) free_used by auto
  ultimately show ?thesis using e by blast
qed

text \<open>A tick of the timer that has arrived by line 103, and no interrupt of a device.\<close>

definition ticked :: "usize \<Rightarrow> bool" where
  "ticked pend \<longleftrightarrow> bit pend 1 \<and> \<not> bit pend 9"

lemma kmain_end_ticked:
  assumes "bitflags_ok B" and "linker_ok L" and "satp_set_ok S" and "riscv_ok R"
    and "running L h a tf space kspace" and "heap_ok L (kern h)" and "space_ok L kspace (kern h)"
    and "73 \<le> card (kfree (kern h))"
    and "set (node_addrs (page_table space)) \<inter> set (node_addrs (page_table kspace)) = {}"
    and h: "csr_sip h = 0" "bit (csr_sie h) 1" "mode h = SupervisorMode" and p: "ticked pend"
  shows "kmain_end B L S R C pend h = None"
proof -
  obtain m where lk: "kmain_end B L S R C pend h =
      Option.bind (serve R (h\<lparr>kern := (kern h)\<lparr>phys_mem := m\<rparr>, csr_satp := addr_space_make_satp kspace,
        csr_sip := csr_sip h OR pend, csr_sstatus := set_bit 1 (unset_bit 1 (csr_sstatus h))\<rparr>)) (\<lambda>r.
      on_ok r (\<lambda>h5. on_ok (usertrapret R B L C h5) (\<lambda>x. Some (Inr x))))"
    using kmain_locked [OF assms(1-9), of C] by blast
  have "serve R (h\<lparr>kern := (kern h)\<lparr>phys_mem := m\<rparr>, csr_satp := addr_space_make_satp kspace,
        csr_sip := csr_sip h OR pend, csr_sstatus := set_bit 1 (unset_bit 1 (csr_sstatus h))\<rparr>) = None"
    using h p by (intro serve_soft [OF assms(4)]) (simp add: soft_stuck_at_def ticked_def bit_set_bit_iff)
  then show ?thesis unfolding lk by simp
qed

section \<open>Hart 0\<close>

lemma info_returns:
  assumes "uart_ok D UART_BASE_ADDR view" and "\<not> bit (ua_lcr (view d)) 7"
  shows "\<exists>d'. info D m s d = Some d' \<and> \<not> bit (ua_lcr (view d')) 7"
  using uart_write_str_returns [OF assms] assms(2)
  unfolding info_def print_uart_def UART_def uart_new_def same_regs_def by metis

lemma uart_init_open:
  assumes "uart_ok D UART_BASE_ADDR view"
  shows "\<not> bit (ua_lcr (view (uart_module_init D d))) 7"
  using uart_init_view [OF assms, of d] by (simp add: uart_module_init_def UART_def uart_new_def bit_numeral_rec)

text \<open>Accesses to the interrupt controller do not reach the serial line, on which time passes meanwhile.\<close>

definition plic_apart :: "'d mmio \<Rightarrow> ('d \<Rightarrow> uart_view) \<Rightarrow> bool" where
  "plic_apart D view \<longleftrightarrow> (\<forall>a v d. 0xc000000 \<le> unat a \<and> unat a < 0xc400000 \<longrightarrow>
     uart_runs (view d) (view (write_u32 D a v d)) \<and> uart_runs (view d) (view (snd (read_u32 D a d))))"

lemma plic_view:
  assumes "plic_apart D view" and "unat (hart_id h) < 8"
  shows "ua_lcr (view (plic_init D d)) = ua_lcr (view d)"
    and "\<exists>d'. plic_hart_init D h d = Inr d' \<and> ua_lcr (view d') = ua_lcr (view d)"
proof -
  have v: "ua_lcr (view (write_u32 D a w d)) = ua_lcr (view d)" "ua_lcr (view (snd (read_u32 D a d))) = ua_lcr (view d)"
    if "a \<in> {PLIC_BASE + 40, PLIC_BASE + 4, PLIC_SENABLE_BASE + hart_id h * 0x100, PLIC_SPRIORITY_BASE + hart_id h * 0x2000,
      PLIC_SPRIORITY_BASE + hart_id h * 0x2000 + 40, PLIC_SPRIORITY_BASE + hart_id h * 0x2000 + 4}" for a w d
    using plic_words [OF assms(2) that] assms(1) unfolding plic_apart_def by (blast intro: uart_runs_lcr)+
  show "ua_lcr (view (plic_init D d)) = ua_lcr (view d)"
    by (simp add: plic_init_def plic_init_irq_def URT0_IRQ_def VIRTIO0_IRQ_def v)
  show "\<exists>d'. plic_hart_init D h d = Inr d' \<and> ua_lcr (view d') = ua_lcr (view d)"
    unfolding plic_hart_init_eq [OF assms(2)] Let_def split_def by (simp add: v)
qed

text \<open>The state before the first instruction: what the loader and the device reset leave.\<close>

definition reset_machine :: "'m pcb_slots \<Rightarrow> 'm machine \<Rightarrow> bool" where
  "reset_machine H h \<longleftrightarrow> mode h = MachineMode \<and> KERNEL_ADDRESS_SPACE h = None \<and>
     PROCESS_MANAGER h = process_manager_new H \<and> CPUS h = CPUS_init \<and> pcbs h = [] \<and> \<not> HART0_STARTED h \<and>
     \<not> bit (csr_sstatus h) 1 \<and> csr_sip h = 0 \<and>
     unat (load_usize (hmem h) CLINT_MTIME_BASE) + 1000000 < 2 ^ 64"

text \<open>The memory management, the trap vector and the statics as \<open>process::init\<close> finds them.\<close>

definition kernel_ready :: "'m pcb_slots \<Rightarrow> linker_symbols \<Rightarrow> addr_space \<Rightarrow> 'm machine \<Rightarrow> bool" where
  "kernel_ready H L kspace h \<longleftrightarrow> heap_ok L (kern h) \<and> space_ok L kspace (kern h) \<and> 86 \<le> card (kfree (kern h)) \<and>
     KERNEL_ADDRESS_SPACE h = Some kspace \<and> PROCESS_MANAGER h = process_manager_new H \<and> CPUS h = CPUS_init \<and>
     pcbs h = [] \<and> hart_id h = 0 \<and> csr_sscratch h = TRAPFRAME_BASE_USER_VA"

lemma hart0_kernel:
  fixes h :: "'m machine"
  assumes B: "bitflags_ok B" and L: "linker_ok L" and S: "satp_set_ok S" and pages: "159 \<le> heap_pages L"
    and h: "hart_id h = 0" "KERNEL_ADDRESS_SPACE h = None" "PROCESS_MANAGER h = process_manager_new H"
      "CPUS h = CPUS_init" "pcbs h = []"
  shows "\<exists>h1 h2 kspace. mm_init B L h = Inr h1 \<and> mm_hart_init B L S h1 = Inr h2 \<and>
    kernel_ready H L kspace (trap_init_hart R C h2) \<and> mode (trap_init_hart R C h2) = mode h \<and>
    csr_sstatus (trap_init_hart R C h2) = csr_sstatus h \<and>
    csr_sip (trap_init_hart R C h2) = csr_sip h \<and> csr_sie (trap_init_hart R C h2) = csr_sie h"
proof -
  have "73 \<le> heap_pages L" using pages by simp
  from mm_init_spec [OF B L this h(2)] obtain kspace s1 where
    mm: "mm_init B L h = Inr (h\<lparr>kern := s1, KERNEL_HEAP_ALLOCATOR := Some (ld_kernel_heap_space L, KERNEL_HEAP_SIZE),
      KERNEL_ADDRESS_SPACE := Some kspace\<rparr>)"
    "space_ok L kspace s1" "heap_ok L s1" "kused s1 = set (node_addrs (page_table kspace))"
    "length (node_addrs (page_table kspace)) \<le> 73"
    by blast
  have "card (kused s1) \<le> 73" unfolding mm(4) using mm(5) card_length order_trans by blast
  then have free: "86 \<le> card (kfree s1)" using heap_cards [OF L mm(3)] pages by simp
  let ?h1 = "h\<lparr>kern := s1, KERNEL_HEAP_ALLOCATOR := Some (ld_kernel_heap_space L, KERNEL_HEAP_SIZE), KERNEL_ADDRESS_SPACE := Some kspace\<rparr>"
  let ?h2 = "?h1\<lparr>csr_satp := addr_space_make_satp kspace, csr_sscratch := TRAPFRAME_BASE_USER_VA\<rparr>"
  have "mm_hart_init B L S ?h1 = Inr ?h2"
    by (rule mm_hart_init_spec [OF L S]) (use mm(2,3) in \<open>simp_all add: space_ok_def\<close>)
  moreover have "kernel_ready H L kspace (trap_init_hart R C ?h2)"
    using mm(2,3) free h by (simp add: kernel_ready_def trap_init_hart_def hart_id_def reg_def)
  ultimately show ?thesis
    using mm(1) by (intro exI [of _ ?h1] exI [of _ ?h2] exI [of _ kspace]) (simp add: trap_init_hart_def)
qed

text \<open>The first process is about to run the program \<open>init_text\<close>.\<close>

definition first_run :: "linker_symbols \<Rightarrow> code_symbols \<Rightarrow> u8 list \<Rightarrow> 'm machine \<Rightarrow> addr_space \<Rightarrow> bool" where
  "first_run L C init_text h space \<longleftrightarrow> (\<exists>tf tx stk sk kspace. running L h 0 tf space kspace \<and> HART0_STARTED h \<and>
     csr_satp h = addr_space_make_satp kspace \<and> csr_sscratch h = TRAPFRAME_BASE_USER_VA \<and>
     csr_stvec h = TRAMPOLINE_BASE_VA \<and>
     context_at (hmem h) tf = set_tp (first_context C (addr_space_make_satp kspace) (sk + 0x1000)) 0 \<and>
     kmap (kern h) (page_table space) = init_map L (length init_text) stk tx tf \<and>
     user_frame (kern h) tf space kspace stk \<and> user_frame (kern h) tf space kspace tx \<and>
     (\<forall>k < 4096. hmem h (tx + of_nat k) = (if k < length init_text then init_text ! k else 0)))"

lemma hart0_process:
  fixes h :: "'m machine"
  assumes H: "hash_map_ok H" and B: "bitflags_ok B" and L: "linker_ok L" and S: "satp_set_ok S" and R: "riscv_ok R"
    and C: "code_ok L C" and len: "length init_text < 2 ^ 30" and k: "kernel_ready H L kspace h"
    and s: "csr_sip h = 0" "bit (csr_sie h) 1" "mode h = SupervisorMode"
  shows "\<exists>h1 h2 space. process_init H B L C 0x1000 init_text h = Inr h1 \<and>
    kmain_end B L S R C 0 (h1\<lparr>HART0_STARTED := True\<rparr>) =
      Some (Inr ((TRAMPOLINE_BASE_VA + (sym_userret C - sym_uservec C), addr_space_make_satp space), h2)) \<and>
    (\<forall>pend. ticked pend \<longrightarrow> kmain_end B L S R C pend (h1\<lparr>HART0_STARTED := True\<rparr>) = None) \<and>
    first_run L C init_text h2 space \<and> mode h2 = SupervisorMode \<and> csr_sstatus h2 = ret_status (csr_sstatus h)"
proof -
  have r: "heap_ok L (kern h)" "KERNEL_ADDRESS_SPACE h = Some kspace" "space_ok L kspace (kern h)"
    "13 \<le> card (kfree (kern h))" "PROCESS_MANAGER h = process_manager_new H" "CPUS h = CPUS_init" "pcbs h = []" "hart_id h = 0"
    "csr_sscratch h = TRAPFRAME_BASE_USER_VA" "86 \<le> card (kfree (kern h))"
    using k by (simp_all add: kernel_ready_def)
  from process_init_running [OF B L H r(1-3) len r(4-8), of C]
  obtain s' pcb pm sk stk tx tf space h1 where
    h1: "h1 = h\<lparr>kern := s', pcbs := [pcb], PROCESS_MANAGER := pm,
        CPUS := CPUS_init[0 := \<lparr>cpu_hartid = 0, running_process = Some 0\<rparr>]\<rparr>"
    and p: "process_init H B L C 0x1000 init_text h = Inr h1" "running L h1 0 tf space kspace"
      "space_ok L kspace s'" "heap_ok L s'" "tf \<in> kused s'" "user_frame s' tf space kspace stk" "user_frame s' tf space kspace tx"
      "set (node_addrs (page_table space)) \<inter> set (node_addrs (page_table kspace)) = {}"
      "kmap s' (page_table space) = init_map L (length init_text) stk tx tf"
      "context_at (phys_mem s') tf = first_context C (addr_space_make_satp kspace) (sk + 0x1000)"
      "\<forall>k < 4096. phys_mem s' (tx + of_nat k) = (if k < length init_text then init_text ! k else 0)"
      "card (kfree (kern h)) \<le> card (kfree s') + 13"
    by (elim exE conjE) (rule that [OF refl]; assumption)
  define h5 where "h5 = h1\<lparr>HART0_STARTED := True\<rparr>"
  have r5: "running L h5 0 tf space kspace"
    by (rule running_cong [OF p(2), of _ "hmem h1"]) (simp_all add: h5_def reg_def)
  have pre5: "heap_ok L (kern h5)" "space_ok L kspace (kern h5)" "73 \<le> card (kfree (kern h5))" "tf \<in> kused (kern h5)"
    "csr_sscratch h5 = TRAPFRAME_BASE_USER_VA" "kernel_satp (context_at (hmem h5) tf) = addr_space_make_satp kspace"
    "hart_id h5 = 0" "kern h5 = s'" "csr_sip h5 = 0" "bit (csr_sie h5) 1" "mode h5 = SupervisorMode"
    using p(3-5,10,12) r(8-10) s by (simp_all add: h5_def h1 first_context_def hart_id_def reg_def)
  have tk: "kmain_end B L S R C pend h5 = None" if "ticked pend" for pend
    using kmain_end_ticked [OF B L S R r5 pre5(1-3) p(8) pre5(9-11) that] .
  obtain m where e: "kmain_end B L S R C 0 h5 =
      Some (Inr ((TRAMPOLINE_BASE_VA + (sym_userret C - sym_uservec C), addr_space_make_satp space),
        h5\<lparr>kern := (kern h5)\<lparr>phys_mem := m\<rparr>, csr_satp := addr_space_make_satp kspace,
          csr_stvec := TRAMPOLINE_BASE_VA, csr_sstatus := ret_status (csr_sstatus h5)\<rparr>))"
    "running L (h5\<lparr>kern := (kern h5)\<lparr>phys_mem := m\<rparr>\<rparr>) 0 tf space kspace"
    "kmap ((kern h5)\<lparr>phys_mem := m\<rparr>) (page_table space) = kmap (kern h5) (page_table space)"
    "context_at m tf = set_tp (context_at (hmem h5) tf) (hart_id h5)"
    "\<forall>x. page_of x \<in> kused (kern h5) - set (node_addrs (page_table kspace)) - {tf} \<longrightarrow> m x = hmem h5 x"
    using kmain_end_spec [OF B L S R C r5 pre5(1-4) p(8) pre5(5,6,9)] by blast
  let ?h2 = "h5\<lparr>kern := (kern h5)\<lparr>phys_mem := m\<rparr>, csr_satp := addr_space_make_satp kspace,
    csr_stvec := TRAMPOLINE_BASE_VA, csr_sstatus := ret_status (csr_sstatus h5)\<rparr>"
  have "running L ?h2 0 tf space kspace"
    by (rule running_cong [OF e(2), of _ m]) (simp_all add: reg_def)
  moreover have "m (tx + of_nat k) = (if k < length init_text then init_text ! k else 0)" if "k < 4096" for k
    using e(5) p(7,11) page_of_add [of tx k] that by (simp add: pre5(8) user_frame_def)
  moreover have "user_frame (kern ?h2) tf space kspace q" if "q = stk \<or> q = tx" for q
    using p(6,7) that by (auto simp: user_frame_def pre5(8))
  ultimately have "first_run L C init_text ?h2 space"
    unfolding first_run_def using e(3,4) p(9,10) pre5(5,7,8)
    by (rule_tac exI [of _ tf], rule_tac exI [of _ tx], rule_tac exI [of _ stk], rule_tac exI [of _ sk],
        rule_tac exI [of _ kspace]) (simp add: h5_def)
  then show ?thesis
    using p(1) e(1) tk pre5(11) unfolding h5_def [symmetric]
    by (intro exI [of _ h1] exI [of _ ?h2] exI [of _ space]) (simp add: h5_def h1)
qed

lemma kmain_hart0:
  fixes h :: "'m machine"
  assumes H: "hash_map_ok H" and B: "bitflags_ok B" and L: "linker_ok L" and S: "satp_set_ok S" and R: "riscv_ok R"
    and C: "code_ok L C" and st: "heap_stats_ok st" and D: "uart_ok D UART_BASE_ADDR view" "plic_apart D view"
    and len: "length init_text < 2 ^ 30" and pages: "159 \<le> heap_pages L"
    and h: "hart_id h = 0" "KERNEL_ADDRESS_SPACE h = None" "PROCESS_MANAGER h = process_manager_new H"
      "CPUS h = CPUS_init" "pcbs h = []"
    and i: "csr_sip h = 0" "bit (csr_sie h) 1" "mode h = SupervisorMode"
  shows "(\<exists>h' d' space. kmain H B L S R C D 0x1000 init_text st 0 h d =
      Some (Inr (((TRAMPOLINE_BASE_VA + (sym_userret C - sym_uservec C), addr_space_make_satp space), h'), d')) \<and>
    first_run L C init_text h' space \<and> mode h' = SupervisorMode \<and> csr_sstatus h' = ret_status (csr_sstatus h)) \<and>
    (\<forall>pend. ticked pend \<longrightarrow> kmain H B L S R C D 0x1000 init_text st pend h d = None)"
proof -
  obtain d2 where d2: "info D (hmem h) (''booting derek-core on hart '' @ dec (unat (hart_id h)) @ ''...'') (uart_module_init D d) = Some d2"
    "\<not> bit (ua_lcr (view d2)) 7"
    using info_returns [OF D(1) uart_init_open [OF D(1)]] by blast
  obtain d3 where d3: "info D (hmem h) ''UART initialised'' d2 = Some d3" "\<not> bit (ua_lcr (view d3)) 7"
    using info_returns [OF D(1) d2(2)] by blast
  obtain h1 h2 kspace where k: "mm_init B L h = Inr h1" "mm_hart_init B L S h1 = Inr h2"
    "kernel_ready H L kspace (trap_init_hart R C h2)" "mode (trap_init_hart R C h2) = mode h"
    "csr_sstatus (trap_init_hart R C h2) = csr_sstatus h" "csr_sip (trap_init_hart R C h2) = csr_sip h"
    "csr_sie (trap_init_hart R C h2) = csr_sie h"
    using hart0_kernel [OF B L S pages h, of R C] by blast
  define h3 where "h3 = trap_init_hart R C h2"
  have "unat (hart_id h3) < 8" using k(3) by (simp add: kernel_ready_def h3_def)
  note pv = plic_view [OF D(2) this]
  obtain d5 where d5: "plic_hart_init D h3 (plic_init D d3) = Inr d5" "\<not> bit (ua_lcr (view d5)) 7"
    using pv(2) [of "plic_init D d3"] pv(1) d3(2) by auto
  obtain d6 where d6: "info D (hmem h3) ''PLIC initialised'' d5 = Some d6"
    using info_returns [OF D(1) d5(2)] by blast
  obtain h4 h5 space where p: "process_init H B L C 0x1000 init_text h3 = Inr h4"
    "kmain_end B L S R C 0 (h4\<lparr>HART0_STARTED := True\<rparr>) =
      Some (Inr ((TRAMPOLINE_BASE_VA + (sym_userret C - sym_uservec C), addr_space_make_satp space), h5))"
    "\<forall>pend. ticked pend \<longrightarrow> kmain_end B L S R C pend (h4\<lparr>HART0_STARTED := True\<rparr>) = None"
    "first_run L C init_text h5 space" "mode h5 = SupervisorMode" "csr_sstatus h5 = ret_status (csr_sstatus h3)"
    using hart0_process [OF H B L S R C len k(3)] k(4,6,7) i unfolding h3_def by auto
  obtain pr where "print_kernel_heap_status st = Inr pr"
    using print_heap_status_ok [OF st] by blast
  then have e: "kmain H B L S R C D 0x1000 init_text st pend h d =
      Option.bind (kmain_end B L S R C pend (h4\<lparr>HART0_STARTED := True\<rparr>)) (\<lambda>r. on_ok r (\<lambda>x. Some (Inr (x, d6))))" for pend
    using h(1) d2(1) d3(1) k(1,2) d5(1) d6 p(1)
    by (simp add: kmain_def Let_def h3_def [symmetric])
  show ?thesis using p(2-6) k(5) h3_def by (auto simp: e)
qed

end
