(* ===== verification/Kernelvec.thy ===== *)
theory Kernelvec
  imports Clint
begin

text \<open>
  The supervisor-mode handler \<^verbatim>\<open>__kernelvec\<close> of \<^verbatim>\<open>kernel/src/asm/kernelvec.S\<close>: it pushes the
  registers on the stack it finds, calls \<open>kerneltrap\<close>, pops them and returns.  The stack lies in
  memory that the kernel maps at its own address.
\<close>

section \<open>The code\<close>

definition kernelvec_save :: "instr list" where
  "kernelvec_save = Addi 2 2 (- (32 * 8)) # map (\<lambda>i. Sd i (of_nat i * 8) 2) [1..<32]"

definition kernelvec_restore :: "instr list" where
  "kernelvec_restore =
     [Ld 1 (1 * 8) 2, Ld 2 (2 * 8) 2, Ld 3 (3 * 8) 2] @
     map (\<lambda>i. Ld i (of_nat i * 8) 2) [5..<32] @ [Addi 2 2 (32 * 8), Sret]"

section \<open>The stack frame\<close>

text \<open>The 32 words from \<open>b\<close> on, which the handler uses.\<close>

definition in_frame :: "usize \<Rightarrow> usize \<Rightarrow> bool" where
  "in_frame b x \<longleftrightarrow> unat (x - b) < 256"

definition maps_stack :: "usize \<Rightarrow> usize \<Rightarrow> pmem \<Rightarrow> bool" where
  "maps_stack satp b m \<longleftrightarrow> unat b + 256 \<le> 2 ^ 64 \<and>
     (\<forall>m'. (\<forall>x. \<not> in_frame b x \<longrightarrow> m' x = m x) \<longrightarrow> (\<forall>acc i. acc \<noteq> Fetch \<longrightarrow> i < 32 \<longrightarrow>
        hw_translate satp SupervisorMode m' acc (b + of_nat i * 8) = Some (b + of_nat i * 8)))"

lemma slot:
  fixes b :: usize
  assumes "unat b + 256 \<le> 2 ^ 64" and "i < 32"
  shows "unat (b + of_nat i * 8) = unat b + 8 * i"
proof -
  have "unat (of_nat (8 * i) :: usize) = 8 * i" using assms(2) by (intro unat_of_nat_small) simp
  then have "unat (b + of_nat (8 * i)) = unat b + 8 * i"
    using assms by (simp add: unat_word_ariths(1))
  then show ?thesis by (simp add: mult.commute)
qed

lemma slots_apart:
  assumes "unat b + 256 \<le> 2 ^ 64" and "i < 32" and "j < 32" and "i \<noteq> j"
  shows "words_apart (b + of_nat i * 8) (b + of_nat j * 8)"
  using assms slot [OF assms(1,2)] slot [OF assms(1,3)]
  by (cases "i < j") (auto intro: words_apartI)

lemma store_slot_frame:
  assumes "unat b + 256 \<le> 2 ^ 64" and "i < 32" and "\<not> in_frame b x"
  shows "store_usize m (b + of_nat i * 8) v x = m x"
proof -
  have "unat (of_nat i * 8 :: usize) = 8 * i"
    using assms(2) by (simp add: unat_word_ariths(2) unat_of_nat)
  moreover have "x - b = (x - (b + of_nat i * 8)) + of_nat i * 8" by simp
  ultimately have "unat (x - b) \<le> unat (x - (b + of_nat i * 8)) + 8 * i"
    by (metis mod_less_eq_dividend unat_word_ariths(1))
  then have "\<not> unat (x - (b + of_nat i * 8)) < 8"
    using assms(2,3) by (simp add: in_frame_def)
  then show ?thesis by (simp add: store_usize_def)
qed

lemma maps_stack_access:
  assumes "maps_stack satp b m" and "\<And>x. \<not> in_frame b x \<Longrightarrow> m' x = m x" and "i < 32"
  shows "hw_translate satp SupervisorMode m' Load (b + of_nat i * 8) = Some (b + of_nat i * 8)"
    and "hw_translate satp SupervisorMode m' Store (b + of_nat i * 8) = Some (b + of_nat i * 8)"
  using assms unfolding maps_stack_def by blast+

section \<open>Saving and restoring\<close>

definition pushed :: "usize \<Rightarrow> (nat \<Rightarrow> usize) \<Rightarrow> nat list \<Rightarrow> pmem \<Rightarrow> pmem" where
  "pushed b g is m = fold (\<lambda>i m. store_usize m (b + of_nat i * 8) (g i)) is m"

lemma pushed_frame:
  assumes "unat b + 256 \<le> 2 ^ 64" and "\<forall>i \<in> set is. i < 32" and "\<not> in_frame b x"
  shows "pushed b g is m x = m x"
  using assms(2)
  by (induction "is" arbitrary: m) (simp_all add: pushed_def store_slot_frame [OF assms(1) _ assms(3)])

lemma pushed_load:
  assumes b: "unat b + 256 \<le> 2 ^ 64" and "\<forall>i \<in> set is. i < 32" and j: "j < 32" and "distinct is"
  shows "load_usize (pushed b g is m) (b + of_nat j * 8) =
    (if j \<in> set is then g j else load_usize m (b + of_nat j * 8))"
  using assms(2,4)
proof (induction "is" arbitrary: m)
  case (Cons i "is")
  have "load_usize (store_usize m (b + of_nat i * 8) (g i)) (b + of_nat j * 8) =
      (if j = i then g i else load_usize m (b + of_nat j * 8))"
    using Cons.prems(1) slots_apart [OF b _ j, of i] by (auto intro: load_store_apart)
  then show ?case
    using Cons by (auto simp: pushed_def)
qed (simp add: pushed_def)

lemma exec_push:
  assumes "maps_stack satp b m" and "\<forall>i \<in> set is. i < 32"
    and "mode h = SupervisorMode" and "csr_satp h = satp" and "reg h 2 = b"
    and "\<And>x. \<not> in_frame b x \<Longrightarrow> hmem h x = m x"
  shows "exec (map (\<lambda>i. Sd i (of_nat i * 8) 2) is) h = Some (set_hmem (pushed b (reg h) is (hmem h)) h)"
  using assms(2-)
proof (induction "is" arbitrary: h)
  case (Cons i "is")
  have b: "unat b + 256 \<le> 2 ^ 64" using assms(1) by (simp add: maps_stack_def)
  have i: "i < 32" using Cons.prems(1) by simp
  let ?m = "store_usize (hmem h) (b + of_nat i * 8) (reg h i)"
  have st: "step (Sd i (of_nat i * 8) 2) h = Some (set_hmem ?m h)"
    using maps_stack_access(2) [OF assms(1) Cons.prems(5) i] Cons.prems(2-4) by simp
  have "exec (map (\<lambda>i. Sd i (of_nat i * 8) 2) is) (set_hmem ?m h) =
      Some (set_hmem (pushed b (reg h) is ?m) (set_hmem ?m h))"
    using Cons.IH [of "set_hmem ?m h"] Cons.prems store_slot_frame [OF b i] by simp
  with st show ?case by (simp add: pushed_def del: step.simps)
qed (simp add: pushed_def)

lemma exec_pop:
  assumes "maps_stack satp b m" and "\<forall>i \<in> set is. i < 32 \<and> i \<noteq> 2 \<and> i \<noteq> 0"
    and "mode h = SupervisorMode" and "csr_satp h = satp" and "reg h 2 = b"
    and "\<And>x. \<not> in_frame b x \<Longrightarrow> hmem h x = m x"
  shows "exec (map (\<lambda>i. Ld i (of_nat i * 8) 2) is) h =
    Some (h\<lparr>gpr := (\<lambda>r. if r \<in> set is then load_usize (hmem h) (b + of_nat r * 8) else gpr h r)\<rparr>)"
  using assms(2-)
proof (induction "is" arbitrary: h)
  case (Cons i "is")
  have i: "i < 32" "i \<noteq> 2" "i \<noteq> 0" using Cons.prems(1) by simp_all
  let ?h = "set_reg i (load_usize (hmem h) (b + of_nat i * 8)) h"
  have st: "step (Ld i (of_nat i * 8) 2) h = Some ?h"
    using maps_stack_access(1) [OF assms(1) Cons.prems(5) i(1)] Cons.prems(2-4) by simp
  have "exec (map (\<lambda>i. Ld i (of_nat i * 8) 2) is) ?h =
    Some (?h\<lparr>gpr := (\<lambda>r. if r \<in> set is then load_usize (hmem ?h) (b + of_nat r * 8) else gpr ?h r)\<rparr>)"
    using Cons.IH [of ?h] Cons.prems i(2) by (simp add: reg_set_reg)
  with st i(3) show ?case
    by (auto simp: set_reg_def fun_eq_iff simp del: step.simps intro!: arg_cong [where f = "\<lambda>g. h\<lparr>gpr := g\<rparr>"])
qed simp

section \<open>The handler around \<open>kerneltrap\<close>\<close>

lemma kernelvec_save_spec:
  assumes ms: "maps_stack (csr_satp h) b (hmem h)" and b: "b = gpr h 2 - 256" and mode: "mode h = SupervisorMode"
  shows "exec kernelvec_save h =
    Some (h\<lparr>kern := (kern h)\<lparr>phys_mem := pushed b ((gpr h)(2 := b)) [1..<32] (hmem h)\<rparr>, gpr := (gpr h)(2 := b)\<rparr>)"
proof -
  let ?h = "set_reg 2 b h"
  have "exec (map (\<lambda>i. Sd i (of_nat i * 8) 2) [1..<32]) ?h =
      Some (set_hmem (pushed b (reg ?h) [1..<32] (hmem ?h)) ?h)"
    using mode by (intro exec_push [OF ms]) (simp_all add: reg_set_reg)
  moreover have "pushed b (reg ?h) [1..<32] m = pushed b ((gpr h)(2 := b)) [1..<32] m" for m
    unfolding pushed_def by (rule fold_cong) (auto simp: reg_def set_reg_def)
  moreover have "step (Addi 2 2 (- (32 * 8))) h = Some ?h"
    by (simp add: reg_def b)
  ultimately show ?thesis
    unfolding kernelvec_save_def exec.simps
    by (simp add: set_hmem_def set_reg_def del: step.simps upt_rec_numeral)
qed

lemma kernelvec_restore_spec:
  assumes ms: "maps_stack (csr_satp h) b (hmem h)" and b: "gpr h 2 = b" and mode: "mode h = SupervisorMode"
    and spp: "bit (csr_sstatus h) 8"
    and sl: "\<And>i. 1 \<le> i \<Longrightarrow> i < 32 \<Longrightarrow> load_usize (hmem h) (b + of_nat i * 8) = f i" and f2: "f 2 = b"
    and f4: "f 4 = gpr h 4"
  shows "exec kernelvec_restore h =
    Some (h\<lparr>gpr := (\<lambda>i. if 1 \<le> i \<and> i < 32 then (f(2 := b + 256)) i else gpr h i), pc := csr_sepc h,
      csr_sstatus := sret_status (csr_sstatus h)\<rparr>)"
proof -
  note acc = maps_stack_access(1) [OF ms]
  let ?h1 = "h\<lparr>gpr := (gpr h)(1 := f 1, 2 := b, 3 := f 3)\<rparr>"
  let ?h2 = "?h1\<lparr>gpr := (\<lambda>r. if r \<in> set [5..<32] then load_usize (hmem ?h1) (b + of_nat r * 8) else gpr ?h1 r)\<rparr>"
  have "exec [Ld 1 (1 * 8) 2, Ld 2 (2 * 8) 2, Ld 3 (3 * 8) 2] h = Some ?h1"
    using acc [of "hmem h" 1] acc [of "hmem h" 2] acc [of "hmem h" 3] sl [of 1] sl [of 2] sl [of 3] mode f2
    by (simp add: reg_def b set_reg_def)
  moreover have "exec (map (\<lambda>i. Ld i (of_nat i * 8) 2) [5..<32]) ?h1 = Some ?h2"
    using mode by (intro exec_pop [OF ms]) (simp_all add: reg_def)
  moreover have "(gpr ?h2)(2 := b + 256) = (\<lambda>i. if 1 \<le> i \<and> i < 32 then (f(2 := b + 256)) i else gpr h i)"
  proof
    fix r :: nat
    consider "r = 0" | "r = 1" | "r = 2" | "r = 3" | "r = 4" | "5 \<le> r" "r < 32" | "32 \<le> r" by linarith
    then show "((gpr ?h2)(2 := b + 256)) r = (if 1 \<le> r \<and> r < 32 then (f(2 := b + 256)) r else gpr h r)"
      using f4 sl [of r] by cases (simp_all del: upt_rec_numeral)
  qed
  then have "exec [Addi 2 2 (32 * 8), Sret] ?h2 =
      Some (h\<lparr>gpr := (\<lambda>i. if 1 \<le> i \<and> i < 32 then (f(2 := b + 256)) i else gpr h i), pc := csr_sepc h,
        csr_sstatus := sret_status (csr_sstatus h)\<rparr>)"
    using spp mode
    by (rule_tac trans, simp add: reg_def set_reg_def del: upt_rec_numeral)
       (rule arg_cong [where f = Some], rule hart.equality; simp del: upt_rec_numeral)
  ultimately show ?thesis
    unfolding kernelvec_restore_def exec_append by (simp del: upt_rec_numeral)
qed

end
