(* ===== verification/Interrupt_Theorems.thy ===== *)
theory Interrupt_Theorems
  imports Kernelvec Trap_Theorems
begin

text \<open>
  The properties of interrupts: the handler of traps in the kernel, the timer tick in machine mode
  and what becomes of the software interrupt that a tick raises.
\<close>

section \<open>Stacks that the kernel maps\<close>

lemma kernel_page_maps_stack:
  assumes inv: "pt_inv s pt" and small: "\<forall>n \<in> set (node_addrs pt). n < 2 ^ 56" and p: "page_aligned p"
    "unat p + 4096 \<le> 2 ^ 38" "p \<notin> set (node_addrs pt)" and km: "kmap s pt p = Some (entry_for p 7)"
    and k: "k + 256 \<le> 4096"
  shows "maps_stack (make_satp pt) (p + of_nat k) (phys_mem s)"
  unfolding maps_stack_def
proof (intro conjI allI impI)
  have uk: "unat (p + of_nat k) = unat p + k" using unat_page_add [OF p(1)] k by simp
  then show "unat (p + of_nat k) + 256 \<le> 2 ^ 64" using p(2) k by simp
  fix m' acc and i :: nat
  assume m': "\<forall>x. \<not> in_frame (p + of_nat k) x \<longrightarrow> m' x = phys_mem s x" and acc: "acc \<noteq> Fetch" and i: "i < 32"
  have "m' x = phys_mem s x" if x: "page_of x \<noteq> p" for x
  proof -
    have "\<not> in_frame (p + of_nat k) x"
    proof
      assume "in_frame (p + of_nat k) x"
      then have n: "unat (x - (p + of_nat k)) < 256" by (simp add: in_frame_def)
      have "p + of_nat (k + unat (x - (p + of_nat k))) = x" by simp
      with page_of_add [OF p(1), of "k + unat (x - (p + of_nat k))"] n k x show False by simp
    qed
    with m' show ?thesis by simp
  qed
  note pf = pt_frame_page [OF inv p(3), of m', OF this]
  let ?va = "p + of_nat (k + 8 * i)"
  have l: "k + 8 * i < 4096" using k i by simp
  have u: "unat ?va = unat p + (k + 8 * i)" using unat_page_add [OF p(1) l] .
  obtain q where q: "unat p = 4096 * q" using p(1) by (auto simp: page_aligned_def)
  then have "same_page ?va p"
    using l p(2) unfolding same_page_iff u by simp
  then have "kmap s pt ?va = Some (entry_for p 7)" using km pt_map_same_page [of ?va p "phys_mem s"] by simp
  moreover have "?va < 2 ^ 38" using u l p(2) by (simp add: word_less_nat_alt)
  moreover have "p < 2 ^ 56" using p(2) by (simp add: word_less_nat_alt)
  moreover have "(7 :: u16) AND NOT (mask 9) = 0" by (simp add: mask_eq_exp_minus_1)
  ultimately have "hw_translate (make_satp pt) SupervisorMode (phys_mem (s\<lparr>phys_mem := m'\<rparr>)) acc ?va =
      Some (page_of p OR (?va AND mask 12))"
    using pf small acc by (intro hw_translate_entry) (auto simp: hw_permits_def split: mem_access.split)
  moreover have "page_of p OR (?va AND mask 12) = ?va"
    using page_join [OF p(1,1) l] p(1) by (simp add: page_aligned_page_of)
  ultimately show "hw_translate (make_satp pt) SupervisorMode m' acc (p + of_nat k + of_nat i * 8) =
      Some (p + of_nat k + of_nat i * 8)"
    by (simp add: algebra_simps)
qed

text \<open>A free frame of the sample machine serves as a stack.\<close>

lemma sample_stack:
  "\<exists>s kspace p. space_ok sample_linker kspace s \<and> heap_ok sample_linker s \<and> page_aligned p \<and> p \<in> kfree s \<and>
     maps_stack (addr_space_make_satp kspace) (p + 0xF00) (phys_mem s)"
proof -
  obtain kspace s where b: "space_ok sample_linker kspace s" "heap_ok sample_linker s" "1000 \<le> card (kfree s)"
    using sample_boot by blast
  then have "kfree s \<noteq> {}" by auto
  then obtain p where p: "p \<in> kfree s" by blast
  note f = heap_frame_small [OF sample_linker_ok b(2)] heap_frames_mapped(4) [OF sample_linker_ok b(2), of p]
  have inv: "pt_inv s (page_table kspace)" using b(1) by (simp add: space_ok_def)
  have small: "\<forall>n \<in> set (node_addrs (page_table kspace)). n < 2 ^ 56"
    using f(3) pt_invD(4) [OF inv] by blast
  have "p \<notin> set (node_addrs (page_table kspace))"
    using p pt_invD(4) [OF inv] free_used_disjoint [of "FRAME_ALLOCATOR s"] b(2)
    by (auto simp: heap_ok_def kstate_wf_def)
  moreover have "page_aligned p" "unat p + 4096 \<le> 2 ^ 38" using f(1,2) [of p] p by simp_all
  moreover have "kmap s (page_table kspace) p = Some (entry_for p 7)"
    using f(4) b(1) p by (simp add: space_ok_def)
  ultimately have "maps_stack (make_satp (page_table kspace)) (p + of_nat 0xF00) (phys_mem s)"
    by (intro kernel_page_maps_stack [OF inv small]) simp_all
  with b(1,2) p \<open>page_aligned p\<close> show ?thesis
    by (auto simp: addr_space_make_satp_def)
qed

section \<open>Traps in the kernel\<close>

lemma kernel_trap_status:
  "bit (trap_status SupervisorMode x) 8"
  "bit (sret_status (trap_status SupervisorMode x)) 1 \<longleftrightarrow> bit x 1"
  by (simp_all add: trap_status_def sret_status_def Let_def bit_unset_bit_iff bit_set_bit_iff)

text \<open>The pushed words, read back from a memory that keeps the frame.\<close>

lemma pushed_back:
  assumes b: "unat b + 256 \<le> 2 ^ 64" and m': "\<And>x. in_frame b x \<Longrightarrow> m' x = pushed b f [1..<32] m x"
    and i: "1 \<le> i" "i < 32"
  shows "load_usize m' (b + of_nat i * 8) = f i"
proof -
  have "load_usize m' (b + of_nat i * 8) = load_usize (pushed b f [1..<32] m) (b + of_nat i * 8)"
  proof (rule load_usize_cong)
    fix k :: nat assume k: "k < 8"
    have "unat (of_nat (i * 8 + k) :: usize) = i * 8 + k"
      using i(2) k by (intro unat_of_nat_small) simp
    then have "in_frame b (b + of_nat i * 8 + of_nat k)"
      using i(2) k by (simp add: in_frame_def algebra_simps)
    then show "m' (b + of_nat i * 8 + of_nat k) = pushed b f [1..<32] m (b + of_nat i * 8 + of_nat k)"
      by (rule m')
  qed
  then show ?thesis
    using pushed_load [OF b, of "[1..<32]" i f m] i by (simp del: upt_rec_numeral)
qed

text \<open>The state in which \<open>kerneltrap\<close> is called, and the way back from it.\<close>

definition kernel_pushed :: "usize \<Rightarrow> 'a hart_scheme \<Rightarrow> 'a hart_scheme" where
  "kernel_pushed cause h =
     (let b = gpr h 2 - 256; f = (gpr h)(2 := b)
      in (take_trap cause 0 h)\<lparr>kern := (kern h)\<lparr>phys_mem := pushed b f [1..<32] (hmem h)\<rparr>, gpr := f\<rparr>)"

lemma kernel_trap_enter:
  assumes R: "riscv_ok R" and cause: "cause = 2 ^ 63 + 1 \<or> cause = 2 ^ 63 + 9" and mode: "mode h = SupervisorMode"
    and ms: "maps_stack (csr_satp h) (gpr h 2 - 256) (hmem h)"
  shows "exec kernelvec_save (take_trap cause 0 h) = Some (kernel_pushed cause h)"
    and "kerneltrap R (kernel_pushed cause h) = Inr (kernel_pushed cause h)"
    and "\<not> in_frame (gpr h 2 - 256) x \<Longrightarrow> hmem (kernel_pushed cause h) x = hmem h x"
proof -
  let ?h0 = "take_trap cause 0 h"
  have h0: "hmem ?h0 = hmem h" "csr_satp ?h0 = csr_satp h" "gpr ?h0 = gpr h" "mode ?h0 = SupervisorMode" "kern ?h0 = kern h"
    by (simp_all add: take_trap_def)
  show "exec kernelvec_save ?h0 = Some (kernel_pushed cause h)"
    using kernelvec_save_spec [of ?h0 "gpr h 2 - 256"] ms unfolding h0 kernel_pushed_def Let_def by blast
  show "kerneltrap R (kernel_pushed cause h) = Inr (kernel_pushed cause h)"
    using R cause by (auto simp: kerneltrap_def kernel_pushed_def Let_def take_trap_def riscv_ok_def simp del: upt_rec_numeral)
  have "unat (gpr h 2 - 256) + 256 \<le> 2 ^ 64" using ms by (simp add: maps_stack_def)
  then show "\<not> in_frame (gpr h 2 - 256) x \<Longrightarrow> hmem (kernel_pushed cause h) x = hmem h x"
    by (simp add: kernel_pushed_def Let_def pushed_frame del: upt_rec_numeral)
qed

lemma kernel_trap_leave:
  assumes mode: "mode h = SupervisorMode" and g: "g 2 = gpr h 2 - 256" "g 4 = gpr h 4"
    and ms: "maps_stack (csr_satp h) (gpr h 2 - 256) m'"
    and m': "\<forall>x. in_frame (gpr h 2 - 256) x \<longrightarrow> m' x = hmem (kernel_pushed cause h) x"
  shows "\<exists>h2. exec kernelvec_restore (set_hmem m' (kernel_pushed cause h)\<lparr>gpr := g\<rparr>) = Some h2 \<and>
    (\<forall>i. 1 \<le> i \<longrightarrow> i < 32 \<longrightarrow> gpr h2 i = gpr h i) \<and> pc h2 = pc h \<and> mode h2 = SupervisorMode \<and>
    hmem h2 = m' \<and> csr_satp h2 = csr_satp h \<and> (bit (csr_sstatus h2) 1 \<longleftrightarrow> bit (csr_sstatus h) 1) \<and>
    csr_sip h2 = csr_sip h \<and> csr_sie h2 = csr_sie h"
proof -
  define b f where "b = gpr h 2 - 256" and "f = (gpr h)(2 := b)"
  let ?h = "set_hmem m' (kernel_pushed cause h)\<lparr>gpr := g\<rparr>"
  have kp: "kernel_pushed cause h = (take_trap cause 0 h)\<lparr>kern := (kern h)\<lparr>phys_mem := pushed b f [1..<32] (hmem h)\<rparr>, gpr := f\<rparr>"
    by (simp add: kernel_pushed_def b_def f_def Let_def del: upt_rec_numeral)
  have b: "unat b + 256 \<le> 2 ^ 64" and bg: "b + 256 = gpr h 2"
    using ms by (simp_all add: b_def maps_stack_def)
  have st: "maps_stack (csr_satp ?h) b (hmem ?h)" "gpr ?h 2 = b" "mode ?h = SupervisorMode" "bit (csr_sstatus ?h) 8"
    using ms g(1) mode kernel_trap_status(1)
    by (simp_all add: set_hmem_def kp take_trap_def b_def del: upt_rec_numeral)
  have sl: "load_usize (hmem ?h) (b + of_nat i * 8) = f i" if "1 \<le> i" "i < 32" for i
    using pushed_back [OF b _ that, of m' f "hmem h"] m'
    by (simp add: b_def [symmetric] kp set_hmem_def del: upt_rec_numeral)
  have f: "f 2 = b" "f 4 = gpr ?h 4" using g(2) by (simp_all add: f_def)
  have "exec kernelvec_restore ?h =
    Some (?h\<lparr>gpr := (\<lambda>i. if 1 \<le> i \<and> i < 32 then (f(2 := b + 256)) i else gpr ?h i), pc := csr_sepc ?h,
      csr_sstatus := sret_status (csr_sstatus ?h)\<rparr>)"
    by (rule kernelvec_restore_spec [OF st sl f])
  then show ?thesis
    using mode kernel_trap_status(2) bg
    by (simp add: set_hmem_def kp take_trap_def f_def del: upt_rec_numeral)
qed

lemma gpr_kernel_pushed: "gpr (kernel_pushed cause h) = (gpr h)(2 := gpr h 2 - 256)"
  by (simp add: kernel_pushed_def Let_def)

text \<open>
  C8. An interrupt in the kernel is transparent: a software or external interrupt that arrives in
  supervisor mode enters \<^verbatim>\<open>__kernelvec\<close>, which pushes the registers below the stack pointer and
  reaches \<open>kerneltrap\<close>, which returns; whatever the compiled \<open>kerneltrap\<close> does to the other
  registers, as long as it keeps \<open>sp\<close>, \<open>tp\<close> and the pushed words, the handler resumes the
  interrupted code in supervisor mode at its program counter with all of \<open>x1\<close> to \<open>x31\<close> and the
  interrupt enable as they were.
\<close>

theorem kernel_trap_transparent:
  assumes "riscv_ok R" and "cause = 2 ^ 63 + 1 \<or> cause = 2 ^ 63 + 9" and "mode h = SupervisorMode"
    and "maps_stack (csr_satp h) (gpr h 2 - 256) (hmem h)"
  shows "\<exists>h1. exec kernelvec_save (take_trap cause 0 h) = Some h1 \<and> kerneltrap R h1 = Inr h1 \<and>
    gpr h1 2 = gpr h 2 - 256 \<and>
    (\<forall>x. \<not> in_frame (gpr h 2 - 256) x \<longrightarrow> hmem h1 x = hmem h x) \<and>
    (\<forall>g m'. g 2 = gpr h1 2 \<longrightarrow> g 4 = gpr h1 4 \<longrightarrow> maps_stack (csr_satp h) (gpr h 2 - 256) m' \<longrightarrow>
       (\<forall>x. in_frame (gpr h 2 - 256) x \<longrightarrow> m' x = hmem h1 x) \<longrightarrow>
       (\<exists>h2. exec kernelvec_restore (set_hmem m' h1\<lparr>gpr := g\<rparr>) = Some h2 \<and>
          (\<forall>i. 1 \<le> i \<longrightarrow> i < 32 \<longrightarrow> gpr h2 i = gpr h i) \<and> pc h2 = pc h \<and> mode h2 = SupervisorMode \<and>
          hmem h2 = m' \<and> csr_satp h2 = csr_satp h \<and> (bit (csr_sstatus h2) 1 \<longleftrightarrow> bit (csr_sstatus h) 1) \<and>
          csr_sip h2 = csr_sip h \<and> csr_sie h2 = csr_sie h))"
  using kernel_trap_enter [OF assms] kernel_trap_leave [OF assms(3), of _ _ cause]
  by (intro exI [of _ "kernel_pushed cause h"]) (simp add: gpr_kernel_pushed)

theorem kernel_trap_transparent_witness:
  "\<exists>(h :: (usize \<Rightarrow> arc option option) machine) h1 h2. mode h = SupervisorMode \<and>
     exec kernelvec_save (take_trap (2 ^ 63 + 1) 0 h) = Some h1 \<and> kerneltrap plain_riscv h1 = Inr h1 \<and>
     exec kernelvec_restore h1 = Some h2 \<and> pc h2 = pc h \<and> gpr h2 1 = gpr h 1"
proof -
  obtain s :: kstate and kspace and p :: usize where st: "maps_stack (addr_space_make_satp kspace) (p + 0xF00) (phys_mem s)"
    using sample_stack by blast
  let ?h = "(idle_machine s kspace)\<lparr>gpr := (\<lambda>_. 0)(2 := p + 0x1000)\<rparr>"
  have h: "mode ?h = SupervisorMode" and ms: "maps_stack (csr_satp ?h) (gpr ?h 2 - 256) (hmem ?h)"
    using st by (simp_all add: idle_machine_def add.commute)
  obtain h1 where h1: "exec kernelvec_save (take_trap (2 ^ 63 + 1) 0 ?h) = Some h1" "kerneltrap plain_riscv h1 = Inr h1"
    "\<forall>x. \<not> in_frame (gpr ?h 2 - 256) x \<longrightarrow> hmem h1 x = hmem ?h x"
    and lv: "\<And>g m'. g 2 = gpr h1 2 \<Longrightarrow> g 4 = gpr h1 4 \<Longrightarrow> maps_stack (csr_satp ?h) (gpr ?h 2 - 256) m' \<Longrightarrow>
       \<forall>x. in_frame (gpr ?h 2 - 256) x \<longrightarrow> m' x = hmem h1 x \<Longrightarrow>
       \<exists>h2. exec kernelvec_restore (set_hmem m' h1\<lparr>gpr := g\<rparr>) = Some h2 \<and>
          (\<forall>i. 1 \<le> i \<longrightarrow> i < 32 \<longrightarrow> gpr h2 i = gpr ?h i) \<and> pc h2 = pc ?h"
    using kernel_trap_transparent [OF plain_riscv_ok _ h ms, of "2 ^ 63 + 1"] by blast
  have "maps_stack (csr_satp ?h) (gpr ?h 2 - 256) (hmem h1)"
    using ms h1(3) unfolding maps_stack_def by metis
  from lv [OF refl refl this] have "\<exists>h2. exec kernelvec_restore h1 = Some h2 \<and> pc h2 = pc ?h \<and> gpr h2 1 = gpr ?h 1"
    by (auto simp: set_hmem_def)
  with h h1(1,2) show ?thesis by blast
qed

text \<open>
  A software interrupt that is pending and enabled is taken before the next instruction.  One round is
  the trap, the call of \<open>kerneltrap\<close>, compiled to any code that keeps \<open>sp\<close>, \<open>tp\<close>, the
  pushed words and the mapping of the stack, and the return.
\<close>

definition soft_pending :: "'a hart_scheme \<Rightarrow> bool" where
  "soft_pending h \<longleftrightarrow> bit (csr_sip h) 1 \<and> bit (csr_sie h) 1 \<and> bit (csr_sstatus h) 1"

inductive soft_round :: "riscv_ops \<Rightarrow> 'a hart_scheme \<Rightarrow> 'a hart_scheme \<Rightarrow> bool" for R where
  "\<lbrakk>soft_pending h; exec kernelvec_save (take_trap (2 ^ 63 + 1) 0 h) = Some h1; kerneltrap R h1 = Inr h2;
    g 2 = gpr h2 2; g 4 = gpr h2 4; maps_stack (csr_satp h2) (gpr h2 2) m';
    \<forall>x. in_frame (gpr h2 2) x \<longrightarrow> m' x = hmem h2 x;
    exec kernelvec_restore (set_hmem m' h2\<lparr>gpr := g\<rparr>) = Some h3\<rbrakk>
   \<Longrightarrow> soft_round R h h3"

definition soft_stuck :: "usize \<Rightarrow> (nat \<Rightarrow> usize) \<Rightarrow> 'a hart_scheme \<Rightarrow> bool" where
  "soft_stuck a g h \<longleftrightarrow> soft_pending h \<and> mode h = SupervisorMode \<and> pc h = a \<and>
     (\<forall>i. 1 \<le> i \<longrightarrow> i < 32 \<longrightarrow> gpr h i = g i) \<and> maps_stack (csr_satp h) (gpr h 2 - 256) (hmem h)"

lemma soft_round_stuck:
  assumes R: "riscv_ok R" and st: "soft_stuck a g h" and "soft_round R h h3"
  shows "soft_stuck a g h3"
  using assms(3)
proof cases
  case (1 h1 h2 g' m')
  have h: "mode h = SupervisorMode" "maps_stack (csr_satp h) (gpr h 2 - 256) (hmem h)"
    using st unfolding soft_stuck_def by blast+
  note e = kernel_trap_enter(1,2) [OF R _ h, of "2 ^ 63 + 1"]
  have h2: "h2 = kernel_pushed (2 ^ 63 + 1) h"
    using 1(2,3) e by simp
  have "csr_satp h2 = csr_satp h" by (simp add: h2 kernel_pushed_def Let_def take_trap_def)
  then have "g' 2 = gpr h 2 - 256" "g' 4 = gpr h 4" "maps_stack (csr_satp h) (gpr h 2 - 256) m'"
    "\<forall>x. in_frame (gpr h 2 - 256) x \<longrightarrow> m' x = hmem (kernel_pushed (2 ^ 63 + 1) h) x"
    using 1(4-7) by (simp_all add: h2 gpr_kernel_pushed)
  from kernel_trap_leave [OF h(1) this] 1(8) have
    "(\<forall>i. 1 \<le> i \<longrightarrow> i < 32 \<longrightarrow> gpr h3 i = gpr h i) \<and> pc h3 = pc h \<and> mode h3 = SupervisorMode \<and>
      hmem h3 = m' \<and> csr_satp h3 = csr_satp h \<and> (bit (csr_sstatus h3) 1 \<longleftrightarrow> bit (csr_sstatus h) 1) \<and>
      csr_sip h3 = csr_sip h \<and> csr_sie h3 = csr_sie h"
    by (simp add: h2)
  with st \<open>maps_stack (csr_satp h) (gpr h 2 - 256) m'\<close> show ?thesis
    by (simp add: soft_stuck_def soft_pending_def)
qed

text \<open>
  C33. A timer tick in the kernel stops it: \<open>kerneltrap\<close> never clears the pending bit of the software
  interrupt that \<^verbatim>\<open>__timervec\<close> raises, so the interrupt is taken again as soon as the handler has
  returned.  From a state of the kernel with the interrupt pending and enabled, a round of the
  handler is always possible, and after any number of rounds the program counter and the registers
  are the same and the interrupt is still pending: the interrupted code never advances.
\<close>

theorem soft_interrupt_repeats:
  assumes "riscv_ok R" and "soft_pending h" and "mode h = SupervisorMode"
    and "maps_stack (csr_satp h) (gpr h 2 - 256) (hmem h)" and "(soft_round R)\<^sup>*\<^sup>* h h'"
  shows "pc h' = pc h \<and> (\<forall>i. 1 \<le> i \<longrightarrow> i < 32 \<longrightarrow> gpr h' i = gpr h i) \<and> soft_pending h' \<and> (\<exists>h''. soft_round R h' h'')"
proof -
  have "soft_stuck (pc h) (gpr h) h" using assms(2-4) by (simp add: soft_stuck_def)
  with assms(5) have st: "soft_stuck (pc h) (gpr h) h'"
    by (induction rule: rtranclp_induct) (use soft_round_stuck [OF assms(1)] in blast)+
  then have h': "mode h' = SupervisorMode" "maps_stack (csr_satp h') (gpr h' 2 - 256) (hmem h')" "soft_pending h'"
    unfolding soft_stuck_def by blast+
  let ?h1 = "kernel_pushed (2 ^ 63 + 1) h'"
  note e = kernel_trap_enter [OF assms(1) _ h'(1,2), of "2 ^ 63 + 1"]
  have ms: "maps_stack (csr_satp h') (gpr h' 2 - 256) (hmem ?h1)"
    using h'(2) e(3) unfolding maps_stack_def by (metis (no_types, lifting))
  have c: "csr_satp ?h1 = csr_satp h'" by (simp add: kernel_pushed_def Let_def take_trap_def)
  obtain h3 where "exec kernelvec_restore (set_hmem (hmem ?h1) ?h1\<lparr>gpr := gpr ?h1\<rparr>) = Some h3"
    using kernel_trap_leave [OF h'(1) _ _ ms, of "gpr ?h1" "2 ^ 63 + 1"] by (auto simp: gpr_kernel_pushed)
  then have "soft_round R h' h3"
    using soft_round.intros [OF h'(3) e(1,2), of "gpr ?h1" "hmem ?h1" h3] ms c by (simp add: gpr_kernel_pushed)
  with st show ?thesis by (auto simp: soft_stuck_def)
qed

theorem soft_interrupt_repeats_witness:
  "\<exists>h h' :: (usize \<Rightarrow> arc option option) machine. soft_pending h \<and> soft_round plain_riscv h h' \<and>
     (\<exists>h''. soft_round plain_riscv h' h'') \<and> pc h' = pc h"
proof -
  obtain s :: kstate and kspace and p :: usize where st: "maps_stack (addr_space_make_satp kspace) (p + 0xF00) (phys_mem s)"
    using sample_stack by blast
  let ?h = "(idle_machine s kspace)\<lparr>gpr := (\<lambda>_. 0)(2 := p + 0x1000), csr_sip := 2, csr_sie := 2, csr_sstatus := 2\<rparr>"
  have h: "soft_pending ?h" "mode ?h = SupervisorMode" "maps_stack (csr_satp ?h) (gpr ?h 2 - 256) (hmem ?h)"
    using st by (simp_all add: idle_machine_def soft_pending_def add.commute)
  obtain h' where h': "soft_round plain_riscv ?h h'"
    using soft_interrupt_repeats [OF plain_riscv_ok h] by blast
  then have "(soft_round plain_riscv)\<^sup>*\<^sup>* ?h h'" by blast
  from soft_interrupt_repeats [OF plain_riscv_ok h this] h(1) h' show ?thesis by blast
qed

section \<open>Timer ticks\<close>

text \<open>The timer of hart \<open>i\<close> as \<open>timer_init\<close> leaves it.\<close>

definition timer_set :: "code_symbols \<Rightarrow> usize \<Rightarrow> 'a hart_scheme \<Rightarrow> bool" where
  "timer_set C i h \<longleftrightarrow> unat i < 8 \<and> csr_mtvec h = sym_timervec C \<and>
     csr_mscratch h = sym_timer_scratches C + 48 * i \<and>
     mtimecmp_addr (scratch_at (hmem h) (csr_mscratch h)) = CLINT_MTIMECMP_BASE + 8 * i \<and>
     interval (scratch_at (hmem h) (csr_mscratch h)) = SCHEDULER_INTERVAL"

lemma timer_setD:
  assumes "linker_ok L" and "code_ok L C" and "timer_set C i h"
  shows "scratch_ok (csr_mscratch h) (load_usize (hmem h) (csr_mscratch h + 32))"
    and "load_usize (hmem h) (csr_mscratch h + 32) = CLINT_MTIMECMP_BASE + 8 * i"
    and "load_usize (hmem h) (csr_mscratch h + 40) = SCHEDULER_INTERVAL"
  using assms(3) timer_scratch_bounds [OF assms(1,2), of i] CLINT_TIMECMP_small(2) [of i]
  by (auto simp: timer_set_def scratch_at_def scratch_ok_def)

lemma tick_spec:
  assumes "linker_ok L" and "code_ok L C" and "timer_set C i h"
  shows "exec timervec (take_mtrap h) =
    Some (h\<lparr>kern := (kern h)\<lparr>phys_mem := tick_mem h\<rparr>, csr_sip := set_bit 1 (csr_sip h), csr_mepc := pc h,
      csr_mstatus := mret_status (mtrap_status (mode h) (csr_mstatus h))\<rparr>)"
proof -
  let ?h = "take_mtrap h"
  have "scratch_ok (csr_mscratch ?h) (load_usize (hmem ?h) (csr_mscratch ?h + 32))" "mode ?h = MachineMode"
    using timer_setD(1) [OF assms] by (simp_all add: take_mtrap_def)
  from timervec_spec [OF this(2,1)] show ?thesis
    by (rule trans) (rule arg_cong [where f = Some], rule hart.equality;
      simp add: take_mtrap_def mret_mode_mtrap tick_mem_def)
qed

text \<open>A tick writes below the frames of the heap.\<close>

lemma tick_mem_heap:
  assumes L: "linker_ok L" and "code_ok L C" and "timer_set C i h" and "heap_ok L (kern h)"
    and x: "page_of x \<in> kfree (kern h) \<union> kused (kern h)"
  shows "tick_mem h x = hmem h x"
proof -
  have i: "unat i < 8" and p: "csr_mscratch h = sym_timer_scratches C + 48 * i"
    using assms(3) by (simp_all add: timer_set_def)
  note b = timer_scratch_bounds [OF L assms(2) i] and t = timer_setD [OF L assms(2,3)]
  have "pno (ld_heap_start L) \<le> pno (page_of x)"
    using heap_frames_mapped(1) [OF L assms(4) x] .
  then have "unat (ld_heap_start L) div 4096 \<le> unat x div 4096"
    by (simp add: pno_def unat_page_of)
  moreover have "unat (ld_bss_end L) + 0x80000 = unat (ld_heap_start L)" "4096 dvd unat (ld_heap_start L)"
    using linker_stack(1) [OF L] linker_pnos(11,14) [OF L] by (simp_all add: page_aligned_def)
  ultimately have "unat (ld_bss_end L) \<le> unat x" by (auto elim!: dvdE)
  then have "\<not> unat (x - csr_mscratch h) < 48" "\<not> unat (x - (CLINT_MTIMECMP_BASE + 8 * i)) < 8"
    using b CLINT_TIMECMP_small(2) [OF i] i unfolding p by (simp_all add: unat_sub_if' word_le_nat_alt)
  then show ?thesis
    using tick_mem_loads(4) [OF t(1), of x] by (simp add: t(2))
qed

lemma mstatus_roundtrip: "bit (mret_status (mtrap_status p x)) 3 \<longleftrightarrow> bit x 3"
  by (cases p) (simp_all add: mret_status_def mtrap_status_def Let_def bit_unset_bit_iff bit_set_bit_iff)

text \<open>
  C9. The timer of a hart: \<open>timer_init\<close> returns on harts 0 to 7, unless the clock is about to
  overflow, and sets the first tick one interval ahead.  From then on every tick, in whatever
  mode it arrives, runs \<^verbatim>\<open>__timervec\<close> and comes back to the same program counter, mode, registers
  and interrupt enable, with the next tick set one interval later, the supervisor software interrupt
  pending, the other pending bits unchanged, and the timer ready for the next tick; it writes to the hart's scratch area and its compare
  register only.
\<close>

theorem timer_periodic:
  fixes h0 :: "'a hart_scheme"
  assumes "riscv_ok R" and "linker_ok L" and "code_ok L C" and "unat (hart_id h0) < 8"
    and "unat (load_usize (hmem h0) CLINT_MTIME_BASE) + 1000000 < 2 ^ 64"
  shows "(\<exists>h1. timer_init R C h0 = Inr h1 \<and> timer_set C (hart_id h0) h1 \<and> bit (csr_mstatus h1) 3 \<and> bit (csr_mie h1) 7 \<and>
      load_usize (hmem h1) (CLINT_MTIMECMP_BASE + 8 * hart_id h0) =
        load_usize (hmem h0) CLINT_MTIME_BASE + SCHEDULER_INTERVAL) \<and>
    (\<forall>i h. timer_set C i (h :: 'a hart_scheme) \<longrightarrow> (\<exists>h2. exec timervec (take_mtrap h) = Some h2 \<and> pc h2 = pc h \<and>
      mode h2 = mode h \<and> gpr h2 = gpr h \<and> (bit (csr_mstatus h2) 3 \<longleftrightarrow> bit (csr_mstatus h) 3) \<and>
      csr_sip h2 = set_bit 1 (csr_sip h) \<and> timer_set C i h2 \<and>
      load_usize (hmem h2) (CLINT_MTIMECMP_BASE + 8 * i) =
        load_usize (hmem h) (CLINT_MTIMECMP_BASE + 8 * i) + SCHEDULER_INTERVAL \<and>
      (\<forall>x. \<not> unat (x - csr_mscratch h) < 48 \<longrightarrow> \<not> unat (x - (CLINT_MTIMECMP_BASE + 8 * i)) < 8 \<longrightarrow> hmem h2 x = hmem h x)))"
proof (intro conjI allI impI)
  show "\<exists>h1. timer_init R C h0 = Inr h1 \<and> timer_set C (hart_id h0) h1 \<and> bit (csr_mstatus h1) 3 \<and> bit (csr_mie h1) 7 \<and>
      load_usize (hmem h1) (CLINT_MTIMECMP_BASE + 8 * hart_id h0) =
        load_usize (hmem h0) CLINT_MTIME_BASE + SCHEDULER_INTERVAL"
    using timer_init_spec [OF assms] assms(4)
    by (auto simp: timer_set_def scratch_at_def bit_set_bit_iff)
  fix i and h :: "'a hart_scheme" assume ts: "timer_set C i h"
  note t = timer_setD [OF assms(2,3) ts] and l = tick_mem_loads [OF timer_setD(1) [OF assms(2,3) ts]]
  show "\<exists>h2. exec timervec (take_mtrap h) = Some h2 \<and> pc h2 = pc h \<and> mode h2 = mode h \<and> gpr h2 = gpr h \<and>
      (bit (csr_mstatus h2) 3 \<longleftrightarrow> bit (csr_mstatus h) 3) \<and> csr_sip h2 = set_bit 1 (csr_sip h) \<and> timer_set C i h2 \<and>
      load_usize (hmem h2) (CLINT_MTIMECMP_BASE + 8 * i) =
        load_usize (hmem h) (CLINT_MTIMECMP_BASE + 8 * i) + SCHEDULER_INTERVAL \<and>
      (\<forall>x. \<not> unat (x - csr_mscratch h) < 48 \<longrightarrow> \<not> unat (x - (CLINT_MTIMECMP_BASE + 8 * i)) < 8 \<longrightarrow> hmem h2 x = hmem h x)"
    unfolding tick_spec [OF assms(2,3) ts]
    using ts l t mstatus_roundtrip [of "mode h" "csr_mstatus h"] by (simp add: timer_set_def scratch_at_def)
qed

theorem timer_periodic_witness:
  "\<exists>h0 h1 h2 :: (usize \<Rightarrow> arc option option) machine. timer_init plain_riscv sample_code h0 = Inr h1 \<and>
     exec timervec (take_mtrap h1) = Some h2 \<and> csr_sip h2 = set_bit 1 (csr_sip h1)"
proof -
  obtain kspace s where "space_ok sample_linker kspace s" using sample_boot by blast
  let ?h = "idle_machine heap_state kspace"
  have "load_usize (hmem ?h) CLINT_MTIME_BASE = 0"
    by (rule load_usize_zero) (simp add: heap_state_def idle_machine_def)
  then have "unat (hart_id ?h) < 8" "unat (load_usize (hmem ?h) CLINT_MTIME_BASE) + 1000000 < 2 ^ 64"
    by (simp_all add: idle_machine_def hart_id_def reg_def)
  from timer_periodic [OF plain_riscv_ok sample_linker_ok sample_code_ok this] show ?thesis by blast
qed

text \<open>
  C34. A timer tick ends the system while a process runs: the tick comes back to the process with a
  software interrupt pending; that interrupt traps into \<^verbatim>\<open>__uservec\<close>, which saves the process and
  reaches \<open>usertrap\<close>, and \<open>usertrap\<close> panics.
\<close>

theorem timer_tick_in_user_panics:
  assumes "riscv_ok R" and "linker_ok L" and "code_ok L C" and "running L h a tf space kspace"
    and "user_mode L h tf space kspace" and "heap_ok L (kern h)" and "tf \<in> kused (kern h)" and "timer_set C i h"
  shows "\<exists>h1 h2. exec timervec (take_mtrap h) = Some h1 \<and> mode h1 = UserMode \<and> pc h1 = pc h \<and> gpr h1 = gpr h \<and>
    bit (csr_sip h1) 1 \<and>
    exec_tramp (ld_trampoline_start L) uservec (take_trap (2 ^ 63 + 1) 0 h1) = Some h2 \<and>
    pc h2 = trap_handler (context_at (hmem h) tf) \<and>
    usertrap R B L C Q h2 = Inl (ExplicitPanic ''explicit panic'')"
proof -
  let ?h1 = "h\<lparr>kern := (kern h)\<lparr>phys_mem := tick_mem h\<rparr>, csr_sip := set_bit 1 (csr_sip h), csr_mepc := pc h,
    csr_mstatus := mret_status (mtrap_status (mode h) (csr_mstatus h))\<rparr>"
  note r = assms(4) and u = assms(5) and fr = tick_mem_heap [OF assms(2,3,8,6)]
  have r1: "running L ?h1 a tf space kspace"
    by (rule running_frame [OF r, of _ "tick_mem h"])
       (use pt_invD(4) [OF runningD(10) [OF r]] pt_invD(4) [OF runningD(11) [OF r]] in \<open>auto simp: reg_def intro!: fr\<close>)
  have c: "context_at (tick_mem h) tf = context_at (hmem h) tf"
    using assms(7) by (intro context_at_page [OF runningD(6) [OF r]] fr) simp
  have u1: "user_mode L ?h1 tf space kspace" using u c by (simp add: user_mode_def)
  let ?h2 = "\<lambda>m'. (take_trap (2 ^ 63 + 1) 0 ?h1)\<lparr>kern := (kern ?h1)\<lparr>phys_mem := m'\<rparr>, csr_satp := addr_space_make_satp kspace,
        gpr := (gpr h)(31 := TRAPFRAME_BASE_USER_VA, 5 := addr_space_make_satp kspace,
          2 := kernel_sp (context_at (hmem ?h1) tf), 6 := trap_handler (context_at (hmem ?h1) tf)),
        pc := trap_handler (context_at (hmem ?h1) tf)\<rparr>"
  obtain m' where e: "exec_tramp (ld_trampoline_start L) uservec (take_trap (2 ^ 63 + 1) 0 ?h1) = Some (?h2 m')"
    using enter_kernel [OF r1 u1, of "take_trap (2 ^ 63 + 1) 0 ?h1" "2 ^ 63 + 1" 0 "gpr h"] by auto
  have "usertrap R B L C Q (?h2 m') = Inl (ExplicitPanic ''explicit panic'')"
    using riscv_okD(11) [OF assms(1)] by (simp add: usertrap_def intr_off_def Let_def take_trap_def)
  then show ?thesis
    using tick_spec [OF assms(2,3,8)] e u c
    by (rule_tac exI [of _ ?h1], rule_tac exI [of _ "?h2 m'"]) (simp add: user_mode_def take_trap_def bit_set_bit_iff)
qed

theorem timer_tick_in_user_panics_witness:
  "\<exists>h h1 h2 :: (usize \<Rightarrow> arc option option) machine. mode h = UserMode \<and>
     exec timervec (take_mtrap h) = Some h1 \<and>
     exec_tramp (ld_trampoline_start sample_linker) uservec (take_trap (2 ^ 63 + 1) 0 h1) = Some h2 \<and>
     usertrap plain_riscv plain_bitflags sample_linker sample_code plain_syscalls h2 =
       Inl (ExplicitPanic ''explicit panic'')"
proof -
  obtain h :: "(usize \<Rightarrow> arc option option) machine" and tf space kspace where
    h: "running sample_linker h 0 tf space kspace" "user_mode sample_linker h tf space kspace"
    "heap_ok sample_linker (kern h)" "tf \<in> kused (kern h)"
    using sample_user by blast
  let ?p = "sym_timer_scratches sample_code"
  let ?m = "store_usize (store_usize (hmem h) (?p + 32) CLINT_MTIMECMP_BASE) (?p + 40) SCHEDULER_INTERVAL"
  let ?h = "h\<lparr>kern := (kern h)\<lparr>phys_mem := ?m\<rparr>, csr_mscratch := ?p, csr_mtvec := sym_timervec sample_code\<rparr>"
  have "words_apart (?p + 40) (?p + 32)"
    by (rule words_apartI) (simp_all add: sample_code_def sample_linker_def)
  then have ts: "timer_set sample_code 0 ?h"
    by (simp add: timer_set_def scratch_at_def load_store_apart)
  have fr: "?m x = hmem h x" if "page_of x \<in> kfree (kern h) \<union> kused (kern h)" for x
  proof -
    have "pno (ld_heap_start sample_linker) \<le> pno (page_of x)"
      using heap_frames_mapped(1) [OF sample_linker_ok h(3) that] .
    then have "0x80187000 \<le> unat x"
      by (simp add: pno_def unat_page_of sample_linker_def)
    then show ?thesis
      by (auto simp: store_usize_def sample_code_def sample_linker_def unat_sub_if' word_le_nat_alt)
  qed
  have r: "running sample_linker ?h 0 tf space kspace"
    by (rule running_frame [OF h(1), of _ ?m])
       (use pt_invD(4) [OF runningD(10) [OF h(1)]] pt_invD(4) [OF runningD(11) [OF h(1)]] in \<open>auto simp: reg_def intro!: fr\<close>)
  have "context_at ?m tf = context_at (hmem h) tf"
    using h(4) by (intro context_at_page [OF runningD(6) [OF h(1)]] fr) simp
  then have u: "user_mode sample_linker ?h tf space kspace" using h(2) by (simp add: user_mode_def)
  have "heap_ok sample_linker (kern ?h)" "tf \<in> kused (kern ?h)"
    using h(3,4) by (simp_all add: heap_ok_def kstate_wf_def)
  from timer_tick_in_user_panics [OF plain_riscv_ok sample_linker_ok sample_code_ok r u this ts] u
  show ?thesis unfolding user_mode_def by blast
qed

end
