(* ===== verification/Start_Theorems.thy ===== *)
theory Start_Theorems
  imports Start Interrupt_Theorems
begin

text \<open>
  The boot as a whole: hart 0 gets from the first instruction of \<^verbatim>\<open>boot.S\<close> to the first instruction of the
  first process; what becomes of the other harts.
\<close>

section \<open>To user mode\<close>

lemma boot_keeps_mtime:
  assumes L: "linker_ok L" and "\<forall>x. m' x = (if ld_bss_start L \<le> x \<and> x < ld_bss_end L then 0 else m x)"
  shows "load_usize m' CLINT_MTIME_BASE = load_usize m CLINT_MTIME_BASE"
proof -
  have "0x80000 \<le> pno (ld_bss_start L)" using linker_pnos [OF L] by simp
  then have b: "0x80000000 \<le> unat (ld_bss_start L)" by (simp add: pno_def)
  have "\<not> ld_bss_start L \<le> CLINT_MTIME_BASE + i" if "i \<le> 7" for i
    using that b by (auto simp: word_le_nat_alt CLINT_MTIME_BASE_def CLINT_BASE_def unat_word_ariths(1))
  from this [of 0] this [of 1] this [of 2] this [of 3] this [of 4] this [of 5] this [of 6] this [of 7]
  show ?thesis using assms(2) by (simp add: load_usize_def)
qed

text \<open>The first process fetches its own program.\<close>

lemma fetch_text:
  assumes inv: "pt_inv (kern h) (page_table space)" "\<forall>n \<in> set (node_addrs (page_table space)). n < 2 ^ 56"
    and satp: "csr_satp h = addr_space_make_satp space" and mode: "mode h = UserMode"
    and km: "kmap (kern h) (page_table space) = init_map L len stk tx tf" and tx: "page_aligned tx" "tx < 2 ^ 56"
    and k: "k < 4096"
  shows "xlate h Fetch (TEXT_BASE_USER_VA + of_nat k) = Some (tx + of_nat k)"
proof -
  let ?va = "TEXT_BASE_USER_VA + of_nat k"
  have u: "unat ?va = 0x10000 + k"
    using k by (simp add: TEXT_BASE_USER_VA_def unat_word_ariths(1) unat_of_nat_small)
  have "vpn ?va = 16" unfolding vpn_def u using k by simp
  then have e: "kmap (kern h) (page_table space) ?va = Some (entry_for tx 27)"
    by (simp add: km init_map_def tramp_pno_def trap_pno_def)
  have "?va < 2 ^ 38" using u k by (simp add: word_less_nat_alt)
  from hw_translate_entry [OF inv this _ e tx(2), of UserMode Fetch]
  have "xlate h Fetch ?va = Some (page_of tx OR (?va AND mask 12))"
    by (simp add: satp mode addr_space_make_satp_def hw_permits_def mask_eq_exp_minus_1 bit_numeral_rec)
  moreover have "page_aligned TEXT_BASE_USER_VA" by (simp add: TEXT_BASE_USER_VA_def page_aligned_def)
  ultimately show ?thesis
    using page_join [OF tx(1) _ k] tx(1) by (simp add: page_aligned_page_of)
qed

lemma first_run_resumes:
  assumes f: "first_run L C init_text h space" and m: "mode h = SupervisorMode" "\<not> bit (csr_sstatus h) 8"
    and g: "g 10 = addr_space_make_satp space"
  shows "\<exists>h'. exec_tramp (ld_trampoline_start L) userret (h\<lparr>gpr := g, pc := addr\<rparr>) = Some h' \<and> mode h' = UserMode \<and>
    pc h' = TEXT_BASE_USER_VA \<and> reg h' 2 = 0 \<and> csr_stvec h' = TRAMPOLINE_BASE_VA \<and>
    (\<forall>k < 4096. k < length init_text \<longrightarrow>
       (\<exists>pa. xlate h' Fetch (pc h' + of_nat k) = Some pa \<and> hmem h' pa = init_text ! k))"
proof -
  from f obtain tf tx stk sk kspace where r: "running L h 0 tf space kspace" "csr_satp h = addr_space_make_satp kspace"
    "csr_sscratch h = TRAPFRAME_BASE_USER_VA" "csr_stvec h = TRAMPOLINE_BASE_VA"
    "context_at (hmem h) tf = set_tp (first_context C (addr_space_make_satp kspace) (sk + 0x1000)) 0"
    "kmap (kern h) (page_table space) = init_map L (length init_text) stk tx tf" "user_frame (kern h) tf space kspace tx"
    "\<forall>k < 4096. hmem h (tx + of_nat k) = (if k < length init_text then init_text ! k else 0)"
    unfolding first_run_def by (elim exE conjE) (rule that; assumption)
  let ?c = "context_at (hmem h) tf"
  let ?h' = "h\<lparr>csr_satp := addr_space_make_satp space, gpr := restored ?c g, pc := context_sepc ?c, mode := UserMode,
      csr_sepc := context_sepc ?c, csr_sstatus := sret_status (csr_sstatus h)\<rparr>"
  have c: "context_sepc ?c = TEXT_BASE_USER_VA" "user_regs ?c ! 2 = 0"
    using r(5) by (simp_all add: set_tp_def first_context_def TP_def)
  have "exec_tramp (ld_trampoline_start L) userret (h\<lparr>gpr := g, pc := addr\<rparr>) = Some ?h'"
    by (rule resume_user [where h = h and g = g, OF r(1,2) m(1) r(3) m(2) g])
  moreover have "xlate ?h' Fetch (TEXT_BASE_USER_VA + of_nat k) = Some (tx + of_nat k)" if "k < 4096" for k
    by (rule fetch_text [where h = ?h' and space = space and len = "length init_text" and stk = stk and tf = tf])
       (use runningD(10,12) [OF r(1)] r(6,7) that in \<open>simp_all add: user_frame_def\<close>)
  ultimately show ?thesis
    using c r(4,8) by (intro exI [of _ ?h']) (simp add: reg_def restored_def)
qed

text \<open>
  C1. The kernel boots unless an interrupt gets in its way: from reset, with a loader that put the kernel where the
  linker script says, at least 159 pages of heap and a 16550 on the serial line, hart 0 runs \<^verbatim>\<open>_start\<close> and
  \<open>kstart\<close> to their end and enters \<open>kmain\<close> in supervisor mode with interrupts off.  If no interrupt has arrived when
  \<open>kmain\<close> enables them in line 103, and none arrives from there to \<^verbatim>\<open>sret\<close>, \<open>kmain\<close> does not panic or hang, and the
  \<^verbatim>\<open>__userret\<close> it jumps to enters user mode at \<open>TEXT_BASE_USER_VA\<close>, where the hart fetches the bytes of the first page of the
  first program; the other harts are then allowed to start, and the first process has no stack: its \<open>sp\<close>
  is 0.  If the timer, which \<open>kstart\<close> has armed, has ticked by line 103, and no device interrupts, \<open>kmain\<close> hangs there.
\<close>

theorem boot_reaches_user:
  fixes h :: "'m machine"
  assumes "hash_map_ok H" and "bitflags_ok B" and "linker_ok L" and "satp_set_ok S" and "riscv_ok R"
    and "code_ok L C" and "heap_stats_ok st" and "uart_ok D UART_BASE_ADDR view" and "plic_apart D view"
    and "length init_text < 2 ^ 30" and "159 \<le> heap_pages L" and "reset_machine H h" and "csr_mhartid h = 0"
  shows "\<exists>h0 h1. boot_start L h = Some h0 \<and> kstart R C h0 = Inr h1 \<and>
    pc h1 = sym_kmain C \<and> mode h1 = SupervisorMode \<and> \<not> bit (csr_sstatus h1) 1 \<and>
    (\<exists>addr satp h2 d2. kmain H B L S R C D 0x1000 init_text st 0 h1 d = Some (Inr (((addr, satp), h2), d2)) \<and> HART0_STARTED h2 \<and>
      (\<forall>g. g 10 = satp \<longrightarrow> (\<exists>h3. exec_tramp (ld_trampoline_start L) userret (h2\<lparr>gpr := g, pc := addr\<rparr>) = Some h3 \<and>
         mode h3 = UserMode \<and> pc h3 = TEXT_BASE_USER_VA \<and> reg h3 2 = 0 \<and>
         (\<forall>k < 4096. k < length init_text \<longrightarrow>
            (\<exists>pa. xlate h3 Fetch (pc h3 + of_nat k) = Some pa \<and> hmem h3 pa = init_text ! k))))) \<and>
    (\<forall>pend. bit pend 1 \<and> \<not> bit pend 9 \<longrightarrow> kmain H B L S R C D 0x1000 init_text st pend h1 d = None)"
proof -
  note r = assms(12)[unfolded reset_machine_def]
  obtain m0 where b: "boot_start L h = Some (h\<lparr>kern := (kern h)\<lparr>phys_mem := m0\<rparr>,
      gpr := (gpr h)(10 := 0x10000 * (csr_mhartid h + 1), 11 := csr_mhartid h + 1,
        2 := ld_kernel_stack_start L + 0x10000 * (csr_mhartid h + 1))\<rparr>)"
    "\<forall>x. m0 x = (if ld_bss_start L \<le> x \<and> x < ld_bss_end L then 0 else hmem h x)"
    using boot_start_spec [OF assms(3)] by blast
  define h0 where "h0 = h\<lparr>kern := (kern h)\<lparr>phys_mem := m0\<rparr>,
      gpr := (gpr h)(10 := 0x10000 * (csr_mhartid h + 1), 11 := csr_mhartid h + 1,
        2 := ld_kernel_stack_start L + 0x10000 * (csr_mhartid h + 1))\<rparr>"
  have t: "unat (csr_mhartid h0) < 8" "unat (load_usize (hmem h0) CLINT_MTIME_BASE) + 1000000 < 2 ^ 64"
    using r assms(13) boot_keeps_mtime [OF assms(3) b(2)] by (simp_all add: h0_def)
  from kstart_spec [OF assms(5,3,6) t] obtain h1 where
    k: "kstart R C h0 = Inr h1" "pc h1 = sym_kmain C" "mode h1 = SupervisorMode" "hart_id h1 = 0"
      "KERNEL_ADDRESS_SPACE h1 = None" "PROCESS_MANAGER h1 = process_manager_new H" "CPUS h1 = CPUS_init" "pcbs h1 = []"
      "csr_sip h1 = 0" "bit (csr_sie h1) 1" "\<not> bit (csr_sstatus h1) 1"
    using r assms(13) by (auto simp: h0_def hart_id_def reg_def SIE_SSIE_def bit_simps)
  from kmain_hart0 [OF assms(1-11) k(4-10) k(3), of d] obtain h2 d2 space where
    m: "kmain H B L S R C D 0x1000 init_text st 0 h1 d =
      Some (Inr (((TRAMPOLINE_BASE_VA + (sym_userret C - sym_uservec C), addr_space_make_satp space), h2), d2))"
    "first_run L C init_text h2 space" "mode h2 = SupervisorMode" "csr_sstatus h2 = ret_status (csr_sstatus h1)"
    and tk: "\<forall>pend. ticked pend \<longrightarrow> kmain H B L S R C D 0x1000 init_text st pend h1 d = None"
    by blast
  have "HART0_STARTED h2" using m(2) by (auto simp: first_run_def)
  moreover have "mode h2 = SupervisorMode" "\<not> bit (csr_sstatus h2) 8"
    using m(3,4) ret_status_bits(1) by simp_all
  note first_run_resumes [OF m(2) this]
  ultimately show ?thesis
    using b(1) k(1-3,11) m(1) tk unfolding h0_def [symmetric] ticked_def by blast
qed

lemma sample_reset:
  "\<exists>h :: (usize \<Rightarrow> arc option option) machine. reset_machine map_ops h \<and> csr_mhartid h = 0"
proof -
  obtain kspace s where "space_ok sample_linker kspace s" using sample_boot by blast
  let ?h = "(idle_machine heap_state kspace)\<lparr>mode := MachineMode, KERNEL_ADDRESS_SPACE := None\<rparr>"
  have "load_usize (hmem ?h) CLINT_MTIME_BASE = 0"
    by (rule load_usize_zero) (simp add: heap_state_def idle_machine_def)
  then have "reset_machine map_ops ?h \<and> csr_mhartid ?h = 0"
    by (simp add: reset_machine_def idle_machine_def)
  then show ?thesis by blast
qed

theorem boot_reaches_user_witness:
  "\<exists>h h0 h1 :: (usize \<Rightarrow> arc option option) machine. \<exists>addr satp h2 d2. boot_start sample_linker h = Some h0 \<and>
    kstart plain_riscv sample_code h0 = Inr h1 \<and>
    kmain map_ops plain_bitflags sample_linker sv39_encoding plain_riscv sample_code sim_uart 0x1000 [0x13, 0, 0, 0]
      \<lparr>stats_alloc_actual = 0, stats_alloc_user = 0, stats_total_bytes = KERNEL_HEAP_SIZE\<rparr> 0 h1 reset_uart =
      Some (Inr (((addr, satp), h2), d2)) \<and>
    (\<exists>h3. exec_tramp (ld_trampoline_start sample_linker) userret (h2\<lparr>gpr := (\<lambda>_. satp), pc := addr\<rparr>) = Some h3 \<and> mode h3 = UserMode) \<and>
    kmain map_ops plain_bitflags sample_linker sv39_encoding plain_riscv sample_code sim_uart 0x1000 [0x13, 0, 0, 0]
      \<lparr>stats_alloc_actual = 0, stats_alloc_user = 0, stats_total_bytes = KERNEL_HEAP_SIZE\<rparr> 2 h1 reset_uart = None"
proof -
  let ?st = "\<lparr>stats_alloc_actual = 0, stats_alloc_user = 0, stats_total_bytes = KERNEL_HEAP_SIZE\<rparr>"
  let ?kmain = "kmain map_ops plain_bitflags sample_linker sv39_encoding plain_riscv sample_code sim_uart 0x1000 [0x13, 0, 0, 0] ?st"
  obtain h :: "(usize \<Rightarrow> arc option option) machine" where h: "reset_machine map_ops h" "csr_mhartid h = 0"
    using sample_reset by blast
  have p: "heap_stats_ok ?st" "plic_apart sim_uart (\<lambda>w. w)" "length [0x13, 0, 0, 0 :: u8] < 2 ^ 30"
    "159 \<le> heap_pages sample_linker"
    by (simp_all add: heap_stats_ok_def plic_apart_def sim_uart_def sample_heap)
  from boot_reaches_user [OF map_ops_ok plain_bitflags_ok sample_linker_ok sv39_encoding_ok plain_riscv_ok sample_code_ok
      p(1) sim_uart_ok p(2-4) h, of reset_uart]
  obtain h0 h1 addr satp h2 d2 where b: "boot_start sample_linker h = Some h0" "kstart plain_riscv sample_code h0 = Inr h1"
    "?kmain 0 h1 reset_uart = Some (Inr (((addr, satp), h2), d2))"
    "\<forall>g. g 10 = satp \<longrightarrow> (\<exists>h3. exec_tramp (ld_trampoline_start sample_linker) userret (h2\<lparr>gpr := g, pc := addr\<rparr>) = Some h3 \<and>
       mode h3 = UserMode)"
    "\<forall>pend. bit pend 1 \<and> \<not> bit pend 9 \<longrightarrow> ?kmain pend h1 reset_uart = None"
    by blast
  have "bit (2 :: usize) 1" "\<not> bit (2 :: usize) 9" by (simp_all add: bit_numeral_rec)
  with b(5) have "?kmain 2 h1 reset_uart = None" by blast
  with b(1-3) b(4) [rule_format, of "\<lambda>_. satp"] show ?thesis by blast
qed

section \<open>The other harts\<close>

text \<open>
  C37. Only hart 0 gets to user mode: another hart waits in \<open>kmain\<close> as long as \<open>HART0_STARTED\<close> is
  false, and once it is true, with a 16550 on the serial line, a kernel address space in place and no enabled
  interrupt pending when line 103 lets them in, the hart sets up its paging and its interrupt controller,
  locks the kernel's table once more and then panics in \<open>usertrapret\<close>, because no process was ever assigned to it.
\<close>

theorem other_harts_panic:
  fixes h :: "'m machine"
  assumes "bitflags_ok B" and "linker_ok L" and "satp_set_ok S" and "riscv_ok R"
    and "uart_ok D UART_BASE_ADDR view" and "plic_apart D view" and "\<not> bit (ua_lcr (view d)) 7"
    and "hart_id h = i" and "0 < i" and "unat i < 8" and "length (CPUS h) = 8"
    and "CPUS h ! unat i = \<lparr>cpu_hartid = i, running_process = None\<rparr>"
    and "KERNEL_ADDRESS_SPACE h = Some kspace" and "pt_inv (kern h) (page_table kspace)"
    and "nodes_mapped (kern h) (page_table kspace)" and "heap_ok L (kern h)" and "73 \<le> card (kfree (kern h))"
    and "(csr_sip h OR pend) AND csr_sie h = 0"
  shows "kmain H B L S R C D vps init_text st pend h d =
    (if HART0_STARTED h then Some (Inl (Expect ''trap::userret: No runable process'')) else None)"
proof (cases "HART0_STARTED h")
  case True
  obtain d1 where d1: "info D (hmem h) (''hart '' @ dec (unat (hart_id h)) @ '' booting...'') d = Some d1"
    using info_returns [OF assms(5,7)] by blast
  let ?h1 = "h\<lparr>csr_satp := addr_space_make_satp kspace, csr_sscratch := TRAPFRAME_BASE_USER_VA\<rparr>"
  have h1: "mm_hart_init B L S h = Inr ?h1"
    by (rule mm_hart_init_spec [OF assms(2,3,13,14,16)])
  let ?h2 = "trap_init_hart R C ?h1"
  have "unat (hart_id ?h2) < 8" using assms(8,10) by (simp add: trap_init_hart_def hart_id_def reg_def)
  then obtain d2 where d2: "plic_hart_init D ?h2 d1 = Inr d2"
    using plic_view(2) [OF assms(6)] by blast
  let ?h3 = "intr_off R ?h2"
  have k: "kern ?h3 = kern h" "KERNEL_ADDRESS_SPACE ?h3 = Some kspace"
    using assms(13) by (simp_all add: intr_off_def trap_init_hart_def)
  obtain m where lk: "lock_space B L S kspace ?h3 = Inr (?h3\<lparr>kern := (kern ?h3)\<lparr>phys_mem := m\<rparr>,
      csr_satp := addr_space_make_satp kspace\<rparr>)"
    using lock_space_spec [OF assms(1-3), of ?h3 kspace] assms(14-17) k(1) by auto
  let ?h4 = "intr_on R (?h3\<lparr>kern := (kern ?h3)\<lparr>phys_mem := m\<rparr>, csr_satp := addr_space_make_satp kspace,
      csr_sip := csr_sip h OR pend\<rparr>)"
  have "serve R ?h4 = Some (Inr ?h4)"
    by (intro serve_none pending_cause_none) (use assms(18) in \<open>simp add: intr_on_def intr_off_def trap_init_hart_def\<close>)
  moreover have "usertrapret R B L C ?h4 = Inl (Expect ''trap::userret: No runable process'')"
    using assms(8,10-12)
    by (simp add: usertrapret_def Let_def intr_on_def intr_off_def trap_init_hart_def current_process_def
        hart_id_def reg_def expect_def vec_index_def)
  ultimately have "kmain_end B L S R C pend ?h2 = Some (Inl (Expect ''trap::userret: No runable process''))"
    using lk k(2) by (simp add: kmain_end_def Let_def KERNEL_ADDRESS_SPACE_force_def intr_off_def trap_init_hart_def)
  then show ?thesis
    using True d1 h1 d2 assms(8,9) unfolding kmain_def wait_hart0_eq by (simp add: word_gt_0)
qed (use assms(8,9) in \<open>simp add: kmain_def wait_hart0_eq word_gt_0\<close>)

theorem other_harts_panic_witness:
  "\<exists>h :: (usize \<Rightarrow> arc option option) machine. kmain map_ops plain_bitflags sample_linker sv39_encoding plain_riscv sample_code
     sim_uart 0x1000 [] \<lparr>stats_alloc_actual = 0, stats_alloc_user = 0, stats_total_bytes = KERNEL_HEAP_SIZE\<rparr> 0 h reset_uart =
     Some (Inl (Expect ''trap::userret: No runable process''))"
proof -
  obtain kspace s where b: "space_ok sample_linker kspace s" "heap_ok sample_linker s" "1000 \<le> card (kfree s)"
    using sample_boot by blast
  let ?h = "(idle_machine s kspace)\<lparr>gpr := (\<lambda>_. 1), HART0_STARTED := True\<rparr>"
  have h: "hart_id ?h = 1" "(0 :: usize) < 1" "unat (1 :: usize) < 8" "length (CPUS ?h) = 8"
    "CPUS ?h ! unat (1 :: usize) = \<lparr>cpu_hartid = 1, running_process = None\<rparr>" "KERNEL_ADDRESS_SPACE ?h = Some kspace"
    "pt_inv (kern ?h) (page_table kspace)" "nodes_mapped (kern ?h) (page_table kspace)"
    "heap_ok sample_linker (kern ?h)" "73 \<le> card (kfree (kern ?h))" "(csr_sip ?h OR 0) AND csr_sie ?h = 0"
    using b space_nodes_mapped [OF sample_linker_ok b(2,1)]
    by (simp_all add: idle_machine_def hart_id_def reg_def CPUS_init_def N_CPUS_def space_ok_def)
  have d: "plic_apart sim_uart (\<lambda>w. w)" "\<not> bit (ua_lcr reset_uart) 7"
    by (simp_all add: plic_apart_def sim_uart_def reset_uart_def)
  from other_harts_panic [OF plain_bitflags_ok sample_linker_ok sv39_encoding_ok plain_riscv_ok sim_uart_ok d h]
  show ?thesis by (intro exI [of _ ?h]) simp
qed

section \<open>The boot code\<close>

text \<open>
  C19. The boot code is right for one hart: \<^verbatim>\<open>_start\<close> ends on every hart from 0 to 7, clears exactly the section
  \<^verbatim>\<open>.bss\<close>, and gives the hart with number \<open>i\<close> the top of the \<open>i\<close>-th 64 KB of the boot stacks, so that the stacks
  of two harts are apart and all are inside the region that the linker script reserves.
\<close>

theorem boot_start_ok:
  assumes "linker_ok L" and "unat (csr_mhartid h) < 8"
  shows "\<exists>h'. boot_start L h = Some h' \<and>
    (\<forall>x. hmem h' x = (if ld_bss_start L \<le> x \<and> x < ld_bss_end L then 0 else hmem h x)) \<and>
    unat (gpr h' 2) = unat (ld_kernel_stack_start L) + 0x10000 * (unat (csr_mhartid h) + 1) \<and>
    gpr h' 2 \<le> ld_kernel_stack_end L"
proof -
  let ?i = "csr_mhartid h"
  have "unat (ld_bss_end L) \<le> 0x88000000 - 0x80000" "ld_kernel_stack_start L = ld_bss_end L"
    "ld_kernel_stack_end L = ld_kernel_stack_start L + 0x80000"
    using linker_stack(2) [OF assms(1)] assms(1) unfolding linker_ok_def by (simp, blast+)
  moreover have i1: "unat (?i + 1) = unat ?i + 1" using assms(2) by (simp add: unat_word_ariths(1))
  then have "unat (0x10000 * (?i + 1)) = 0x10000 * (unat ?i + 1)"
    using assms(2) by (simp only: unat_word_ariths(2) i1) simp
  ultimately have "unat (ld_kernel_stack_start L + 0x10000 * (?i + 1)) = unat (ld_kernel_stack_start L) + 0x10000 * (unat ?i + 1)"
    "unat (ld_kernel_stack_end L) = unat (ld_kernel_stack_start L) + 0x80000"
    using assms(2) by (simp_all only: unat_word_ariths(1)) simp_all
  then show ?thesis
    using boot_start_spec [OF assms(1), of h] assms(2) by (auto simp: word_le_nat_alt)
qed

theorem boot_start_ok_witness:
  "\<exists>h'. boot_start sample_linker zero_hart = Some h' \<and> gpr h' 2 \<le> ld_kernel_stack_end sample_linker"
proof -
  have "unat (csr_mhartid zero_hart) < 8" by (simp add: zero_hart_def)
  from boot_start_ok [OF sample_linker_ok this] show ?thesis by blast
qed

text \<open>
  C38. The boot code is wrong for several harts: every hart clears \<^verbatim>\<open>.bss\<close>, without waiting for the others. A hart that
  gets there after another one has started its timer zeroes that timer's scratch area, so that the
  next tick would rearm the timer at address 0, and the whole kernel heap.
\<close>

theorem late_hart_clears_kernel:
  assumes "linker_ok L" and "code_ok L C" and "timer_set C i h" and "hmem h' = hmem h"
  shows "\<exists>h''. boot_start L h' = Some h'' \<and>
    mtimecmp_addr (scratch_at (hmem h'') (csr_mscratch h)) = 0 \<and>
    mtimecmp_addr (scratch_at (hmem h) (csr_mscratch h)) = CLINT_MTIMECMP_BASE + 8 * i \<and>
    (\<forall>k < unat KERNEL_HEAP_SIZE. hmem h'' (ld_kernel_heap_space L + of_nat k) = 0)"
proof -
  have p: "csr_mscratch h = sym_timer_scratches C + 48 * i" "unat i < 8"
    using assms(3) by (simp_all add: timer_set_def)
  note b = timer_scratch_bounds [OF assms(1,2) p(2), folded p(1)]
  have lo: "unat (ld_bss_start L) \<le> unat (csr_mscratch h)"
    using assms(2) b(1) by (simp add: code_ok_def word_le_nat_alt)
  obtain h'' where h'': "boot_start L h' = Some h''"
    "\<forall>x. hmem h'' x = (if ld_bss_start L \<le> x \<and> x < ld_bss_end L then 0 else hmem h' x)"
    using boot_start_spec [OF assms(1), of h'] by auto
  have z: "hmem h'' (csr_mscratch h + 32 + of_nat k) = 0" if "k < 8" for k :: nat
  proof -
    have "unat (csr_mscratch h + 32 + of_nat k) = unat (csr_mscratch h) + 32 + k"
      using that b(3,4) by (simp add: unat_word_ariths(1) unat_of_nat_small)
    then show ?thesis using h''(2) lo b(3) that by (simp add: word_le_nat_alt word_less_nat_alt)
  qed
  have "load_usize (hmem h'') (csr_mscratch h + 32) = 0"
    by (rule load_usize_zero) (use z in simp)
  moreover have "hmem h'' (ld_kernel_heap_space L + of_nat k) = 0" if "k < unat KERNEL_HEAP_SIZE" for k
  proof -
    have hp: "ld_bss_start L \<le> ld_kernel_heap_space L"
      "unat (ld_kernel_heap_space L) + unat KERNEL_HEAP_SIZE \<le> unat (ld_bss_end L)"
      using assms(1) unfolding linker_ok_def by blast+
    then have "unat (ld_kernel_heap_space L + of_nat k) = unat (ld_kernel_heap_space L) + k"
      using that b(4) by (simp add: unat_word_ariths(1) unat_of_nat_small KERNEL_HEAP_SIZE_def)
    then show ?thesis using h''(2) hp that by (simp add: word_le_nat_alt word_less_nat_alt)
  qed
  ultimately show ?thesis
    using h''(1) assms(3) by (auto simp: scratch_at_def timer_set_def)
qed

theorem late_hart_clears_kernel_witness:
  "\<exists>(h :: hart) (h' :: hart) h''. timer_set sample_code 0 h \<and> boot_start sample_linker h' = Some h'' \<and> hmem h' = hmem h \<and>
    mtimecmp_addr (scratch_at (hmem h'') (csr_mscratch h)) = 0"
proof -
  have "unat (load_usize (hmem zero_hart) CLINT_MTIME_BASE) + 1000000 < 2 ^ 64" "hart_id zero_hart = 0"
    by (simp_all add: load_usize_zero zero_hart_def hart_id_def reg_def)
  then obtain m where "load_usize m (sym_timer_scratches sample_code + 32) = CLINT_MTIMECMP_BASE"
    "load_usize m (sym_timer_scratches sample_code + 40) = SCHEDULER_INTERVAL"
    using timer_init_spec [OF plain_riscv_ok sample_linker_ok sample_code_ok, of zero_hart] by auto
  then have h: "timer_set sample_code 0 (zero_hart\<lparr>kern := (kern zero_hart)\<lparr>phys_mem := m\<rparr>,
      csr_mtvec := sym_timervec sample_code, csr_mscratch := sym_timer_scratches sample_code\<rparr>)"
    by (simp add: timer_set_def scratch_at_def)
  from late_hart_clears_kernel [OF sample_linker_ok sample_code_ok h refl] h show ?thesis by blast
qed

end
