(* ===== verification/Isolation.thy ===== *)
theory Isolation
  imports Trap_Theorems
begin

text \<open>
  The page tables of the kernel seen by the hardware: a page that the kernel maps is translated as mapped,
  and a process in user mode, whatever it computes, stores and calls, changes no memory but its own
  stack page and, through the kernel, its trap frame.
\<close>

section \<open>The hardware and the tables\<close>

lemma satp_mode:
  assumes "pt_inv s pt" and "\<forall>n \<in> set (node_addrs pt). n < 2 ^ 56"
  shows "drop_bit 60 (make_satp pt) = 8"
  using satp_fields(1) [of "pt_root pt"] assms pt_shapeD(1,2) [OF pt_invD(5) [OF assms(1)]]
  by (simp add: make_satp_def pt_root_def)

lemma page_of_or_offset:
  assumes "page_aligned a"
  shows "page_of (a OR (x AND mask 12)) = a"
proof -
  have "page_of (a OR (x AND mask 12)) = page_of a"
    by (rule bit_word_eqI) (auto simp: page_of_def bit_simps)
  then show ?thesis using assms by (simp add: page_aligned_page_of)
qed

text \<open>
  C6. The hardware sees what the kernel maps: after \<open>map_one_allocate\<close> with a readable page, the walk of the
  hardware under the \<^verbatim>\<open>satp\<close> of the table translates every canonical address of that page, in the lower or the
  upper half, to the frame, for the accesses that the flags permit in the given mode and no others, and
  translates every other address exactly as before.
\<close>

theorem hardware_sees_map:
  assumes "bitflags_ok B" and "pt_inv s pt" and "2 \<le> card (kfree s)" and "\<forall>n \<in> kfree s \<union> kused s. n < 2 ^ 56"
    and "f AND NOT (mask 9) = 0" and "bit f 1" and "page_aligned pa" and "pa < 2 ^ 56" and "kmap s pt a = None"
    and "md \<noteq> MachineMode"
  shows "\<exists>pt' s'. map_one_allocate B pt (VirtAddr a) (PhysAddr pa) (PTEFlags f) s = Inr (pt', s') \<and>
    (\<forall>acc x. hw_translate (make_satp pt') md (phys_mem s') acc x =
       (if canonical x \<and> same_page a x
        then if hw_permits md acc (ucast f) then Some (pa OR (x AND mask 12)) else None
        else hw_translate (make_satp pt) md (phys_mem s) acc x))"
proof -
  obtain pt' s' where m: "map_one_allocate B pt (VirtAddr a) (PhysAddr pa) (PTEFlags f) s = Inr (pt', s')"
    "pt_inv s' pt'" "pt_grows s pt s' pt'"
    "\<And>b. kmap s' pt' b = (if same_page a b then Some (entry_for pa (f OR 1)) else kmap s pt b)"
    using map_one_allocate_spec [OF assms(1,2) budget_two_free [OF assms(3)] assms(5,7,9)] by blast
  have n: "\<forall>n \<in> set (node_addrs pt). n < 2 ^ 56" using assms(4) pt_invD(4) [OF assms(2)] by blast
  obtain new where "node_addrs pt' = node_addrs pt @ new" "set new \<subseteq> kfree s"
    using m(3) by (auto simp: pt_grows_def)
  then have "set (node_addrs pt') \<subseteq> set (node_addrs pt) \<union> kfree s" by auto
  then have n': "\<forall>n \<in> set (node_addrs pt'). n < 2 ^ 56" using n assms(4) by blast
  have f: "(f OR 1) AND NOT (mask 9) = 0" by (rule flags_or_valid_known [OF assms(5)])
  have p: "hw_permits md acc (entry_for pa (f OR 1)) = hw_permits md acc (ucast f)" for acc
    by (auto simp: hw_permits_def bit_entry_for bit_simps split: mem_access.split)
  have "hw_translate (make_satp pt') md (phys_mem s') acc x =
      (if canonical x \<and> same_page a x
       then if hw_permits md acc (ucast f) then Some (pa OR (x AND mask 12)) else None
       else hw_translate (make_satp pt) md (phys_mem s) acc x)" for acc x
  proof (cases "canonical x")
    case True
    show ?thesis
      using hw_translate_map [OF assms(2) n True assms(10), of acc] hw_translate_map [OF m(2) n' True assms(10), of acc]
        m(4) [of x] hw_entry [OF assms(8) f] p [of acc] True assms(6,7)
      by (simp add: hw_leaf_def bit_entry_for bit_simps page_aligned_page_of)
  next
    case False
    then show ?thesis using assms(10) satp_mode [OF assms(2) n] satp_mode [OF m(2) n'] by (simp add: hw_translate_def)
  qed
  then show ?thesis using m(1) by blast
qed

theorem hardware_sees_map_witness:
  "\<exists>pt s pt' s'. map_one_allocate plain_bitflags pt (VirtAddr 0x10000) (PhysAddr 0x80000000) (PTEFlags 6) s = Inr (pt', s') \<and>
    hw_translate (make_satp pt') SupervisorMode (phys_mem s') Load 0x10008 = Some 0x80000008 \<and>
    hw_translate (make_satp pt') UserMode (phys_mem s') Load 0x10008 = None"
proof -
  have "kfree heap_state \<noteq> {}" using heap_state_facts(2) by auto
  from page_table_allocate_spec [OF heap_state_facts(1) this] obtain pt s n where
    t: "pt_inv s pt" "n \<in> kfree heap_state" "kfree s = kfree heap_state - {n}"
    "same_heap (FRAME_ALLOCATOR heap_state) (FRAME_ALLOCATOR s)" "\<forall>b. kmap s pt b = None"
    by (elim exE conjE) (rule that; assumption)
  have "heap_ok sample_linker s" using t(1,4) by (simp add: heap_ok_def heap_state_def pt_invD(1))
  then have n: "\<forall>n \<in> kfree s \<union> kused s. n < 2 ^ 56" using heap_frame_small(3) [OF sample_linker_ok] by blast
  have p: "2 \<le> card (kfree s)" "(6 :: u16) AND NOT (mask 9) = 0" "bit (6 :: u16) 1" "page_aligned 0x80000000"
    "(0x80000000 :: usize) < 2 ^ 56" "kmap s pt 0x10000 = None"
    using t(3,5) card_free_remove [OF t(2)] heap_state_facts(2)
    by (simp_all add: mask_eq_exp_minus_1 bit_numeral_rec page_aligned_def)
  note m = hardware_sees_map [OF plain_bitflags_ok t(1) p(1) n p(2-6)]
  have sp: "same_page 0x10000 0x10008" by (simp add: same_page_iff)
  obtain pt' s' where a: "map_one_allocate plain_bitflags pt (VirtAddr 0x10000) (PhysAddr 0x80000000) (PTEFlags 6) s = Inr (pt', s')"
    "hw_translate (make_satp pt') SupervisorMode (phys_mem s') Load 0x10008 =
      (if hw_permits SupervisorMode Load (ucast (6 :: u16)) then Some (0x80000000 OR (0x10008 AND mask 12)) else None)"
    using m [of SupervisorMode] sp canonical_low [of "0x10008"] by auto
  moreover have "hw_translate (make_satp pt') UserMode (phys_mem s') Load 0x10008 =
      (if hw_permits UserMode Load (ucast (6 :: u16)) then Some (0x80000000 OR (0x10008 AND mask 12)) else None)"
    using m [of UserMode] a(1) sp canonical_low [of "0x10008"] by auto
  ultimately show ?thesis
    by (intro exI [of _ pt] exI [of _ s] exI [of _ pt'] exI [of _ s'])
       (simp add: hw_permits_def bit_numeral_rec mask_eq_exp_minus_1)
qed

section \<open>A process in user mode\<close>

text \<open>
  A process in user mode on the tables and the trap frame that \<open>make_init\<close> and \<open>init_trapframe\<close> set up: its stack,
  its text and its trap frame are three frames of the heap, none of them a node of a table, and its
  trap frame leads to \<open>usertrap\<close>.
\<close>

definition proc_ok ::
  "linker_symbols \<Rightarrow> code_symbols \<Rightarrow> nat \<Rightarrow> 'm machine \<Rightarrow> arc \<Rightarrow> usize \<Rightarrow> usize \<Rightarrow> usize \<Rightarrow> addr_space \<Rightarrow> addr_space \<Rightarrow> bool" where
  "proc_ok L C len h a tf stk tx space kspace \<longleftrightarrow> running L h a tf space kspace \<and> user_mode L h tf space kspace \<and>
     trap_handler (context_at (hmem h) tf) = sym_usertrap C \<and> heap_ok L (kern h) \<and> tf \<in> kused (kern h) \<and>
     kmap (kern h) (page_table space) = init_map L len stk tx tf \<and> stk \<noteq> tx \<and>
     user_frame (kern h) tf space kspace stk \<and> user_frame (kern h) tf space kspace tx"

text \<open>
  What a process does: it computes, leaving \<open>tp\<close> alone; it stores a byte where the hardware lets it;
  it makes a system call, after which the compiled kernel leaves anything in the registers but the
  argument of \<^verbatim>\<open>__userret\<close>.
\<close>

inductive user_step ::
  "riscv_ops \<Rightarrow> bitflags_ops \<Rightarrow> linker_symbols \<Rightarrow> code_symbols \<Rightarrow> (usize \<Rightarrow> syscall option) \<Rightarrow> 'm machine \<Rightarrow> 'm machine \<Rightarrow> bool"
  for R B L C Q where
  compute: "g 4 = gpr h 4 \<Longrightarrow> user_step R B L C Q h (h\<lparr>gpr := g, pc := p\<rparr>)"
| store: "xlate h Store va = Some pa \<Longrightarrow> user_step R B L C Q h (set_hmem ((hmem h)(pa := b)) h)"
| ecall: "exec_tramp (ld_trampoline_start L) uservec (take_trap 8 0 h) = Some h1 \<Longrightarrow>
    usertrap R B L C Q h1 = Inr ((addr, satp), h2) \<Longrightarrow> g 10 = satp \<Longrightarrow>
    exec_tramp (ld_trampoline_start L) userret (h2\<lparr>gpr := g, pc := addr\<rparr>) = Some h3 \<Longrightarrow> user_step R B L C Q h h3"

text \<open>The only page that a process can write is its stack.\<close>

lemma user_store_page:
  assumes ok: "proc_ok L C len h a tf stk tx space kspace" and t: "xlate h Store va = Some pa"
  shows "page_of pa = stk"
proof -
  have r: "running L h a tf space kspace" and u: "mode h = UserMode" "csr_satp h = make_satp (page_table space)"
    and km: "kmap (kern h) (page_table space) = init_map L len stk tx tf"
    and st: "page_aligned stk" "stk < 2 ^ 56"
    using ok by (simp_all add: proc_ok_def user_mode_def addr_space_make_satp_def user_frame_def)
  have va: "canonical va"
    using t u satp_mode [OF runningD(10,12) [OF r]] by (auto simp: hw_translate_def split: if_splits)
  obtain e where e: "kmap (kern h) (page_table space) va = Some e" "hw_permits UserMode Store e"
    "pa = hw_ppn e OR (va AND mask 12)"
    using t hw_translate_map [OF runningD(10,12) [OF r] va, of UserMode Store] u
    by (auto split: option.splits if_splits)
  then have "bit e 2" "bit e 4" by (simp_all add: hw_permits_def)
  then have "e = entry_for stk 23"
    using e(1) by (auto simp: km init_map_def bit_entry_for bit_numeral_rec split: if_splits)
  then have "pa = stk OR (va AND mask 12)"
    using hw_entry(1) [OF st(2), of 23] e(3) st(1) by (simp add: mask_eq_exp_minus_1 page_aligned_page_of)
  then show ?thesis
    using st(1) by (simp add: page_of_or_offset)
qed

lemma syscall_handle_valid:
  assumes Q: "syscall_from_ok Q" and r: "running L h a tf space kspace" and ok: "syscall_handle Q h = Inr h'"
  shows "unat (user_regs (context_at (hmem h) tf) ! 17) < length syscalls"
    and "unat (context_sepc (context_at (hmem h) tf)) + 4 < 2 ^ 64"
proof -
  show pc: "unat (context_sepc (context_at (hmem h) tf)) + 4 < 2 ^ 64"
  proof (rule ccontr)
    assume "\<not> ?thesis"
    then have "checked_add (context_sepc (context_at (hmem h) tf)) 4 = Inl ArithOverflow"
      by (simp add: checked_add_def)
    then show False
      using ok runningD(3) [OF r]
      by (simp add: syscall_handle_def current_pcb_running [OF r] write_trap_context_def incr_user_space_pc_def)
  qed
  show "unat (user_regs (context_at (hmem h) tf) ! 17) < length syscalls"
    using syscall_handle_invalid [OF Q r _ pc] ok by (cases "unat (user_regs (context_at (hmem h) tf) ! 17) < length syscalls") simp_all
qed

lemma ecall_valid:
  assumes R: "riscv_ok R" and Q: "syscall_from_ok Q"
    and r: "running L h a tf space kspace" and u: "user_mode L h tf space kspace"
    and e: "exec_tramp (ld_trampoline_start L) uservec (take_trap 8 0 h) = Some h1" "usertrap R B L C Q h1 = Inr x"
  shows "unat (gpr h 17) < length syscalls" and "unat (pc h) + 4 < 2 ^ 64"
proof -
  let ?c = "context_at (hmem h) tf" and ?h0 = "take_trap 8 0 h"
  obtain m' where h1: "h1 = ?h0\<lparr>kern := (kern h)\<lparr>phys_mem := m'\<rparr>, csr_satp := addr_space_make_satp kspace,
        gpr := (gpr h)(31 := TRAPFRAME_BASE_USER_VA, 5 := addr_space_make_satp kspace, 2 := kernel_sp ?c, 6 := trap_handler ?c),
        pc := trap_handler ?c\<rparr>"
    and c: "context_at m' tf = ?c\<lparr>user_regs := (user_regs ?c ! 0) # map (gpr h) [1..<32], kernel_hardid := gpr h 4, context_sepc := pc h\<rparr>"
    and fr: "\<And>x. page_of x \<noteq> tf \<Longrightarrow> m' x = hmem h x"
    using enter_kernel [OF r u, of ?h0 8 0 "gpr h"] e(1) by auto
  let ?h2 = "(intr_off R h1)\<lparr>csr_stvec := stvec_direct R (sym_kernelvec C)\<rparr>"
  have "scause_cause R (csr_scause ?h2) = Exception UserEnvCall"
    using riscv_okD(9) [OF R] by (simp add: h1 intr_off_def take_trap_def)
  then obtain h3 where s: "syscall_handle Q ?h2 = Inr h3"
    using e(2) by (auto simp: usertrap_def Let_def and_then_eq_Ok)
  have "running L ?h2 a tf space kspace"
    by (rule running_cong [OF r, of _ m']) (simp_all add: h1 intr_off_def take_trap_def reg_def fr)
  note v = syscall_handle_valid [OF Q this s]
  have "hmem ?h2 = m'" by (simp add: h1 intr_off_def)
  then show "unat (gpr h 17) < length syscalls" "unat (pc h) + 4 < 2 ^ 64"
    using v c by (simp_all del: upt_rec_numeral)
qed

lemma user_step_ok:
  assumes "bitflags_ok B" and "riscv_ok R" and "code_ok L C" and "syscall_from_ok Q"
    and "user_step R B L C Q h h'" and ok: "proc_ok L C len h a tf stk tx space kspace"
  shows "proc_ok L C len h' a tf stk tx space kspace \<and>
    (\<forall>x. page_of x \<noteq> stk \<longrightarrow> page_of x \<noteq> tf \<longrightarrow> hmem h' x = hmem h x)"
  using assms(5)
proof cases
  have r: "running L h a tf space kspace" and u: "user_mode L h tf space kspace"
    and km: "kmap (kern h) (page_table space) = init_map L len stk tx tf"
    and f: "user_frame (kern h) tf space kspace stk" "user_frame (kern h) tf space kspace tx"
    using ok by (simp_all add: proc_ok_def)
  have rest: "proc_ok L C len h' a tf stk tx space kspace" if "running L h' a tf space kspace" "user_mode L h' tf space kspace"
    "trap_handler (context_at (hmem h') tf) = trap_handler (context_at (hmem h) tf)"
    "kmap (kern h') (page_table space) = kmap (kern h) (page_table space)" "kern h' = (kern h)\<lparr>phys_mem := m\<rparr>" for m
    using ok that by (simp add: proc_ok_def user_frame_def heap_ok_def kstate_wf_def)
  {
    case (compute g p)
    have "running L h' a tf space kspace"
      by (rule running_cong [OF r, of _ "hmem h"]) (use compute in \<open>simp_all add: reg_def\<close>)
    then have "proc_ok L C len h' a tf stk tx space kspace"
      using u compute by (intro rest [of "hmem h"]) (simp_all add: user_mode_def)
    then show ?thesis using compute by simp
  next
    case (store va pa b)
    have pg: "page_of pa = stk" by (rule user_store_page [OF ok store(2)])
    let ?m = "(hmem h)(pa := b)"
    have m: "?m x = hmem h x" if "page_of x \<noteq> stk" for x using that pg by auto
    have h': "h' = h\<lparr>kern := (kern h)\<lparr>phys_mem := ?m\<rparr>\<rparr>" using store(1) by (simp add: set_hmem_def)
    have "running L h' a tf space kspace"
      by (rule running_frame [OF r, of _ ?m]) (use f(1) pg in \<open>auto simp: h' reg_def user_frame_def\<close>)
    moreover have "context_at ?m tf = context_at (hmem h) tf"
      by (rule context_at_page [OF runningD(6) [OF r]], rule m) (use f(1) in \<open>auto simp: user_frame_def\<close>)
    moreover have "kmap (kern h') (page_table space) = kmap (kern h) (page_table space)"
      using pt_frame_page(2) [OF runningD(10) [OF r], of stk ?m] f(1) m by (simp add: h' user_frame_def)
    ultimately have "proc_ok L C len h' a tf stk tx space kspace"
      using u by (intro rest [of ?m]) (simp_all add: user_mode_def h')
    then show ?thesis using m by (simp add: h')
  next
    case (ecall h1 addr satp h2 g)
    note v = ecall_valid [OF assms(2,4) r u ecall(1,2)]
    from syscall_returns [OF assms(1-4) r u v] obtain h1' h2' addr' where
      s: "exec_tramp (ld_trampoline_start L) uservec (take_trap 8 0 h) = Some h1'"
      "usertrap R B L C Q h1' = Inr ((addr', addr_space_make_satp space), h2')"
      "\<forall>g. g 10 = addr_space_make_satp space \<longrightarrow>
        (\<exists>h3. exec_tramp (ld_trampoline_start L) userret (h2'\<lparr>gpr := g, pc := addr'\<rparr>) = Some h3 \<and>
           resumed L h a tf space kspace g h3)"
      by blast
    have "resumed L h a tf space kspace g h'"
      using s ecall by auto
    then obtain m where
      h': "running L h' a tf space kspace" "user_mode L h' tf space kspace" "\<forall>x. page_of x \<noteq> tf \<longrightarrow> hmem h' x = hmem h x"
      "trap_handler (context_at (hmem h') tf) = trap_handler (context_at (hmem h) tf)"
      and m: "kern h' = (kern h)\<lparr>phys_mem := m\<rparr>"
      by (auto simp: resumed_def)
    have "kmap (kern h') (page_table space) = kmap (kern h) (page_table space)"
      using pt_frame_page(2) [OF runningD(10,14) [OF r], of m] h'(3) m by simp
    from rest [OF h'(1,2,4) this m] h'(3) show ?thesis by blast
  }
qed

lemma user_steps_ok:
  assumes "bitflags_ok B" and "riscv_ok R" and "code_ok L C" and "syscall_from_ok Q"
    and "proc_ok L C len h a tf stk tx space kspace" and "(user_step R B L C Q)\<^sup>*\<^sup>* h h'"
  shows "proc_ok L C len h' a tf stk tx space kspace \<and>
    (\<forall>x. page_of x \<noteq> stk \<longrightarrow> page_of x \<noteq> tf \<longrightarrow> hmem h' x = hmem h x)"
  using assms(6)
proof (induction rule: rtranclp_induct)
  case base
  then show ?case using assms(5) by simp
next
  case (step h1 h2)
  have "proc_ok L C len h1 a tf stk tx space kspace" using step.IH by blast
  from user_step_ok [OF assms(1-4) step(2) this] step.IH show ?case by simp
qed

text \<open>The frames of the heap are above the kernel.\<close>

lemma heap_frame_above:
  assumes "linker_ok L" and "heap_ok L s" and "p \<in> kused s" and "page_of x = p"
  shows "ld_heap_start L \<le> x"
proof -
  have "pno (ld_heap_start L) \<le> pno p" "page_aligned (ld_heap_start L)"
    using heap_frames_mapped(1) [OF assms(1,2), of p] assms(3) linker_pnos(14) [OF assms(1)] by simp_all
  moreover have "pno p \<le> pno x"
    using assms(4) word_and_le2 [of x "NOT (mask 12)"]
    by (auto simp: pno_def page_of_def word_le_nat_alt intro: div_le_mono)
  ultimately have "unat (ld_heap_start L) div 4096 \<le> unat x div 4096" "4096 dvd unat (ld_heap_start L)"
    by (simp_all add: pno_def page_aligned_def)
  then show ?thesis
    using div_mult_mod_eq [of "unat x" 4096] by (auto simp: word_le_nat_alt)
qed

text \<open>
  C2. A process is confined: starting from a process whose table implements the user map, any sequence
  of computations that leave \<open>tp\<close> alone, of stores wherever the hardware permits them and of system calls that
  return changes no byte outside the stack page and the trap frame of the process: not the text of the process,
  not the image of the kernel and its stacks, which lie below the heap, and not a page table, so that
  both the map of the process and that of the kernel stay as they were.  A system call of the process enters
  the kernel at \<open>usertrap\<close>, and with a valid number it always comes back.
\<close>

theorem user_confined:
  assumes "bitflags_ok B" and "linker_ok L" and "riscv_ok R" and "code_ok L C" and "syscall_from_ok Q"
    and "proc_ok L C len h a tf stk tx space kspace" and "(user_step R B L C Q)\<^sup>*\<^sup>* h h'"
  shows "(\<forall>x. page_of x \<noteq> stk \<longrightarrow> page_of x \<noteq> tf \<longrightarrow> hmem h' x = hmem h x) \<and>
    (\<forall>x. page_of x = tx \<longrightarrow> hmem h' x = hmem h x) \<and> (\<forall>x < ld_heap_start L. hmem h' x = hmem h x) \<and>
    kmap (kern h') (page_table space) = init_map L len stk tx tf \<and>
    kmap (kern h') (page_table kspace) = kmap (kern h) (page_table kspace) \<and> mode h' = UserMode \<and>
    (\<forall>h1. exec_tramp (ld_trampoline_start L) uservec (take_trap 8 0 h') = Some h1 \<longrightarrow> pc h1 = sym_usertrap C) \<and>
    (unat (gpr h' 17) < length syscalls \<longrightarrow> unat (pc h') + 4 < 2 ^ 64 \<longrightarrow>
      (\<exists>h1 h2 addr. exec_tramp (ld_trampoline_start L) uservec (take_trap 8 0 h') = Some h1 \<and>
        usertrap R B L C Q h1 = Inr ((addr, addr_space_make_satp space), h2) \<and>
        (\<forall>g. g 10 = addr_space_make_satp space \<longrightarrow>
           (\<exists>h3. exec_tramp (ld_trampoline_start L) userret (h2\<lparr>gpr := g, pc := addr\<rparr>) = Some h3 \<and> pc h3 = pc h' + 4))))"
proof -
  note s = user_steps_ok [OF assms(1,3-7)]
  then have ok: "running L h' a tf space kspace" "user_mode L h' tf space kspace"
    "kmap (kern h') (page_table space) = init_map L len stk tx tf"
    "trap_handler (context_at (hmem h') tf) = sym_usertrap C"
    and m: "\<And>x. page_of x \<noteq> stk \<Longrightarrow> page_of x \<noteq> tf \<Longrightarrow> hmem h' x = hmem h x"
    by (simp_all add: proc_ok_def)
  have fr: "stk \<noteq> tx" "tx \<noteq> tf" "stk \<in> kused (kern h)" "tf \<in> kused (kern h)" "heap_ok L (kern h)"
    and r: "running L h a tf space kspace"
    and nd: "stk \<notin> set (node_addrs (page_table kspace))"
    using assms(6) by (auto simp: proc_ok_def user_frame_def)
  have tx: "\<forall>x. page_of x = tx \<longrightarrow> hmem h' x = hmem h x"
    using fr(1,2) by (auto intro!: m)
  have low: "hmem h' x = hmem h x" if "x < ld_heap_start L" for x
    using that heap_frame_above [OF assms(2) fr(5) fr(3), of x] heap_frame_above [OF assms(2) fr(5) fr(4), of x]
    by (intro m) auto
  have kt: "kmap (kern h') (page_table kspace) = kmap (kern h) (page_table kspace)"
  proof (rule pt_frame(2) [OF runningD(11) [OF r] _ pt_invD(1,4) [OF runningD(11) [OF ok(1)]]])
    fix x assume "page_of x \<in> set (node_addrs (page_table kspace))"
    with nd runningD(15) [OF r] have "page_of x \<noteq> stk" "page_of x \<noteq> tf" by metis+
    then show "hmem h' x = hmem h x" by (rule m)
  qed
  have "pc h1 = sym_usertrap C" if "exec_tramp (ld_trampoline_start L) uservec (take_trap 8 0 h') = Some h1" for h1
    using enter_kernel [OF ok(1,2), of "take_trap 8 0 h'" 8 0 "gpr h'"] that ok(4) by auto
  moreover have "\<exists>h1 h2 addr. exec_tramp (ld_trampoline_start L) uservec (take_trap 8 0 h') = Some h1 \<and>
        usertrap R B L C Q h1 = Inr ((addr, addr_space_make_satp space), h2) \<and>
        (\<forall>g. g 10 = addr_space_make_satp space \<longrightarrow>
           (\<exists>h3. exec_tramp (ld_trampoline_start L) userret (h2\<lparr>gpr := g, pc := addr\<rparr>) = Some h3 \<and> pc h3 = pc h' + 4))"
    if "unat (gpr h' 17) < length syscalls" "unat (pc h') + 4 < 2 ^ 64"
    using syscall_returns [OF assms(1,3-5) ok(1,2) that] unfolding resumed_def
    by (elim exE conjE) (rule exI, rule exI, rule exI, intro conjI, assumption+, fast)
  ultimately show ?thesis using ok(2,3) m tx low kt by (simp add: user_mode_def)
qed

text \<open>The first page of the stack of the sample process.\<close>

lemma sample_stack_page:
  assumes "proc_ok sample_linker sample_code 4 h 0 tf stk tx space kspace"
  shows "xlate h Store 0x12000 = Some stk"
proof -
  have r: "running sample_linker h 0 tf space kspace" and u: "mode h = UserMode" "csr_satp h = make_satp (page_table space)"
    and km: "kmap (kern h) (page_table space) 0x12000 = init_map sample_linker 4 stk tx tf 0x12000"
    and st: "page_aligned stk" "stk < 2 ^ 56"
    using assms by (simp_all add: proc_ok_def user_mode_def addr_space_make_satp_def user_frame_def)
  have "init_map sample_linker 4 stk tx tf 0x12000 = Some (entry_for stk 23)"
    by (simp add: init_map_def vpn_def tramp_pno_def trap_pno_def text_pages_def take_bit_eq_mod)
  then show ?thesis
    using hw_translate_entry [OF runningD(10,12) [OF r], of "0x12000" UserMode stk 23 Store] km u st
    by (simp add: hw_permits_def bit_entry_for bit_numeral_rec mask_eq_exp_minus_1 page_aligned_page_of)
qed

theorem user_confined_witness:
  "\<exists>(h :: (usize \<Rightarrow> arc option option) machine) h1 h2 tf stk tx space kspace.
    proc_ok sample_linker sample_code 4 h 0 tf stk tx space kspace \<and> hmem h1 stk = 0x2A \<and>
    user_step plain_riscv plain_bitflags sample_linker sample_code plain_syscalls h h1 \<and>
    user_step plain_riscv plain_bitflags sample_linker sample_code plain_syscalls h1 h2 \<and>
    pc h2 = TEXT_BASE_USER_VA + 4 \<and> mode h2 = UserMode \<and> (\<forall>x. page_of x = tx \<longrightarrow> hmem h2 x = hmem h x) \<and>
    (\<forall>x < ld_heap_start sample_linker. hmem h2 x = hmem h x) \<and>
    kmap (kern h2) (page_table kspace) = kmap (kern h) (page_table kspace)"
proof -
  obtain h :: "(usize \<Rightarrow> arc option option) machine" and tf space kspace stk tx where
    h: "proc_ok sample_linker sample_code 4 h 0 tf stk tx space kspace" "gpr h = (\<lambda>_. 0)" "pc h = TEXT_BASE_USER_VA"
    using sample_user unfolding proc_ok_def by blast
  let ?S = "user_step plain_riscv plain_bitflags sample_linker sample_code plain_syscalls"
  let ?h1 = "set_hmem ((hmem h)(stk := 0x2A)) h"
  note confined = user_confined [OF plain_bitflags_ok sample_linker_ok plain_riscv_ok sample_code_ok plain_syscalls_ok h(1)]
  have s1: "?S h ?h1" by (rule user_step.store [OF sample_stack_page [OF h(1)]])
  have "unat (gpr ?h1 17) < length syscalls" "unat (pc ?h1) + 4 < 2 ^ 64"
    using h(2,3) by (simp_all add: syscalls_def TEXT_BASE_USER_VA_def set_hmem_def)
  with confined [OF r_into_rtranclp [of ?S, OF s1]] obtain k1 k2 addr where
    k: "exec_tramp (ld_trampoline_start sample_linker) uservec (take_trap 8 0 ?h1) = Some k1"
    "usertrap plain_riscv plain_bitflags sample_linker sample_code plain_syscalls k1 = Inr ((addr, addr_space_make_satp space), k2)"
    and g: "\<forall>g. g 10 = addr_space_make_satp space \<longrightarrow>
      (\<exists>h3. exec_tramp (ld_trampoline_start sample_linker) userret (k2\<lparr>gpr := g, pc := addr\<rparr>) = Some h3 \<and> pc h3 = pc ?h1 + 4)"
    by blast
  let ?g = "\<lambda>_. addr_space_make_satp space"
  obtain k3 where k3: "exec_tramp (ld_trampoline_start sample_linker) userret (k2\<lparr>gpr := ?g, pc := addr\<rparr>) = Some k3"
    "pc k3 = pc ?h1 + 4"
    using g [THEN spec, of ?g] by blast
  have s2: "?S ?h1 k3" by (rule user_step.ecall [OF k, of ?g, OF refl k3(1)])
  have "?S\<^sup>*\<^sup>* h k3" using s1 s2 by (meson converse_rtranclp_into_rtranclp r_into_rtranclp)
  from confined [OF this] h k3(2) s1 s2 show ?thesis
    by (intro exI [of _ h] exI [of _ ?h1] exI [of _ k3] exI [of _ tf] exI [of _ stk] exI [of _ tx]
        exI [of _ space] exI [of _ kspace]) (simp add: set_hmem_def)
qed

end
