(* ===== verification/User_Calls.thy ===== *)
theory User_Calls
  imports Isolation
begin

text \<open>
  The user library: \<^verbatim>\<open>user/src/syscall.rs\<close>, which turns the arguments of a system call into registers, the
  stubs that \<^verbatim>\<open>utils/usys.S.py\<close> generates from the list in \<^verbatim>\<open>utils/syscall.py\<close>, and the code of the first
  process in \<^verbatim>\<open>user/src/initcode.S\<close>.  A slice is its address and its length.
\<close>

section \<open>The stubs\<close>

definition usys_names :: "string list" where
  "usys_names =
     [''fork'', ''exit'', ''wait'', ''pipe'', ''read'', ''write'', ''close'', ''kill'', ''exec'', ''open'', ''mknod'',
      ''unlink'', ''fstat'', ''link'', ''mkdir'', ''chdir'', ''dup'', ''getpid'', ''sbrk'', ''sleep'', ''uptime'']"

text \<open>The position in the list, which \<^verbatim>\<open>enumerate\<close> gives.\<close>

definition usys_number :: "string \<Rightarrow> usize" where
  "usys_number name = of_nat (length (takeWhile (\<lambda>n. n \<noteq> name) usys_names))"

text \<open>A stub: \<^verbatim>\<open>li a7, idx\<close>, then \<^verbatim>\<open>ecall\<close>, then \<^verbatim>\<open>ret\<close>.\<close>

definition usys_load :: "string \<Rightarrow> instr list" where
  "usys_load name = [Li 17 (usys_number name)]"

definition usys_ret :: "instr list" where
  "usys_ret = [Jr 1]"

section \<open>The library\<close>

type_synonym i32 = "32 word"
type_synonym slice = "usize \<times> usize"

text \<open>An \<^verbatim>\<open>i32\<close> argument is sign-extended in its register; the length of a slice is truncated first.\<close>

definition arg_i32 :: "i32 \<Rightarrow> usize" where
  "arg_i32 v = scast v"

definition len_i32 :: "slice \<Rightarrow> i32" where
  "len_i32 s = ucast (snd s)"

record user_call =
  call_name :: string
  call_args :: "usize list"     \<comment> \<open>\<open>a0\<close> and the following registers\<close>

definition exit_call :: "i32 \<Rightarrow> user_call" where
  "exit_call code = \<lparr>call_name = ''exit'', call_args = [arg_i32 code]\<rparr>"

definition fork_call :: user_call where
  "fork_call = \<lparr>call_name = ''fork'', call_args = []\<rparr>"

definition EXEC_MAX_ARGS :: nat where "EXEC_MAX_ARGS = 10"

text \<open>The loop of \<open>exec\<close>, from index \<open>i\<close> on.\<close>

fun exec_fill :: "nat \<Rightarrow> slice list \<Rightarrow> i32 list \<Rightarrow> usize list \<Rightarrow> (i32 list \<times> usize list) result" where
  "exec_fill i [] args_sz args_ptr = Ok (args_sz, args_ptr)"
| "exec_fill i (s # args) args_sz args_ptr =
     (if i < length args_sz \<and> i < length args_ptr
      then exec_fill (Suc i) args (args_sz[i := len_i32 s]) (args_ptr[i := fst s])
      else Panic IndexOutOfBounds)"

text \<open>The two arrays are at the addresses \<open>p_ptr\<close> and \<open>p_sz\<close> of the stack; their contents are returned too.\<close>

definition exec_call :: "usize \<Rightarrow> usize \<Rightarrow> slice \<Rightarrow> slice list \<Rightarrow> (user_call \<times> i32 list \<times> usize list) result" where
  "exec_call p_ptr p_sz path args =
     (let arg_cnt = length args
      in and_then (exec_fill 0 args (replicate EXEC_MAX_ARGS 0) (replicate EXEC_MAX_ARGS 0)) (\<lambda>(args_sz, args_ptr).
         Ok (\<lparr>call_name = ''exec'', call_args =
                [fst path, arg_i32 (len_i32 path), arg_i32 (of_nat arg_cnt), p_ptr, p_sz]\<rparr>, args_sz, args_ptr)))"

definition write_call :: "i32 \<Rightarrow> slice \<Rightarrow> user_call" where
  "write_call fd content = \<lparr>call_name = ''write'', call_args = [arg_i32 fd, fst content, arg_i32 (len_i32 content)]\<rparr>"

definition read_call :: "i32 \<Rightarrow> slice \<Rightarrow> user_call" where
  "read_call fd content = \<lparr>call_name = ''read'', call_args = [arg_i32 fd, fst content, arg_i32 (len_i32 content)]\<rparr>"

definition open_call :: "slice \<Rightarrow> i32 \<Rightarrow> user_call" where
  "open_call path md = \<lparr>call_name = ''open'', call_args = [fst path, arg_i32 (len_i32 path), arg_i32 md]\<rparr>"

definition close_call :: "i32 \<Rightarrow> user_call" where
  "close_call fd = \<lparr>call_name = ''close'', call_args = [arg_i32 fd]\<rparr>"

definition dup_call :: "i32 \<Rightarrow> user_call" where
  "dup_call fd = \<lparr>call_name = ''dup'', call_args = [arg_i32 fd]\<rparr>"

definition wait_call :: "i32 \<Rightarrow> user_call" where
  "wait_call p = \<lparr>call_name = ''wait'', call_args = [arg_i32 p]\<rparr>"

definition STDIN :: i32 where "STDIN = 0"
definition STDOUT :: i32 where "STDOUT = 1"
definition STDERR :: i32 where "STDERR = 2"

text \<open>\<open>print!\<close> of the library.\<close>

definition stdio_write_str :: "slice \<Rightarrow> user_call" where
  "stdio_write_str out = write_call 1 out"

section \<open>The first process\<close>

definition initcode_exec :: "usize \<Rightarrow> usize \<Rightarrow> instr list" where
  "initcode_exec init argv = [Li 10 init, Li 11 5, Li 12 argv, Li 17 (usys_number ''exec'')]"

definition initcode_exit :: "instr list" where
  "initcode_exit = [Li 17 (usys_number ''exit'')]"

section \<open>Properties\<close>

lemma usys_number_small:
  assumes "name \<in> set usys_names"
  shows "unat (usys_number name) < length syscalls"
proof -
  have "length (takeWhile (\<lambda>n. n \<noteq> name) usys_names) < length usys_names"
  proof (rule ccontr)
    assume "\<not> ?thesis"
    then have "takeWhile (\<lambda>n. n \<noteq> name) usys_names = usys_names"
      using takeWhile_eq_take length_takeWhile_le by (metis linorder_not_less take_all)
    then show False using assms unfolding takeWhile_eq_all_conv by blast
  qed
  then show ?thesis by (simp add: usys_number_def usys_names_def syscalls_def unat_of_nat_small)
qed

text \<open>
  C30. The two sides agree on the numbers: for every name in the list from which the stubs are
  generated, the number that the stub loads is decoded by the kernel as the call of that name.
\<close>

theorem stub_numbers_agree:
  assumes "syscall_from_ok Q"
  shows "map (\<lambda>n. (n, Q (usys_number n))) usys_names =
    [(''fork'', Some SysFork), (''exit'', Some SysExit), (''wait'', Some SysWait), (''pipe'', Some SysPipe),
     (''read'', Some SysRead), (''write'', Some SysWrite), (''close'', Some SysClose), (''kill'', Some SysKill),
     (''exec'', Some SysExec), (''open'', Some SysOpen), (''mknod'', Some SysMknod), (''unlink'', Some SysUnlink),
     (''fstat'', Some SysFstat), (''link'', Some SysLink), (''mkdir'', Some SysMkdir), (''chdir'', Some SysChdir),
     (''dup'', Some SysDup), (''getpid'', Some SysGetpid), (''sbrk'', Some SysSbrk), (''sleep'', Some SysSleep),
     (''uptime'', Some SysUptime)]"
  using assms by (simp add: syscall_from_ok_def usys_names_def usys_number_def syscalls_def)

theorem stub_numbers_agree_witness: "plain_syscalls (usys_number ''dup'') = Some SysDup"
  using stub_numbers_agree [OF plain_syscalls_ok] by (simp add: usys_names_def)

lemma take_Suc_update: "i < length xs \<Longrightarrow> take (Suc i) (xs[i := x]) = take i xs @ [x]"
  by (simp add: take_Suc_conv_app_nth)

lemma exec_fill_eq:
  assumes "length szs = EXEC_MAX_ARGS" and "length ptrs = EXEC_MAX_ARGS" and "i \<le> EXEC_MAX_ARGS"
  shows "exec_fill i args szs ptrs =
    (if i + length args \<le> EXEC_MAX_ARGS
     then Ok (take i szs @ map len_i32 args @ drop (i + length args) szs, take i ptrs @ map fst args @ drop (i + length args) ptrs)
     else Panic IndexOutOfBounds)"
  using assms
proof (induction args arbitrary: i szs ptrs)
  case (Cons s args)
  show ?case
  proof (cases "i < EXEC_MAX_ARGS")
    case True
    show ?thesis
      using Cons.IH [of "szs[i := len_i32 s]" "ptrs[i := fst s]" "Suc i"] Cons.prems True by (simp add: take_Suc_update)
  qed (use Cons.prems in simp)
qed simp

text \<open>
  C29. \<open>exec\<close> passes its arguments: for up to ten of them, the kernel gets the address and the length of
  the path, the number of arguments and the two arrays, which hold the length and the address of each
  argument in order and zeros after them; with more than ten the process panics, whatever they are.
\<close>

theorem exec_passes_arguments:
  "exec_call p_ptr p_sz path args =
    (if length args \<le> 10
     then Ok (\<lparr>call_name = ''exec'', call_args =
            [fst path, arg_i32 (len_i32 path), of_nat (length args), p_ptr, p_sz]\<rparr>,
          map len_i32 args @ replicate (10 - length args) 0, map fst args @ replicate (10 - length args) 0)
     else Panic IndexOutOfBounds)"
proof -
  have "arg_i32 (of_nat n) = of_nat n" if "n \<le> 10" for n :: nat
  proof -
    have "sint (of_nat n :: i32) = int n"
      using that by (simp add: signed_of_nat signed_take_bit_int_eq_self)
    then show ?thesis
      unfolding arg_i32_def by (simp add: scast_eq)
  qed
  then show ?thesis
    by (simp add: exec_call_def exec_fill_eq EXEC_MAX_ARGS_def Let_def)
qed

text \<open>
  C36. No system call returns to its caller as the library expects: a process that enters any stub gets back to
  the instruction after the \<^verbatim>\<open>ecall\<close>, also for \<open>exit\<close> and \<open>exec\<close>, which are declared not to return, with
  its arguments still in \<open>a0\<close> and the following registers, so the kernel gives no result; and the \<^verbatim>\<open>ret\<close> of the stub jumps to
  whatever the compiled kernel had in \<open>ra\<close>, because \<^verbatim>\<open>__userret\<close> does not restore that register.
\<close>

theorem stub_returns_astray:
  assumes "bitflags_ok B" and "riscv_ok R" and "code_ok L C" and "syscall_from_ok Q"
    and "running L h a tf space kspace" and "user_mode L h tf space kspace"
    and "name \<in> set usys_names" and "unat (pc h) + 4 < 2 ^ 64"
  shows "\<exists>h0 h1 h2 addr. exec (usys_load name) h = Some h0 \<and>
    exec_tramp (ld_trampoline_start L) uservec (take_trap 8 0 h0) = Some h1 \<and>
    usertrap R B L C Q h1 = Inr ((addr, addr_space_make_satp space), h2) \<and>
    (\<forall>g. g 10 = addr_space_make_satp space \<longrightarrow>
       (\<exists>h3 h4. exec_tramp (ld_trampoline_start L) userret (h2\<lparr>gpr := g, pc := addr\<rparr>) = Some h3 \<and>
          mode h3 = UserMode \<and> pc h3 = pc h + 4 \<and> (\<forall>i. 10 \<le> i \<longrightarrow> i < 17 \<longrightarrow> gpr h3 i = gpr h i) \<and>
          exec usys_ret h3 = Some h4 \<and> pc h4 = g 1))"
proof -
  let ?h0 = "h\<lparr>gpr := (gpr h)(17 := usys_number name)\<rparr>"
  have n: "unat (gpr ?h0 17) < length syscalls"
    using usys_number_small [OF assms(7)] by simp
  have r: "running L ?h0 a tf space kspace"
    by (rule running_cong [OF assms(5), of _ "hmem h"]) (simp_all add: reg_def)
  have u: "user_mode L ?h0 tf space kspace" using assms(6) by (simp add: user_mode_def)
  have "unat (pc ?h0) + 4 < 2 ^ 64" using assms(8) by simp
  from syscall_returns [OF assms(1-4) r u n this] obtain h1 h2 addr where
    s: "exec_tramp (ld_trampoline_start L) uservec (take_trap 8 0 ?h0) = Some h1"
    "usertrap R B L C Q h1 = Inr ((addr, addr_space_make_satp space), h2)"
    "\<forall>g. g 10 = addr_space_make_satp space \<longrightarrow>
      (\<exists>h3. exec_tramp (ld_trampoline_start L) userret (h2\<lparr>gpr := g, pc := addr\<rparr>) = Some h3 \<and>
         resumed L ?h0 a tf space kspace g h3)"
    by blast
  have "exec (usys_load name) h = Some ?h0" by (simp add: usys_load_def set_reg_def)
  moreover have "\<exists>h3 h4. exec_tramp (ld_trampoline_start L) userret (h2\<lparr>gpr := g, pc := addr\<rparr>) = Some h3 \<and>
      mode h3 = UserMode \<and> pc h3 = pc h + 4 \<and> (\<forall>i. 10 \<le> i \<longrightarrow> i < 17 \<longrightarrow> gpr h3 i = gpr h i) \<and>
      exec usys_ret h3 = Some h4 \<and> pc h4 = g 1" if "g 10 = addr_space_make_satp space" for g
    using s(3) [rule_format, of g, OF that] by (auto simp: resumed_def usys_ret_def reg_def)
  ultimately show ?thesis using s(1,2) by blast
qed

theorem stub_returns_astray_witness:
  "\<exists>h h0 h1 :: (usize \<Rightarrow> arc option option) machine. exec (usys_load ''exit'') h = Some h0 \<and>
    exec_tramp (ld_trampoline_start sample_linker) uservec (take_trap 8 0 h0) = Some h1 \<and>
    (\<exists>x. usertrap plain_riscv plain_bitflags sample_linker sample_code plain_syscalls h1 = Inr x)"
proof -
  obtain h :: "(usize \<Rightarrow> arc option option) machine" and tf space kspace where
    h: "running sample_linker h 0 tf space kspace" "user_mode sample_linker h tf space kspace" "pc h = TEXT_BASE_USER_VA"
    using sample_user by blast
  have "''exit'' \<in> set usys_names" "unat (pc h) + 4 < 2 ^ 64"
    using h(3) by (simp_all add: usys_names_def TEXT_BASE_USER_VA_def)
  from stub_returns_astray [OF plain_bitflags_ok plain_riscv_ok sample_code_ok plain_syscalls_ok h(1,2) this]
  show ?thesis by blast
qed

end
