(* ===== verification/Fs_Image.thy ===== *)
theory Fs_Image
  imports Arithmetics
begin

text \<open>
  \<^verbatim>\<open>fs/fs.cpp\<close>: the host tool that writes the disk image.  An argument is a path with what the stream reads
  there, \<open>None\<close> when it cannot be opened; the image is a function from positions to bytes, zero where
  nothing was written.  \<^verbatim>\<open>int\<close> and \<^verbatim>\<open>unsigned\<close> have 32 bits, \<^verbatim>\<open>ssize_t\<close> 64.  A counter of type
  \<^verbatim>\<open>int\<close> that would overflow is the error \<open>Int_overflow\<close>.  As \<^verbatim>\<open>argc\<close> is an \<^verbatim>\<open>int\<close> and every padded size is
  below \<open>2 ^ 31\<close>, the position \<open>cum_sz\<close> stays below \<open>2 ^ 63\<close> and is a natural number here.  The progress
  messages on the terminal are left out.
\<close>

section \<open>The tool\<close>

definition header_size :: nat where "header_size = 1024 * 1024"
definition page_size :: nat where "page_size = 1024 * 4"

definition align_val :: "u32 \<Rightarrow> u32" where
  "align_val val = (let mo = of_nat page_size - 1 in (val + mo) AND NOT mo)"

datatype fs_error = Out_of_range | Int_overflow

type_synonym image = "nat \<Rightarrow> u8"

record fs_file =
  file_offset :: int
  file_size :: int
  file_name :: string

text \<open>Consecutive \<^verbatim>\<open>put\<close> or \<^verbatim>\<open>write\<close> calls from a position on.\<close>

definition write_at :: "nat \<Rightarrow> u8 list \<Rightarrow> image \<Rightarrow> image" where
  "write_at p bs m x = (if p \<le> x \<and> x < p + length bs then bs ! (x - p) else m x)"

text \<open>The name from the last slash on; without a slash \<^verbatim>\<open>substr\<close> throws.\<close>

definition fs_name :: "string \<Rightarrow> fs_error + string" where
  "fs_name filename =
     (if CHR ''/'' \<in> set filename
      then Inr (CHR ''/'' # rev (takeWhile (\<lambda>c. c \<noteq> CHR ''/'') (rev filename)))
      else Inl Out_of_range)"

text \<open>\<^verbatim>\<open>tellg\<close> at the end of the stream: \<open>-1\<close> when the file was not opened.\<close>

definition tellg :: "u8 list option \<Rightarrow> int" where
  "tellg src = (case src of None \<Rightarrow> -1 | Some content \<Rightarrow> int (length content))"

text \<open>The two loops that copy the bytes and pad them; their counters end at the two bounds.\<close>

definition copy_file :: "u8 list option \<Rightarrow> nat \<Rightarrow> image \<Rightarrow> fs_error + image" where
  "copy_file src cum_sz hdd =
     (case src of
        None \<Rightarrow> Inr hdd
      | Some content \<Rightarrow>
          let sz = length content; padded = unat (align_val (of_nat sz)) in
          if 2 ^ 31 \<le> sz \<or> 2 ^ 31 \<le> padded then Inl Int_overflow
          else Inr (write_at cum_sz (content @ replicate (padded - sz) 0) hdd))"

fun place_files :: "(string \<times> u8 list option) list \<Rightarrow> nat \<Rightarrow> image \<Rightarrow> fs_error + (fs_file list \<times> image)" where
  "place_files [] cum_sz hdd = Inr ([], hdd)"
| "place_files ((filename, src) # rest) cum_sz hdd =
     (case fs_name filename of
        Inl e \<Rightarrow> Inl e
      | Inr fsname \<Rightarrow>
          let sz = tellg src in
          case copy_file src cum_sz hdd of
            Inl e \<Rightarrow> Inl e
          | Inr hdd1 \<Rightarrow>
              case place_files rest (cum_sz + unat (align_val (of_int sz))) hdd1 of
                Inl e \<Rightarrow> Inl e
              | Inr (files, hdd2) \<Rightarrow>
                  Inr (\<lparr>file_offset = int cum_sz, file_size = sz, file_name = fsname\<rparr> # files, hdd2))"

definition le_bytes :: "int \<Rightarrow> u8 list" where
  "le_bytes n = map (\<lambda>k. of_int (n div 256 ^ k)) [0..<8]"

definition entry_bytes :: "fs_file \<Rightarrow> u8 list" where
  "entry_bytes p = le_bytes (file_size p) @ le_bytes (file_offset p) @ map of_char (file_name p) @ [0]"

fun write_header :: "nat \<Rightarrow> fs_file list \<Rightarrow> image \<Rightarrow> fs_error + image" where
  "write_header i [] hdd = Inr hdd"
| "write_header i (p # files) hdd =
     (if 2 ^ 31 \<le> i * 1024 then Inl Int_overflow
      else write_header (Suc i) files (write_at (i * 1024) (entry_bytes p) hdd))"

definition make_image :: "(string \<times> u8 list option) list \<Rightarrow> fs_error + image" where
  "make_image args =
     (case place_files args header_size (\<lambda>_. 0) of
        Inl e \<Rightarrow> Inl e
      | Inr (files, hdd) \<Rightarrow> write_header 0 files hdd)"

text \<open>What a reader of the image finds: the signed 64-bit number at a position, the bytes up to a zero, and
  the entry in the header's slot \<open>i\<close>.\<close>

definition read_i64 :: "image \<Rightarrow> nat \<Rightarrow> int" where
  "read_i64 m p = signed_take_bit 63 (\<Sum>k<8. uint (m (p + k)) * 256 ^ k)"

fun read_name :: "nat \<Rightarrow> image \<Rightarrow> nat \<Rightarrow> string" where
  "read_name 0 m p = []"
| "read_name (Suc n) m p = (if m p = 0 then [] else char_of (unat (m p)) # read_name n m (Suc p))"

definition read_entry :: "image \<Rightarrow> nat \<Rightarrow> fs_file" where
  "read_entry m i =
     \<lparr>file_offset = read_i64 m (i * 1024 + 8), file_size = read_i64 m (i * 1024),
      file_name = read_name 1008 m (i * 1024 + 16)\<rparr>"

definition file_bytes :: "u8 list option \<Rightarrow> u8 list" where
  "file_bytes src = (case src of None \<Rightarrow> [] | Some content \<Rightarrow> content)"

text \<open>Arguments the tool can place: a path with a slash, a name that fits the slot, a size whose padding
  stays below \<open>2 ^ 31\<close>.\<close>

definition fs_arg_ok :: "string \<times> u8 list option \<Rightarrow> bool" where
  "fs_arg_ok a =
     (CHR ''/'' \<in> set (fst a) \<and> CHR 0x00 \<notin> set (fst a) \<and>
      length (takeWhile (\<lambda>c. c \<noteq> CHR ''/'') (rev (fst a))) \<le> 1006 \<and>
      length (file_bytes (snd a)) \<le> 2 ^ 31 - 4096)"

section \<open>Positions\<close>

definition padded :: "u8 list option \<Rightarrow> nat" where
  "padded src = (length (file_bytes src) + 4095) div 4096 * 4096"

lemma align_val_nat:
  assumes "n < 2 ^ 31"
  shows "unat (align_val (of_nat n)) = (n + 4095) div 4096 * 4096"
proof -
  have "align_val (of_nat n) = (of_nat n + 4095) AND NOT (mask 12)"
    by (simp add: align_val_def page_size_def mask_eq_exp_minus_1)
  moreover have "unat (of_nat n + 4095 :: u32) = n + 4095"
    using assms by (simp add: unat_word_ariths(1) unat_of_nat take_bit_nat_eq_self)
  ultimately show ?thesis
    by (simp add: unat_and_not_mask)
qed

lemma align_tellg:
  assumes "fs_arg_ok (f, src)"
  shows "unat (align_val (of_int (tellg src))) = padded src"
  using assms align_val_nat [of "length (file_bytes src)"]
  by (cases src) (simp_all add: fs_arg_ok_def tellg_def padded_def file_bytes_def align_val_def page_size_def)

lemma padded_ge: "length (file_bytes src) \<le> padded src"
  unfolding padded_def
  using div_mult_mod_eq [of "length (file_bytes src) + 4095" 4096]
    mod_less_divisor [of 4096 "length (file_bytes src) + 4095"] by linarith

lemma padded_le:
  assumes "fs_arg_ok (f, src)"
  shows "padded src \<le> 2 ^ 31 - 4096"
proof -
  have "(n + 4095) div 4096 \<le> 524287" if "n \<le> 2147479552" for n :: nat
    using that by linarith
  then show ?thesis using assms by (simp add: padded_def fs_arg_ok_def)
qed

lemma copy_file_ok:
  assumes "fs_arg_ok (f, src)"
  obtains bs where "copy_file src cum hdd = Inr (write_at cum bs hdd)"
    and "length bs = padded src" and "take (length (file_bytes src)) bs = file_bytes src"
proof (cases src)
  case None
  then show ?thesis
    by (intro that [of "[]"]) (auto simp: copy_file_def padded_def file_bytes_def write_at_def fun_eq_iff)
next
  case (Some content)
  then show ?thesis
    using assms padded_le [OF assms] padded_ge [of src] align_val_nat [of "length content"]
    by (intro that [of "content @ replicate (padded src - length content) 0"])
       (simp_all add: copy_file_def padded_def file_bytes_def fs_arg_ok_def Let_def)
qed

lemma write_at_out: "x < p \<or> p + length bs \<le> x \<Longrightarrow> write_at p bs m x = m x"
  by (auto simp: write_at_def)

lemma write_at_in: "k < length bs \<Longrightarrow> write_at p bs m (p + k) = bs ! k"
  by (simp add: write_at_def)

text \<open>The \<open>i\<close>-th file lies \<open>start_of args i\<close> bytes after the first.\<close>

definition start_of :: "(string \<times> u8 list option) list \<Rightarrow> nat \<Rightarrow> nat" where
  "start_of args i = sum_list (map (padded \<circ> snd) (take i args))"

definition entry_of :: "nat \<Rightarrow> (string \<times> u8 list option) list \<Rightarrow> nat \<Rightarrow> fs_file" where
  "entry_of cum args i =
     \<lparr>file_offset = int (cum + start_of args i), file_size = tellg (snd (args ! i)),
      file_name = projr (fs_name (fst (args ! i)))\<rparr>"

lemma start_of_simps [simp]:
  "start_of args 0 = 0"
  "start_of (a # args) (Suc i) = padded (snd a) + start_of args i"
  by (simp_all add: start_of_def)

lemma entry_of_Suc [simp]: "entry_of cum (a # args) (Suc i) = entry_of (cum + padded (snd a)) args i"
  by (simp add: entry_of_def add.assoc)

lemma place_files_ok:
  assumes "list_all fs_arg_ok args"
  shows "\<exists>m. place_files args cum hdd = Inr (map (entry_of cum args) [0..<length args], m) \<and>
    (\<forall>x < cum. m x = hdd x) \<and>
    (\<forall>i < length args. \<forall>k < length (file_bytes (snd (args ! i))).
       m (cum + start_of args i + k) = file_bytes (snd (args ! i)) ! k)"
  using assms
proof (induction args arbitrary: cum hdd)
  case (Cons a args)
  obtain f src where a: "a = (f, src)" by (cases a)
  have ok: "fs_arg_ok (f, src)" using Cons.prems a by simp
  obtain bs where bs: "copy_file src cum hdd = Inr (write_at cum bs hdd)" "length bs = padded src"
    "take (length (file_bytes src)) bs = file_bytes src"
    by (rule copy_file_ok [OF ok])
  obtain m where m: "place_files args (cum + padded src) (write_at cum bs hdd) =
      Inr (map (entry_of (cum + padded src) args) [0..<length args], m)"
    "\<forall>x < cum + padded src. m x = write_at cum bs hdd x"
    "\<forall>i < length args. \<forall>k < length (file_bytes (snd (args ! i))).
       m (cum + padded src + start_of args i + k) = file_bytes (snd (args ! i)) ! k"
    using Cons.IH [of "cum + padded src" "write_at cum bs hdd"] Cons.prems by auto
  obtain nm where name: "fs_name f = Inr nm"
    using ok by (auto simp: fs_arg_ok_def fs_name_def)
  have list: "map (entry_of cum (a # args)) [0..<length (a # args)] =
      entry_of cum (a # args) 0 # map (entry_of (cum + padded src) args) [0..<length args]"
    by (simp add: upt_conv_Cons map_Suc_upt [symmetric] a del: upt_Suc)
  have placed: "place_files (a # args) cum hdd = Inr (map (entry_of cum (a # args)) [0..<length (a # args)], m)"
    using m(1) bs(1) name unfolding list
    by (simp add: a align_tellg [OF ok] entry_of_def)
  have first: "m (cum + k) = file_bytes src ! k" if "k < length (file_bytes src)" for k
    using m(2) bs(2) that padded_ge [of src] write_at_in [of k bs cum hdd]
    by (metis add_strict_left_mono bs(3) nth_take order_less_le_trans)
  have "\<forall>i < length (a # args). \<forall>k < length (file_bytes (snd ((a # args) ! i))).
      m (cum + start_of (a # args) i + k) = file_bytes (snd ((a # args) ! i)) ! k"
    using first m(3) by (auto simp: a less_Suc_eq_0_disj add.assoc)
  moreover have "\<forall>x < cum. m x = hdd x"
    using m(2) by (simp add: write_at_out)
  ultimately show ?case using placed by blast
qed simp

section \<open>The header\<close>

lemma le_bytes_length [simp]: "length (le_bytes n) = 8"
  by (simp add: le_bytes_def)

lemma write_header_ok:
  assumes "\<forall>p \<in> set files. length (entry_bytes p) \<le> 1024" and "i + length files \<le> 1024"
  shows "\<exists>m. write_header i files hdd = Inr m \<and>
    (\<forall>x. x < i * 1024 \<or> (i + length files) * 1024 \<le> x \<longrightarrow> m x = hdd x) \<and>
    (\<forall>j < length files. \<forall>k < length (entry_bytes (files ! j)).
       m ((i + j) * 1024 + k) = entry_bytes (files ! j) ! k)"
  using assms
proof (induction files arbitrary: i hdd)
  case (Cons p files)
  let ?h = "write_at (i * 1024) (entry_bytes p) hdd"
  obtain m where m: "write_header (Suc i) files ?h = Inr m"
    "\<forall>x. x < Suc i * 1024 \<or> (Suc i + length files) * 1024 \<le> x \<longrightarrow> m x = ?h x"
    "\<forall>j < length files. \<forall>k < length (entry_bytes (files ! j)).
       m ((Suc i + j) * 1024 + k) = entry_bytes (files ! j) ! k"
    using Cons.IH [of "Suc i" ?h] Cons.prems by auto
  have len: "length (entry_bytes p) \<le> 1024" using Cons.prems by simp
  have "m x = hdd x" if "x < i * 1024 \<or> (i + length (p # files)) * 1024 \<le> x" for x
    using that m(2) len by (auto simp: write_at_out)
  moreover have "m (i * 1024 + k) = entry_bytes p ! k" if "k < length (entry_bytes p)" for k
    using that m(2) len write_at_in [OF that, of "i * 1024" hdd] by simp
  ultimately show ?case
    using m(1,3) Cons.prems(2) by (auto simp: less_Suc_eq_0_disj algebra_simps)
qed simp

lemma le_bytes_value:
  "(\<Sum>k<8. uint (le_bytes n ! k) * 256 ^ k) = n mod 2 ^ 64"
proof -
  have digits: "(\<Sum>k<j. (n div 256 ^ k) mod 256 * 256 ^ k) = n mod 256 ^ j" for j
  proof (induction j)
    case (Suc j)
    have "n mod (256 ^ j * 256) = 256 ^ j * (n div 256 ^ j mod 256) + n mod 256 ^ j"
      by (rule zmod_zmult2_eq) simp
    then show ?case using Suc by (simp add: mult.commute)
  qed simp
  have "uint (le_bytes n ! k) = n div 256 ^ k mod 256" if "k < 8" for k
    using that by (simp add: le_bytes_def uint_word_of_int_eq take_bit_eq_mod)
  then have "(\<Sum>k<8. uint (le_bytes n ! k) * 256 ^ k) = (\<Sum>k<8. (n div 256 ^ k) mod 256 * 256 ^ k)"
    by (intro sum.cong) simp_all
  then show ?thesis using digits [of 8] by simp
qed

lemma read_i64_ok:
  assumes "\<forall>k < 8. m (p + k) = le_bytes n ! k" and "- (2 ^ 63) \<le> n" and "n < 2 ^ 63"
  shows "read_i64 m p = n"
proof -
  have "read_i64 m p = signed_take_bit 63 (\<Sum>k<8. uint (le_bytes n ! k) * 256 ^ k)"
    unfolding read_i64_def using assms(1) by (intro arg_cong [where f = "signed_take_bit 63"] sum.cong) simp_all
  also have "\<dots> = signed_take_bit 63 (take_bit 64 n)"
    by (simp add: le_bytes_value take_bit_eq_mod)
  also have "\<dots> = n"
    using assms(2,3) by (simp add: signed_take_bit_take_bit signed_take_bit_int_eq_self)
  finally show ?thesis .
qed

lemma of_char_u8:
  "unat (of_char c :: u8) = of_char c"
proof -
  have "unat (of_nat (of_char c) :: u8) = of_char c mod 256" by (simp only: unat_of_nat) simp
  then show ?thesis by (simp add: of_nat_of_char)
qed

lemma read_name_ok:
  assumes "\<forall>k < length s. m (p + k) = of_char (s ! k)" and "m (p + length s) = 0"
    and "CHR 0x00 \<notin> set s" and "length s < n"
  shows "read_name n m p = s"
  using assms
proof (induction s arbitrary: p n)
  case (Cons c s)
  obtain n' where n: "n = Suc n'" "length s < n'" using Cons.prems(4) by (cases n) auto
  have head: "m p = of_char c" using Cons.prems(1) by (metis add.right_neutral length_greater_0_conv list.discI nth_Cons_0)
  have "read_name n' m (Suc p) = s"
    using Cons.prems n by (intro Cons.IH) (auto simp: All_less_Suc2)
  moreover have "(of_char c :: u8) \<noteq> 0"
    using Cons.prems(3) of_char_u8 [of c] of_char_eq_iff [of c "CHR 0x00", where ?'a = nat] by auto
  ultimately show ?case using head by (simp add: n of_char_u8)
next
  case Nil
  then show ?case by (cases n) simp_all
qed

section \<open>The image can be read back\<close>

lemma start_of_step:
  assumes "j < i" and "i \<le> length args"
  shows "start_of args j + padded (snd (args ! j)) \<le> start_of args i"
  using assms
proof (induction args arbitrary: i j)
  case (Cons a args)
  then show ?case by (cases i; cases j) auto
qed simp

lemma start_of_bounds:
  assumes "list_all fs_arg_ok args"
  shows "start_of args i \<le> length args * 2 ^ 31" and "4096 dvd start_of args i"
proof -
  have "start_of args i \<le> length args * 2 ^ 31 \<and> 4096 dvd start_of args i"
    using assms
  proof (induction args arbitrary: i)
    case (Cons a args)
    have "padded (snd a) \<le> 2 ^ 31" "4096 dvd padded (snd a)"
      using Cons.prems padded_le [of "fst a" "snd a"] by (simp_all add: padded_def)
    moreover have "start_of args j \<le> length args * 2 ^ 31" "4096 dvd start_of args j" for j
      using Cons by simp_all
    ultimately show ?case by (cases i) (simp_all add: add_mono)
  qed (simp add: start_of_def)
  then show "start_of args i \<le> length args * 2 ^ 31" and "4096 dvd start_of args i" by simp_all
qed

lemma read_entry_ok:
  assumes "fs_arg_ok (args ! i)" and "cum + start_of args i < 2 ^ 63"
    and "\<forall>k < length (entry_bytes (entry_of cum args i)). m (i * 1024 + k) = entry_bytes (entry_of cum args i) ! k"
  shows "read_entry m i = entry_of cum args i"
proof -
  let ?p = "entry_of cum args i" and ?s = "file_name (entry_of cum args i)"
  have name: "CHR 0x00 \<notin> set ?s" "length ?s < 1008"
    using assms(1) by (auto simp: entry_of_def fs_arg_ok_def fs_name_def dest: set_takeWhileD)
  have size: "- (2 ^ 63) \<le> file_size ?p" "file_size ?p < 2 ^ 63"
    using assms(1) by (auto simp: entry_of_def fs_arg_ok_def tellg_def file_bytes_def split: option.splits)
  have b: "m (i * 1024 + k) = entry_bytes ?p ! k" if "k < 17 + length ?s" for k
    using assms(3) that by (simp add: entry_bytes_def)
  have "read_i64 m (i * 1024) = file_size ?p"
    using b size by (intro read_i64_ok) (simp_all add: entry_bytes_def nth_append)
  moreover have "read_i64 m (i * 1024 + 8) = file_offset ?p"
    using b [of "8 + _"] assms(2)
    by (intro read_i64_ok) (simp_all add: entry_bytes_def nth_append entry_of_def add.assoc)
  moreover have "read_name 1008 m (i * 1024 + 16) = ?s"
    using b [of "16 + _"] name
    by (intro read_name_ok) (simp_all add: entry_bytes_def nth_append add.assoc)
  ultimately show ?thesis by (simp add: read_entry_def)
qed

lemma entry_bytes_fit: "fs_arg_ok (args ! i) \<Longrightarrow> length (entry_bytes (entry_of cum args i)) \<le> 1024"
  by (simp add: entry_bytes_def entry_of_def fs_arg_ok_def fs_name_def)

lemma make_image_ok:
  assumes "list_all fs_arg_ok args" and "length args \<le> 1024"
  shows "\<exists>m. make_image args = Inr m \<and>
    (\<forall>i < length args. read_entry m i = entry_of header_size args i \<and>
       (\<forall>k < length (file_bytes (snd (args ! i))).
          m (header_size + start_of args i + k) = file_bytes (snd (args ! i)) ! k))"
proof -
  let ?e = "map (entry_of header_size args) [0..<length args]"
  have arg: "fs_arg_ok (args ! i)" if "i < length args" for i
    using assms(1) that by (simp add: list_all_length)
  obtain m where m: "place_files args header_size (\<lambda>_. 0) = Inr (?e, m)"
    "\<forall>i < length args. \<forall>k < length (file_bytes (snd (args ! i))).
       m (header_size + start_of args i + k) = file_bytes (snd (args ! i)) ! k"
    using place_files_ok [OF assms(1), of header_size "\<lambda>_. 0"] by blast
  have "\<forall>p \<in> set ?e. length (entry_bytes p) \<le> 1024" using arg entry_bytes_fit by auto
  then obtain m' where m': "write_header 0 ?e m = Inr m'"
    "\<forall>x. length args * 1024 \<le> x \<longrightarrow> m' x = m x"
    "\<forall>j < length args. \<forall>k < length (entry_bytes (?e ! j)). m' (j * 1024 + k) = entry_bytes (?e ! j) ! k"
    using write_header_ok [of ?e 0 m] assms(2) by auto
  have "read_entry m' i = entry_of header_size args i" if "i < length args" for i
    using that m'(3) arg start_of_bounds(1) [OF assms(1), of i] assms(2)
    by (intro read_entry_ok) (auto simp: header_size_def)
  moreover have "m' (header_size + x) = m (header_size + x)" for x
    using m'(2) assms(2) by (simp add: header_size_def)
  ultimately show ?thesis
    using m m'(1) by (simp add: make_image_def add.assoc)
qed

text \<open>
  C28. The disk image can be read back.  For at most 1024 readable or unreadable files whose paths have a
  slash, whose names fit a header slot and whose padded sizes stay below \<open>2 ^ 31\<close>, the tool succeeds.  Slot
  \<open>i\<close> of the header then reads as the name, the size and the offset of file \<open>i\<close>; the offset is a multiple of
  the page size behind the header; the bytes there are the file's; and no file overlaps an earlier one.
\<close>

theorem image_roundtrip:
  assumes "list_all fs_arg_ok args" and "length args \<le> 1024"
  shows "\<exists>m. make_image args = Inr m \<and>
    (\<forall>i < length args. let p = read_entry m i; bs = file_bytes (snd (args ! i)) in
       Inr (file_name p) = fs_name (fst (args ! i)) \<and> file_size p = tellg (snd (args ! i)) \<and>
       int header_size \<le> file_offset p \<and> 4096 dvd file_offset p \<and>
       map (\<lambda>k. m (nat (file_offset p) + k)) [0..<length bs] = bs \<and>
       (\<forall>j < i. file_offset (read_entry m j) + int (length (file_bytes (snd (args ! j)))) \<le> file_offset p))"
proof -
  obtain m where m: "make_image args = Inr m"
    "\<And>i. i < length args \<Longrightarrow> read_entry m i = entry_of header_size args i"
    "\<And>i k. i < length args \<Longrightarrow> k < length (file_bytes (snd (args ! i))) \<Longrightarrow>
       m (header_size + start_of args i + k) = file_bytes (snd (args ! i)) ! k"
    using make_image_ok [OF assms] by blast
  have name: "Inr (projr (fs_name (fst (args ! i)))) = fs_name (fst (args ! i))" if "i < length args" for i
    using assms(1) that by (simp add: list_all_length fs_arg_ok_def fs_name_def)
  have page: "4096 dvd int (header_size + start_of args i)" for i
  proof -
    have "4096 dvd header_size + start_of args i"
      using start_of_bounds(2) [OF assms(1), of i] by (intro dvd_add) (simp_all add: header_size_def)
    then show ?thesis by (simp only: int_dvd_int_iff [of 4096, simplified])
  qed
  have apart: "start_of args j + length (file_bytes (snd (args ! j))) \<le> start_of args i"
    if "j < i" "i < length args" for i j
    using start_of_step [of j i args] padded_ge [of "snd (args ! j)"] that by simp
  have bytes: "map (\<lambda>k. m (header_size + start_of args i + k)) [0..<length (file_bytes (snd (args ! i)))] =
      file_bytes (snd (args ! i))" if "i < length args" for i
    using m(3) [OF that] by (intro nth_equalityI) simp_all
  show ?thesis
    using m(1) name page bytes apart
    by (intro exI [of _ m]) (auto simp: Let_def m(2) entry_of_def nat_int_add simp flip: of_nat_add)
qed

theorem image_roundtrip_witness:
  "\<exists>m. make_image [(''./a/ls'', Some [1, 2, 3]), (''/gone'', None)] = Inr m \<and>
     file_name (read_entry m 0) = ''/ls'' \<and> file_size (read_entry m 0) = 3 \<and> file_size (read_entry m 1) = -1"
  using image_roundtrip [of "[(''./a/ls'', Some [1, 2, 3]), (''/gone'', None)]"]
  by (auto simp: fs_arg_ok_def file_bytes_def fs_name_def tellg_def Let_def less_Suc_eq_0_disj all_conj_distrib)

end
