(* ===== verification/Spec2Isabelle.thy ===== *)
theory Spec2Isabelle
  imports Start_Theorems User_Calls Fs_Image
begin

text \<open>
  A verification development for the RISC-V kernel derek-core: the kernel under \<^verbatim>\<open>kernel/src\<close>, the user library
  under \<^verbatim>\<open>user/src\<close> and the tool that writes the disk image, \<^verbatim>\<open>fs/fs.cpp\<close>.

  \<^bold>\<open>The program.\<close>  Every hart starts in \<^verbatim>\<open>boot.S\<close>, which clears \<^verbatim>\<open>.bss\<close> and sets a stack, and goes on in \<open>kstart\<close> in
  machine mode.  \<open>kstart\<close> starts the timer and enters \<open>kmain\<close> in supervisor mode.  There hart 0 sets up the serial
  line, the kernel heap, the frame allocator, the kernel's address space, the trap vector, the interrupt controller
  and the first process.  It then locks the kernel's page table and leaves through \<open>usertrapret\<close> and the trampoline
  to user mode.  A process comes back through the trampoline to \<open>usertrap\<close>.  The other harts wait for hart 0.

  \<^bold>\<open>State.\<close>  \<open>kstate\<close> has physical memory, byte by byte, and the static \<open>FRAME_ALLOCATOR\<close>.  \<open>mm_state\<close> adds the statics
  and registers of the memory subsystem, \<open>hart\<close> the registers of a hart, and \<open>machine\<close> the control blocks, the process
  manager, the CPU blocks and \<open>HART0_STARTED\<close>.  Page table nodes, trap contexts and frames are bytes of that one memory
  and may alias.  The kernel is built with overflow checks, so an operation that can panic returns \<open>panic + 'a\<close>, and
  every assertion, unwrap, overflow and index of the source is a branch.  Assembly is a list of instructions, run with
  the translation in force at every fetch, load and store.

  \<^bold>\<open>Theories and sources\<close> (paths under \<^verbatim>\<open>kernel/src\<close> unless given in full).
  \<^item> \<open>Prelude\<close>: machine integers, panics, checked operations, loops over lists.  \<open>Layout\<close>: \<^verbatim>\<open>mm/layout.rs\<close>, \<^verbatim>\<open>kernel.ld\<close>.
    \<open>Arithmetics\<close>: \<^verbatim>\<open>mm/arithmetics.rs\<close>.  \<open>Phys_Mem\<close>: memory.  \<open>Memory\<close>, \<open>Guards\<close>: \<^verbatim>\<open>mm/memory.rs\<close>.
  \<^item> \<open>Frame_Allocator\<close>, \<open>Heap_Allocator\<close>: \<^verbatim>\<open>allocator/\<close>.
  \<^item> \<open>Page_Table\<close> has the operations of \<^verbatim>\<open>mm/page_table.rs\<close>; \<open>Page_Walk\<close>, \<open>Page_Map\<close>, \<open>Page_Area\<close> and \<open>Page_Life\<close>
    relate them to the map that a table denotes, and \<open>Page_Theorems\<close> has the properties.
  \<^item> \<open>Virt_Area\<close>, \<open>Address_Space\<close>: \<^verbatim>\<open>mm/address_space.rs\<close>, \<^verbatim>\<open>mm/mod.rs\<close>.  \<open>Space_Map\<close>, \<open>Kernel_Space\<close>, \<open>Kernel_Boot\<close>
    and \<open>Boot_Theorems\<close> treat the kernel's space, \<open>User_Space\<close> and \<open>User_Theorems\<close> that of the first process.
  \<^item> \<open>Mmu\<close>: the Sv39 translation of the hardware.  \<open>Hart\<close>: \<^verbatim>\<open>arch.rs\<close>, registers and instructions.
  \<^item> \<open>Context\<close>, \<open>Process\<close>, \<open>Manager\<close>, \<open>First_Process\<close>: \<^verbatim>\<open>process/\<close>, \<^verbatim>\<open>cpu.rs\<close>, \<^verbatim>\<open>symbols.rs\<close>.  \<open>Resource_Table\<close>:
    \<^verbatim>\<open>common/resource_table.rs\<close>.
  \<^item> \<open>Trap\<close>: \<^verbatim>\<open>trap/\<close>.  \<open>Trampoline\<close>: \<^verbatim>\<open>asm/trampoline.S\<close>.  \<open>Kernelvec\<close>, \<open>Clint\<close>: \<^verbatim>\<open>asm/kernelvec.S\<close>, \<^verbatim>\<open>clint.rs\<close>.
    \<open>Trap_Theorems\<close>, \<open>Interrupt_Theorems\<close> and \<open>Isolation\<close> have their properties.
  \<^item> \<open>Mmio\<close>, \<open>Uart\<close>, \<open>Plic\<close>, \<open>Print\<close>: \<^verbatim>\<open>uart.rs\<close>, \<^verbatim>\<open>plic.rs\<close>, \<^verbatim>\<open>print.rs\<close>, the message of \<^verbatim>\<open>lib.rs\<close>.
  \<^item> \<open>Boot\<close>, \<open>Start\<close>, \<open>Start_Theorems\<close>: \<^verbatim>\<open>asm/boot.S\<close>, \<^verbatim>\<open>start.rs\<close>.
  \<^item> \<open>User_Calls\<close>: \<^verbatim>\<open>user/src/syscall.rs\<close>, \<^verbatim>\<open>user/src/initcode.S\<close>, \<^verbatim>\<open>utils/syscall.py\<close>, \<^verbatim>\<open>utils/usys.S.py\<close>.
    \<open>Fs_Image\<close>: \<^verbatim>\<open>fs/fs.cpp\<close>.

  \<^bold>\<open>What is shown.\<close>
  \<^item> Memory: one-page allocation implements a pool of frames (locale \<open>frame_pool\<close>), with distinct frames, exact
    release and a state that stays well typed.  The page table operations implement a finite map, keep the tree of
    nodes, write nothing else and give every frame back.
  \<^item> Address spaces: \<open>make_kernel\<close> and \<open>make_init\<close> end with exactly the map of their layout and its permissions; the
    hardware translates a mapped page as the kernel mapped it; locking makes just the nodes read-only.  No page of
    these spaces is both writable and executable, and the kernel's pages are out of reach of user mode.
  \<^item> Traps: the trampoline and the structure \<^verbatim>\<open>TrapContext\<close> agree on every word; a system call comes back with the
    registers of the process except \<open>x1\<close>, which the trampoline does not restore; an interrupt of the kernel is
    transparent; the timer rearms itself.  A process that computes, stores and makes system calls in any order
    changes no memory but its stack page and its trap frame: not its text, the kernel or a page table.
  \<^item> Boot: hart 0 gets from reset to the first instruction of the first process when no interrupt arrives between
    line 103 of \<^verbatim>\<open>start.rs\<close>, which lets them in, and user mode; a timer tick that arrives before that line stops it there.
  \<^item> Drivers and tools: on a 16550 a string is sent as its bytes, the accesses of the interrupt controller stay in its
    region, and the disk image can be read back.
  \<^item> Defects: the theorems of kind error state where the code panics, loops or damages its own state, for example a
    timer tick in user mode, harts other than 0, and a run of several pages in the frame allocator.

  \<^bold>\<open>Interfaces.\<close>  Three locales, each interpreted on the model: \<open>frame_pool\<close> (the allocator for guards and tables),
  \<open>cell_store\<close> (the entries of a table in memory) and \<open>handle_table\<close> (the table of process ids).

  \<^bold>\<open>Parameters.\<close>  Code outside the repository is an argument with a named hypothesis: \<open>B\<close>, \<open>bitflags_ok\<close>, for the crate
  \<^verbatim>\<open>bitflags\<close>; \<open>R\<close>, \<open>riscv_ok\<close>, and \<open>S\<close>, \<open>satp_set_ok\<close>, for the crate \<^verbatim>\<open>riscv\<close>; \<open>H\<close>, \<open>hash_map_ok\<close>, for \<^verbatim>\<open>hashbrown\<close>;
  \<open>Q\<close>, \<open>syscall_from_ok\<close>, for the decoder of call numbers; \<open>vps\<close> for the page size of \<^verbatim>\<open>virtio_drivers\<close>; \<open>st\<close>,
  \<open>heap_stats_ok\<close>, for the counters of the heap crate; \<open>L\<close>, \<open>linker_ok\<close>, and \<open>C\<close>, \<open>code_ok\<close>, for what the linker fixes;
  \<open>D\<close> for the devices, with \<open>uart_ok\<close>, what the data sheet of the 16550 says of the registers that the driver uses, and
  \<open>plic_apart\<close>, that accesses to the interrupt controller do not reach the serial line.  \<open>uart_ok\<close> leaves open
  when the transmitter sends, but for a bound on the polls until it is empty.  The witnesses instantiate all
  these with concrete functions.

  \<^bold>\<open>Bounds and loops.\<close>  No fuel is used.  Loops that may not end are partial functions with \<open>None\<close> for not returning:
  \<open>bss_loop\<close>, \<open>uart_wait\<close>, \<open>wait_hart0\<close> and \<open>serve\<close>; the first two are shown to return under the linker and device
  hypotheses, the last to return when nothing pends and not to return on a tick.  The kernel's table needs at most 73 frames.  Boot needs 159 free pages: 73 for the kernel's space, 13
  for the first process, and 73 for the second kernel space that exists while the table is locked.

  \<^bold>\<open>Not modelled.\<close>
  \<^item> Concurrency: operations run one after another and locks are always free.  Only what one hart does to memory that
    another has set up is stated, for the clearing of \<^verbatim>\<open>.bss\<close>.
  \<^item> Interrupts while Rust code of the kernel runs, except those that have arrived by line 103 of \<^verbatim>\<open>start.rs\<close>, the
    argument \<open>pend\<close> of \<open>kmain\<close>.  Before that line interrupts of the supervisor are off, and a tick, which machine mode
    handles, changes only \<^verbatim>\<open>sip\<close>, the scratch area of its hart and its compare register.  Between that line and the
    \<^verbatim>\<open>sret\<close> of \<^verbatim>\<open>__userret\<close> interrupts are on, and the theorem about the boot holds if none arrives there.
  \<^item> The compiled code of Rust functions: its use of the stack, and the heap behind its collections.  Statics that are
    fields of the state records are not affected by the loop over \<^verbatim>\<open>.bss\<close>.
  \<^item> Messages printed by functions that \<open>kmain\<close> calls and by the trap handlers, with their locks.  Panic messages with formatted values keep only their literal
    parts.
  \<^item> The accessed and dirty bits and physical memory protection; instructions that the assembly files do not use; the
    low bits of \<^verbatim>\<open>sepc\<close>, which are clear in the address of every instruction.
  \<^item> The endless wait after a panic, the user programs, the linker script of user programs, the generators of symbol
    files, the empty file \<^verbatim>\<open>asm/swtch.S\<close>, and \<^verbatim>\<open>fs/mock.rs\<close>, a structure without operations.
\<close>

end
